(* ===== verification/Prelude.thy ===== *)
theory Prelude
  imports Complex_Main "HOL-Library.Char_ord" "HOL-Library.List_Lexorder" "HOL-Library.Sublist"
    "HOL-Library.Multiset"
begin

text \<open>
  What every component shares: C strings as character lists (without the terminating NUL), the
  string and character functions of the C library that the sources call, decimal numbers, files
  as texts read line by line, and general lemmas on lists.

  A \<open>char *\<close> that may be NULL is a \<open>string option\<close>; one that the code has checked is a
  \<open>string\<close>. Allocation never fails here: \<open>_malloc\<close>, \<open>_realloc\<close>, \<open>_strdup\<close> and \<open>_strndup\<close>
  (src/src/shifter_mem.c) end the process when the C library runs out of memory.
\<close>

named_theorems cstr_simps "evaluation of the C string functions"
named_theorems policy_simps "the tables and predicates of the mount policy"

type_synonym cstring = "char list"

section \<open>Characters\<close>

text \<open>The classes of \<open>ctype.h\<close> in the C locale, by code point.\<close>

definition code :: "char \<Rightarrow> nat" where
  "code c = of_char c"

definition isspace :: "char \<Rightarrow> bool" where
  "isspace c \<longleftrightarrow> code c = 32 \<or> 9 \<le> code c \<and> code c \<le> 13"

definition isdigit :: "char \<Rightarrow> bool" where
  "isdigit c \<longleftrightarrow> 48 \<le> code c \<and> code c \<le> 57"

definition isupper :: "char \<Rightarrow> bool" where
  "isupper c \<longleftrightarrow> 65 \<le> code c \<and> code c \<le> 90"

definition islower :: "char \<Rightarrow> bool" where
  "islower c \<longleftrightarrow> 97 \<le> code c \<and> code c \<le> 122"

definition isalnum :: "char \<Rightarrow> bool" where
  "isalnum c \<longleftrightarrow> isdigit c \<or> isupper c \<or> islower c"

definition tolower :: "char \<Rightarrow> char" where
  "tolower c = (if isupper c then char_of (code c + 32) else c)"

definition NL :: char where "NL = CHR 0x0A"
definition TAB :: char where "TAB = CHR 0x09"
definition QUOTE :: char where "QUOTE = CHR 0x27"
definition DQUOTE :: char where "DQUOTE = CHR 0x22"
definition BSLASH :: char where "BSLASH = CHR 0x5C"

lemmas char_class_defs = isspace_def isdigit_def isupper_def islower_def isalnum_def code_def
lemmas special_char_defs = NL_def TAB_def QUOTE_def DQUOTE_def BSLASH_def

lemmas tolower_eval = tolower_def char_class_defs char_of_def bit_Suc_0_iff

section \<open>Strings\<close>

text \<open>\<open>strcmp\<close>: only the sign of its result is used, so it is normalised to -1, 0 and 1.\<close>

definition strcmp :: "cstring \<Rightarrow> cstring \<Rightarrow> int" where
  "strcmp a b = (if a = b then 0 else if a < b then -1 else 1)"

definition strcasecmp_eq :: "cstring \<Rightarrow> cstring \<Rightarrow> bool" where
  "strcasecmp_eq a b \<longleftrightarrow> map tolower a = map tolower b"

text \<open>
  \<open>strncmp(s, p, strlen(p)) == 0\<close> is \<open>prefix p s\<close>; \<open>strstr(s, p) != NULL\<close> is \<open>sublist p s\<close>;
  \<open>strchr(s, c)\<close> splits the string at the first \<open>c\<close>.
\<close>

definition strchr_split :: "char \<Rightarrow> cstring \<Rightarrow> (cstring \<times> cstring) option" where
  "strchr_split c s =
     (if c \<in> set s then Some (takeWhile (\<lambda>x. x \<noteq> c) s, tl (dropWhile (\<lambda>x. x \<noteq> c) s)) else None)"

text \<open>The pieces between separators, empty ones included.\<close>

fun split_on :: "(char \<Rightarrow> bool) \<Rightarrow> cstring \<Rightarrow> cstring list" where
  "split_on d [] = [[]]"
| "split_on d (c # s) =
     (if d c then [] # split_on d s
      else (case split_on d s of [] \<Rightarrow> [[c]] | t # ts \<Rightarrow> (c # t) # ts))"

text \<open>The tokens that repeated calls of \<open>strtok_r\<close> return: the pieces that are not empty.\<close>

definition strtok_all :: "(char \<Rightarrow> bool) \<Rightarrow> cstring \<Rightarrow> cstring list" where
  "strtok_all d s = filter (\<lambda>t. t \<noteq> []) (split_on d s)"

fun join_with :: "cstring \<Rightarrow> cstring list \<Rightarrow> cstring" where
  "join_with sep [] = []"
| "join_with sep [t] = t"
| "join_with sep (t # ts) = t @ sep @ join_with sep ts"

lemma strcmp_zero [simp]: "strcmp a b = 0 \<longleftrightarrow> a = b"
  by (simp add: strcmp_def)

lemma strcmp_pos [simp]: "0 < strcmp a b \<longleftrightarrow> b < a"
  by (auto simp: strcmp_def)

lemma strcmp_neg [simp]: "strcmp a b < 0 \<longleftrightarrow> a < b"
  by (auto simp: strcmp_def)

lemma split_on_nonempty [simp]: "split_on d s \<noteq> []"
  by (cases s) (auto split: list.splits)

lemma split_on_no_sep: "t \<in> set (split_on d s) \<Longrightarrow> c \<in> set t \<Longrightarrow> \<not> d c"
proof (induction s arbitrary: t)
  case Nil
  then show ?case by simp
next
  case (Cons x s)
  show ?case
  proof (cases "d x")
    case True
    with Cons show ?thesis by auto
  next
    case False
    obtain u us where "split_on d s = u # us"
      by (cases "split_on d s") simp_all
    with False Cons.prems Cons.IH [of u] Cons.IH [of t] show ?thesis by auto
  qed
qed

lemma split_on_none: "\<forall>c\<in>set s. \<not> d c \<Longrightarrow> split_on d s = [s]"
  by (induction s) auto

lemma split_on_append:
  "\<forall>c\<in>set s. \<not> d c \<Longrightarrow> d x \<Longrightarrow> split_on d (s @ x # r) = s # split_on d r"
  by (induction s) (auto split: list.splits)

lemma split_on_chars: "t \<in> set (split_on d s) \<Longrightarrow> set t \<subseteq> set s"
proof (induction s arbitrary: t)
  case Nil
  then show ?case by simp
next
  case (Cons x s)
  obtain u us where "split_on d s = u # us"
    by (cases "split_on d s") simp_all
  with Cons show ?case by (fastforce split: if_splits)
qed

lemma strtok_all_token: "t \<in> set (strtok_all d s) \<Longrightarrow> t \<noteq> [] \<and> (\<forall>c\<in>set t. \<not> d c) \<and> set t \<subseteq> set s"
  using split_on_no_sep split_on_chars by (fastforce simp: strtok_all_def)

lemma split_on_join:
  assumes "ts \<noteq> []" and "\<forall>t\<in>set ts. \<forall>c\<in>set t. \<not> d c" and "d x"
  shows "split_on d (join_with [x] ts) = ts"
  using assms by (induction "[x]" ts rule: join_with.induct) (auto simp: split_on_none split_on_append)

lemma strtok_all_none: "s \<noteq> [] \<Longrightarrow> \<forall>c\<in>set s. \<not> d c \<Longrightarrow> strtok_all d s = [s]"
  by (simp add: strtok_all_def split_on_none)

lemma strchr_split_Some:
  "strchr_split c s = Some (a, b) \<Longrightarrow> s = a @ c # b \<and> c \<notin> set a"
proof -
  assume h: "strchr_split c s = Some (a, b)"
  then have c: "c \<in> set s" and a: "a = takeWhile (\<lambda>x. x \<noteq> c) s"
    and b: "b = tl (dropWhile (\<lambda>x. x \<noteq> c) s)"
    by (auto simp: strchr_split_def split: if_splits)
  from c have "dropWhile (\<lambda>x. x \<noteq> c) s \<noteq> []" and "hd (dropWhile (\<lambda>x. x \<noteq> c) s) = c"
    by (auto simp: dropWhile_eq_Nil_conv intro: hd_dropWhile)
       (metis (mono_tags, lifting) dropWhile_eq_Nil_conv hd_dropWhile)
  then have "dropWhile (\<lambda>x. x \<noteq> c) s = c # b"
    using b by (metis list.collapse)
  then have "s = a @ c # b"
    using a by (metis takeWhile_dropWhile_id)
  moreover have "c \<notin> set a"
    using a by (auto dest: set_takeWhileD)
  ultimately show ?thesis by simp
qed

lemma strchr_split_length: "strchr_split c s = Some (a, b) \<Longrightarrow> length s = length a + length b + 1"
  by (drule strchr_split_Some) simp

lemma strchr_split_append: "c \<notin> set a \<Longrightarrow> strchr_split c (a @ c # b) = Some (a, b)"
proof -
  assume "c \<notin> set a"
  then have "takeWhile (\<lambda>x. x \<noteq> c) (a @ c # b) = a" "dropWhile (\<lambda>x. x \<noteq> c) (a @ c # b) = c # b"
    by (induction a) auto
  then show ?thesis by (simp add: strchr_split_def)
qed

lemma strchr_split_None [simp]: "strchr_split c s = None \<longleftrightarrow> c \<notin> set s"
  by (simp add: strchr_split_def)

lemma strchr_split_absent [simp]: "c \<notin> set s \<Longrightarrow> strchr_split c s = None"
  by simp

section \<open>Numbers in text\<close>

text \<open>\<open>%lu\<close>, \<open>%u\<close> and \<open>%d\<close>: decimal digits without leading zeros.\<close>

definition digit_char :: "nat \<Rightarrow> char" where
  "digit_char d = char_of (48 + d)"

fun show_nat :: "nat \<Rightarrow> cstring" where
  "show_nat n = (if n < 10 then [digit_char n] else show_nat (n div 10) @ [digit_char (n mod 10)])"

declare show_nat.simps [simp del]

definition show_int :: "int \<Rightarrow> cstring" where
  "show_int i = (if i < 0 then CHR ''-'' # show_nat (nat (- i)) else show_nat (nat i))"

definition digits_val :: "cstring \<Rightarrow> nat" where
  "digits_val = foldl (\<lambda>v c. 10 * v + (code c - 48)) 0"

text \<open>
  \<open>strtol\<close> and \<open>strtoul\<close> in base 10: white space, one sign, digits. The value is returned before
  it is stored in a narrower type, together with the text that follows the number; without digits
  the value is 0 and the text is returned whole.
\<close>

definition strtol10 :: "cstring \<Rightarrow> int \<times> cstring" where
  "strtol10 s =
     (let t = dropWhile isspace s;
          neg = (t \<noteq> [] \<and> hd t = CHR ''-'');
          u = (if t \<noteq> [] \<and> (hd t = CHR ''-'' \<or> hd t = CHR ''+'') then tl t else t);
          ds = takeWhile isdigit u
      in if ds = [] then (0, s)
         else ((if neg then - int (digits_val ds) else int (digits_val ds)), dropWhile isdigit u))"

text \<open>A conversion to \<open>uid_t\<close> or \<open>gid_t\<close> (32 bits, unsigned) and to \<open>int\<close> (32 bits, signed).\<close>

definition to_u32 :: "int \<Rightarrow> nat" where
  "to_u32 i = nat (i mod 2 ^ 32)"

definition to_i32 :: "int \<Rightarrow> int" where
  "to_i32 i = (i + 2 ^ 31) mod 2 ^ 32 - 2 ^ 31"

lemma code_digit_char: "d < 10 \<Longrightarrow> code (digit_char d) = 48 + d"
  by (simp add: code_def digit_char_def)

lemma isdigit_digit_char: "d < 10 \<Longrightarrow> isdigit (digit_char d)"
  by (simp add: isdigit_def code_digit_char)

lemma show_nat_digits: "\<forall>c\<in>set (show_nat n). isdigit c"
proof (induction n rule: show_nat.induct)
  case (1 n)
  then show ?case
    by (subst show_nat.simps) (auto simp: isdigit_digit_char)
qed

lemma show_nat_not_Nil [simp]: "show_nat n \<noteq> []"
  by (subst show_nat.simps) simp

lemma digits_val_show_nat [simp]: "digits_val (show_nat n) = n"
proof (induction n rule: show_nat.induct)
  case (1 n)
  show ?case
  proof (cases "n < 10")
    case True
    then show ?thesis
      by (subst show_nat.simps) (simp add: digits_val_def code_digit_char)
  next
    case False
    with 1 have "digits_val (show_nat (n div 10)) = n div 10" by simp
    with False show ?thesis
      by (subst show_nat.simps) (simp add: digits_val_def code_digit_char)
  qed
qed

lemma digit_not_space: "isdigit c \<Longrightarrow> \<not> isspace c"
  by (auto simp: char_class_defs)

lemma digit_not_sign: "isdigit c \<Longrightarrow> c \<noteq> CHR ''-'' \<and> c \<noteq> CHR ''+''"
  by (auto simp: char_class_defs)

lemma takeWhile_all_append: "\<forall>c\<in>set a. P c \<Longrightarrow> r = [] \<or> \<not> P (hd r) \<Longrightarrow> takeWhile P (a @ r) = a"
  by (induction a) (auto simp: takeWhile_eq_Nil_iff)

lemma dropWhile_all_append: "\<forall>c\<in>set a. P c \<Longrightarrow> r = [] \<or> \<not> P (hd r) \<Longrightarrow> dropWhile P (a @ r) = r"
  by (induction a) (auto, cases r, auto)

lemma strtol10_show_nat:
  assumes "r = [] \<or> \<not> isdigit (hd r)"
  shows "strtol10 (show_nat n @ r) = (int n, r)"
proof -
  define X where "X = show_nat n @ r"
  obtain c s where s: "show_nat n = c # s" by (cases "show_nat n") simp_all
  have c: "isdigit c" using show_nat_digits [of n] s by simp
  have X: "X = c # s @ r" "X \<noteq> []" "hd X = c" by (simp_all add: X_def s)
  then have "dropWhile isspace X = X"
    using digit_not_space [OF c] by simp
  moreover have "takeWhile isdigit X = show_nat n" "dropWhile isdigit X = r"
    using takeWhile_all_append [OF show_nat_digits assms] dropWhile_all_append [OF show_nat_digits assms]
    by (simp_all add: X_def)
  ultimately have "strtol10 X = (int n, r)"
    using digit_not_sign [OF c] X(2,3) by (simp add: strtol10_def Let_def)
  then show ?thesis by (simp add: X_def)
qed

section \<open>Files read with getline\<close>

text \<open>
  \<open>getline\<close> returns the next line with its newline. A text is the list of its lines; the last one
  has no newline when the file does not end with one, and \<open>feof\<close> is then set by that same call.
\<close>

fun file_lines :: "cstring \<Rightarrow> cstring list" where
  "file_lines [] = []"
| "file_lines (c # s) =
     (if c = NL then [c] # file_lines s
      else (case file_lines s of [] \<Rightarrow> [[c]] | l # ls \<Rightarrow> (c # l) # ls))"

definition ends_with_nl :: "cstring \<Rightarrow> bool" where
  "ends_with_nl s \<longleftrightarrow> s \<noteq> [] \<and> last s = NL"

lemma concat_file_lines [simp]: "concat (file_lines s) = s"
  by (induction s) (auto split: list.splits)

lemma file_lines_Nil_iff [simp]: "file_lines s = [] \<longleftrightarrow> s = []"
  by (cases s) (auto split: list.splits)

lemma file_lines_append_nl: "NL \<notin> set l \<Longrightarrow> file_lines (l @ NL # s) = (l @ [NL]) # file_lines s"
  by (induction l) auto

lemma file_lines_concat:
  "\<forall>l\<in>set ls. NL \<notin> set l \<Longrightarrow> file_lines (concat (map (\<lambda>l. l @ [NL]) ls)) = map (\<lambda>l. l @ [NL]) ls"
  by (induction ls) (auto simp: file_lines_append_nl)

section \<open>Lists\<close>

lemma sorted_wrt_snoc: "sorted_wrt P (xs @ [x]) \<longleftrightarrow> sorted_wrt P xs \<and> (\<forall>y\<in>set xs. P y x)"
  by (auto simp: sorted_wrt_append)

lemma takeWhile_dropWhile_set: "x \<in> set s \<Longrightarrow> x \<in> set (takeWhile P s) \<or> x \<in> set (dropWhile P s)"
  by (metis Un_iff set_append takeWhile_dropWhile_id)

lemma set_filter_subset: "set (filter P xs) \<subseteq> set xs"
  by auto

end
