(* ===== verification/Utility.thy ===== *)
theory Utility
  imports Prelude
begin

text \<open>
  src/src/utility.c: the string routines that every other file uses. Trimming, the filter for
  user supplied paths, path normalisation and comparison, JSON arrays, argument arrays, growing
  string arrays and growing string buffers, and the line oriented configuration reader.

  \<open>outcome\<close> separates a returned value from an \<open>abort()\<close> and from an access outside an
  allocated block.
\<close>

datatype 'a outcome = Ret 'a | Abort | OutOfBounds

section \<open>Trimming and filtering\<close>

text \<open>The tail loop stops at index 0, which holds a character that is not white space.\<close>

definition shifter_trim :: "cstring \<Rightarrow> cstring" where
  "shifter_trim str =
     (let ptr = dropWhile isspace str
      in if ptr = [] then [] else hd ptr # rev (dropWhile isspace (rev (tl ptr))))"

definition path_char_ok :: "bool \<Rightarrow> char \<Rightarrow> bool" where
  "path_char_ok allowSlash c \<longleftrightarrow>
     isalnum c \<or> c = CHR ''_'' \<or> c = CHR '':'' \<or> c = CHR ''.'' \<or> c = CHR ''+'' \<or> c = CHR ''-'' \<or>
     (allowSlash \<and> c = CHR ''/'')"

definition userInputPathFilter :: "cstring option \<Rightarrow> bool \<Rightarrow> cstring option" where
  "userInputPathFilter input allowSlash = map_option (filter (path_char_ok allowSlash)) input"

section \<open>Path normalisation\<close>

text \<open>\<open>lastWrite\<close> is the character written last, none before the first write.\<close>

fun cleanPath_loop :: "char option \<Rightarrow> cstring \<Rightarrow> cstring" where
  "cleanPath_loop lastWrite [] = []"
| "cleanPath_loop lastWrite (c # rest) =
     (if c = CHR ''/'' \<and> lastWrite = Some (CHR ''/'') then cleanPath_loop lastWrite rest
      else c # cleanPath_loop (Some c) rest)"

definition cleanPath :: "cstring \<Rightarrow> cstring" where
  "cleanPath path =
     (let w = cleanPath_loop None path
      in if 1 < length w \<and> last w = CHR ''/'' then butlast w else w)"

definition pathcmp :: "cstring option \<Rightarrow> cstring option \<Rightarrow> int" where
  "pathcmp a b =
     (case (a, b) of
        (Some x, None) \<Rightarrow> 1
      | (None, Some y) \<Rightarrow> -1
      | (None, None) \<Rightarrow> 0
      | (Some x, Some y) \<Rightarrow> strcmp (cleanPath x) (cleanPath y))"

section \<open>JSON arrays as the image metadata writes them\<close>

definition is_json_array :: "cstring \<Rightarrow> bool" where
  "is_json_array value \<longleftrightarrow> prefix (''[u'' @ [QUOTE]) value \<or> prefix (''['' @ [QUOTE]) value"

text \<open>The first scan: a quote toggles \<open>in\<close>; the number of closed strings is counted.\<close>

fun json_scan :: "bool \<Rightarrow> nat \<Rightarrow> cstring \<Rightarrow> bool \<times> nat" where
  "json_scan inn cnt [] = (inn, cnt)"
| "json_scan inn cnt (c # s) =
     (if c \<noteq> QUOTE then json_scan inn cnt s
      else if inn then json_scan False (Suc cnt) s else json_scan True cnt s)"

text \<open>The second scan copies each quoted string; \<open>acc\<close> holds the characters since \<open>start\<close>.\<close>

fun json_copy :: "bool \<Rightarrow> cstring \<Rightarrow> cstring \<Rightarrow> cstring list" where
  "json_copy inn acc [] = []"
| "json_copy inn acc (c # s) =
     (if c \<noteq> QUOTE then json_copy inn (acc @ [c]) s
      else if inn then acc # json_copy False acc s else json_copy True [] s)"

definition split_json_array :: "cstring \<Rightarrow> cstring list option" where
  "split_json_array value =
     (let vlen = length value; body = take (vlen - 2) (drop 1 value)
      in if \<not> is_json_array value then None
         else if fst (json_scan False 0 body) then None
         else if value ! (vlen - 1) \<noteq> CHR '']'' then None
         else Some (json_copy False [] body))"

section \<open>Argument arrays\<close>

definition count_args :: "cstring list option \<Rightarrow> nat" where
  "count_args args = (case args of None \<Rightarrow> 0 | Some as \<Rightarrow> min (length as) 1000)"

text \<open>
  The block has \<open>nArgs\<close> slots, from the capped counts; the copy loops run to the NULL of each
  source, and every store is checked against the block here.
\<close>

definition merge_args ::
  "cstring list option \<Rightarrow> cstring list option \<Rightarrow> cstring list option outcome" where
  "merge_args args1 args2 =
     (let nArgs = count_args args1 + count_args args2 + 1;
          copied = (case args1 of None \<Rightarrow> [] | Some as \<Rightarrow> as) @ (case args2 of None \<Rightarrow> [] | Some as \<Rightarrow> as)
      in if nArgs = 1 then Ret None
         else if length copied + 1 \<le> nArgs then Ret (Some copied)
         else OutOfBounds)"

definition make_string_array :: "cstring \<Rightarrow> cstring list" where
  "make_string_array value = [value]"

definition dup_string_array :: "cstring list option \<Rightarrow> cstring list outcome" where
  "dup_string_array arr =
     (let sz = min (case arr of None \<Rightarrow> 0 | Some as \<Rightarrow> length as) 10000
      in if sz = 10000 then Abort else Ret (case arr of None \<Rightarrow> [] | Some as \<Rightarrow> as))"

section \<open>Growing arrays and buffers\<close>

text \<open>
  A NULL terminated string array, the slots its block has and the write position. The entries in
  front of the write position are kept; a successful append ends the array there.
\<close>

record string_array =
  sa_items :: "cstring list"
  sa_capacity :: nat

definition sa_empty :: string_array where
  "sa_empty = \<lparr>sa_items = [], sa_capacity = 0\<rparr>"

function grow_capacity :: "nat \<Rightarrow> nat \<Rightarrow> nat \<Rightarrow> nat" where
  "grow_capacity capacity used block =
     (if capacity - used < 2 \<and> 0 < block then grow_capacity (capacity + block) used block
      else capacity)"
  by pat_completeness auto
termination
  by (relation "measure (\<lambda>(capacity, used, block). used + 2 - capacity)") auto

declare grow_capacity.simps [simp del]

text \<open>
  \<open>wpos\<close> is \<open>*wptr - *array\<close>; the result is the status, the array and the new write position.
  An \<open>n\<close> above \<open>strlen(str)\<close> copies bytes behind the terminator, which the C string does not show.
\<close>

definition strncpy_StringArray ::
  "cstring option \<Rightarrow> nat \<Rightarrow> nat \<Rightarrow> string_array \<Rightarrow> nat \<Rightarrow> int \<times> string_array \<times> nat" where
  "strncpy_StringArray str n wpos arr block =
     (case str of
        None \<Rightarrow> (1, arr, wpos)
      | Some s \<Rightarrow>
          if block = 0 \<or> sa_capacity arr < wpos then (1, arr, wpos)
          else if n = 2 ^ 64 - 1 then (1, arr, wpos)
          else (0, \<lparr>sa_items = take wpos (sa_items arr) @ [take n s],
                    sa_capacity = grow_capacity (sa_capacity arr) wpos block\<rparr>, wpos + 1))"

text \<open>A string buffer: its block (None before the first allocation), used length and capacity.\<close>

record strbuf =
  sb_text :: "cstring option"
  sb_len :: nat
  sb_cap :: nat

definition sb_null :: strbuf where
  "sb_null = \<lparr>sb_text = None, sb_len = 0, sb_cap = 0\<rparr>"

text \<open>
  The loop of \<open>alloc_strcatf\<close> for a formatted text of \<open>n\<close> bytes: \<open>vsnprintf\<close> is tried with the free
  part of the block, and the block is enlarged until the text and its terminator fit. A fresh
  block of 128 bytes behind a used length above 128 makes the free part wrap around.
\<close>

function strcatf_cap :: "nat \<Rightarrow> nat \<Rightarrow> nat \<Rightarrow> nat" where
  "strcatf_cap len n cap =
     (if cap - len \<le> n then strcatf_cap len n (max (cap * 2 + 1) (n + 1)) else cap)"
  by pat_completeness auto
termination
  by (relation "measure (\<lambda>(len, n, cap). len + n + 1 - cap)") auto

declare strcatf_cap.simps [simp del]

definition alloc_strcatf :: "strbuf \<Rightarrow> cstring \<Rightarrow> strbuf option outcome" where
  "alloc_strcatf sb formatted =
     (if sb_cap sb < sb_len sb then Ret None
      else
        let fresh = (sb_text sb = None \<or> sb_cap sb = 0);
            cap = (if fresh then 128 else sb_cap sb);
            old = (if fresh then [] else the (sb_text sb))
        in if cap < sb_len sb then OutOfBounds
           else Ret (Some \<lparr>sb_text = Some (take (sb_len sb) old @ formatted),
                            sb_len = sb_len sb + length formatted,
                            sb_cap = strcatf_cap (sb_len sb) (length formatted) cap\<rparr>))"

definition alloc_strgenf :: "cstring \<Rightarrow> cstring" where
  "alloc_strgenf formatted = formatted"

section \<open>The configuration reader\<close>

text \<open>
  \<open>shifter_parseConfig\<close> as a machine over the lines of the file. \<open>ps_buf\<close> is the C string that a
  line leaves in \<open>linePtr\<close>: the code cuts the line at the delimiter and trims in place. The loop
  compares the unsigned \<open>nRead\<close> with 0, so when \<open>getline\<close> fails at the end of the file the body
  runs once more on what the buffer then holds. C libraries differ in that content (kept, or
  replaced by an empty string), so it is the function \<open>eofbuf\<close> of the text kept in the buffer.
\<close>

record 'o parse_state =
  ps_multi :: bool
  ps_key :: cstring
  ps_value :: "cstring option"
  ps_obj :: 'o
  ps_buf :: cstring

definition parse_value ::
  "(cstring \<Rightarrow> cstring \<Rightarrow> 'o \<Rightarrow> int \<times> 'o) \<Rightarrow> cstring \<Rightarrow> 'o parse_state \<Rightarrow> int \<times> 'o parse_state" where
  "parse_value assign tValue st =
     (let more = (tValue \<noteq> [] \<and> last tValue = BSLASH);
          tv = (if more then shifter_trim (butlast tValue) else tValue);
          v = (case ps_value st of None \<Rightarrow> tv | Some v0 \<Rightarrow> v0 @ '' '' @ tv)
      in if more then (0, st\<lparr>ps_multi := True, ps_value := Some v\<rparr>)
         else let (ret, obj') = assign (ps_key st) (shifter_trim v) (ps_obj st)
              in if ret \<noteq> 0 then (ret, st\<lparr>ps_multi := False, ps_value := Some v, ps_obj := obj'\<rparr>)
                 else (0, st\<lparr>ps_multi := False, ps_value := None, ps_key := [], ps_obj := obj'\<rparr>))"

definition cut_backslash :: "cstring \<Rightarrow> cstring" where
  "cut_backslash tValue =
     (if tValue \<noteq> [] \<and> last tValue = BSLASH then shifter_trim (butlast tValue) else tValue)"

definition trim_in_place :: "cstring \<Rightarrow> cstring" where
  "trim_in_place l =
     (if shifter_trim l = [] then l else takeWhile isspace l @ cut_backslash (shifter_trim l))"

definition parse_line ::
  "char \<Rightarrow> (cstring \<Rightarrow> cstring \<Rightarrow> 'o \<Rightarrow> int \<times> 'o) \<Rightarrow> cstring \<Rightarrow> 'o parse_state \<Rightarrow>
   int \<times> 'o parse_state" where
  "parse_line delim assign l st =
     (if l \<noteq> [] \<and> hd l = CHR ''#'' then (0, st\<lparr>ps_buf := l\<rparr>)
      else if ps_multi st then
        parse_value assign (shifter_trim l) (st\<lparr>ps_multi := False, ps_buf := trim_in_place l\<rparr>)
      else
        (case strchr_split delim l of
           None \<Rightarrow> (0, st\<lparr>ps_buf := l\<rparr>)
         | Some (k, v) \<Rightarrow>
             parse_value assign (shifter_trim v) (st\<lparr>ps_key := shifter_trim k, ps_buf := k\<rparr>)))"

fun parse_lines ::
  "char \<Rightarrow> (cstring \<Rightarrow> cstring \<Rightarrow> 'o \<Rightarrow> int \<times> 'o) \<Rightarrow> cstring list \<Rightarrow> 'o parse_state \<Rightarrow>
   int \<times> 'o parse_state" where
  "parse_lines delim assign [] st = (0, st)"
| "parse_lines delim assign (l # ls) st =
     (let (ret, st') = parse_line delim assign l st
      in if ret \<noteq> 0 then (ret, st') else parse_lines delim assign ls st')"

definition parse_init :: "'o \<Rightarrow> 'o parse_state" where
  "parse_init obj = \<lparr>ps_multi = False, ps_key = [], ps_value = None, ps_obj = obj, ps_buf = []\<rparr>"

text \<open>\<open>contents\<close> is None when \<open>fopen\<close> fails.\<close>

definition shifter_parseConfig ::
  "(cstring \<Rightarrow> cstring) \<Rightarrow> cstring option \<Rightarrow> char \<Rightarrow> 'o \<Rightarrow>
   (cstring \<Rightarrow> cstring \<Rightarrow> 'o \<Rightarrow> int \<times> 'o) \<Rightarrow> int \<times> 'o" where
  "shifter_parseConfig eofbuf contents delim obj assign =
     (case contents of
        None \<Rightarrow> (1, obj)
      | Some text \<Rightarrow>
          let (ret, st) = parse_lines delim assign (file_lines text) (parse_init obj)
          in if ret \<noteq> 0 then (ret, ps_obj st)
             else if text = [] \<or> ends_with_nl text then
               (let (ret', st') = parse_line delim assign (eofbuf (ps_buf st)) st
                in (ret', ps_obj st'))
             else (0, ps_obj st))"

section \<open>Facts about trimming and filtering\<close>

definition trimmed :: "cstring \<Rightarrow> bool" where
  "trimmed s \<longleftrightarrow> (s = [] \<or> (\<not> isspace (hd s) \<and> \<not> isspace (last s)))"

lemma dropWhile_hd_not: "dropWhile P s \<noteq> [] \<Longrightarrow> \<not> P (hd (dropWhile P s))"
  by (induction s) auto

lemma trim_tail_last: "\<not> P h \<Longrightarrow> \<not> P (last (h # rev (dropWhile P t)))"
  by (cases "dropWhile P t") (use dropWhile_hd_not [of P t] in auto)

lemma trimmed_shifter_trim [simp, intro]: "trimmed (shifter_trim s)"
proof (cases "dropWhile isspace s = []")
  case True
  then show ?thesis by (simp add: shifter_trim_def trimmed_def)
next
  case False
  then have h: "\<not> isspace (hd (dropWhile isspace s))" by (rule dropWhile_hd_not)
  from trim_tail_last [where P = isspace, OF h, of "rev (tl (dropWhile isspace s))"] h False
  show ?thesis by (simp add: shifter_trim_def trimmed_def Let_def)
qed

lemma shifter_trim_id [simp]: "trimmed s \<Longrightarrow> shifter_trim s = s"
proof (cases s)
  case Nil
  then show ?thesis by (simp add: shifter_trim_def)
next
  case (Cons c t)
  assume tr: "trimmed s"
  with Cons have h: "dropWhile isspace s = s" by (simp add: trimmed_def)
  show ?thesis
  proof (cases "t = []")
    case True
    with Cons h show ?thesis by (simp add: shifter_trim_def)
  next
    case False
    with tr Cons have "\<not> isspace (hd (rev t))" by (simp add: trimmed_def hd_rev)
    with False have "dropWhile isspace (rev t) = rev t"
      by (cases "rev t") auto
    with Cons h show ?thesis by (simp add: shifter_trim_def)
  qed
qed

lemma shifter_trim_idem: "shifter_trim (shifter_trim s) = shifter_trim s"
  by simp

lemma dropWhile_append_all: "\<forall>c\<in>set w. P c \<Longrightarrow> dropWhile P (w @ s) = dropWhile P s"
  by (induction w) auto

text \<open>Trimming removes exactly the white space around a trimmed text.\<close>

lemma shifter_trim_pad:
  assumes "\<forall>c\<in>set a. isspace c" "\<forall>c\<in>set b. isspace c" "trimmed s"
  shows "shifter_trim (a @ s @ b) = s"
proof (cases s)
  case Nil
  have "dropWhile isspace (a @ b) = []" using assms(1,2) by (simp add: dropWhile_append_all)
  with Nil show ?thesis by (simp add: shifter_trim_def)
next
  case (Cons c t)
  with assms(3) have c: "\<not> isspace c" by (simp add: trimmed_def)
  have d: "dropWhile isspace (a @ s @ b) = c # t @ b"
    using assms(1) c Cons by (simp add: dropWhile_append_all)
  have "dropWhile isspace (rev (t @ b)) = dropWhile isspace (rev t)"
    using assms(2) by (simp add: dropWhile_append_all)
  moreover have "dropWhile isspace (rev t) = rev t"
    using shifter_trim_id [OF assms(3)] Cons c by (simp add: shifter_trim_def rev_swap [symmetric])
  ultimately show ?thesis using d Cons by (simp add: shifter_trim_def)
qed

lemma shifter_trim_chars: "set (shifter_trim s) \<subseteq> set s"
proof (cases "dropWhile isspace s")
  case Nil
  then show ?thesis by (simp add: shifter_trim_def)
next
  case (Cons c t)
  then have "set (c # t) \<subseteq> set s" by (metis set_dropWhileD subsetI)
  then show ?thesis using Cons
    by (auto simp: shifter_trim_def dest!: set_dropWhileD)
qed

lemma userInputPathFilter_idem:
  "userInputPathFilter (userInputPathFilter x b) b = userInputPathFilter x b"
  by (cases x) (simp_all add: userInputPathFilter_def)

lemma userInputPathFilter_Some:
  "userInputPathFilter x b = Some y \<longleftrightarrow> (\<exists>s. x = Some s \<and> y = filter (path_char_ok b) s)"
  by (cases x) (auto simp: userInputPathFilter_def)

lemma path_char_no_sep:
  "path_char_ok b c \<Longrightarrow> c \<noteq> CHR '';'' \<and> c \<noteq> DQUOTE \<and> c \<noteq> CHR '','' \<and> c \<noteq> CHR ''='' \<and> c \<noteq> NL
     \<and> c \<noteq> BSLASH \<and> \<not> isspace c"
  by (auto simp: path_char_ok_def char_class_defs special_char_defs)

section \<open>Facts about path normalisation\<close>

definition no_double_slash :: "cstring \<Rightarrow> bool" where
  "no_double_slash s \<longleftrightarrow> \<not> sublist ''//'' s"

lemma no_double_slash_simps [simp]:
  "no_double_slash []"
  "no_double_slash [c]"
  "no_double_slash (c # d # s) \<longleftrightarrow> \<not> (c = CHR ''/'' \<and> d = CHR ''/'') \<and> no_double_slash (d # s)"
  by (auto simp: no_double_slash_def sublist_Cons_right)

lemma no_double_slash_tl: "no_double_slash (c # s) \<Longrightarrow> no_double_slash s"
  by (cases s) auto

lemma cleanPath_loop_clean:
  "no_double_slash (cleanPath_loop l s) \<and>
   (l = Some (CHR ''/'') \<longrightarrow> cleanPath_loop l s = [] \<or> hd (cleanPath_loop l s) \<noteq> CHR ''/'')"
proof (induction l s rule: cleanPath_loop.induct)
  case (1 l)
  then show ?case by simp
next
  case (2 l c s)
  show ?case
  proof (cases "c = CHR ''/'' \<and> l = Some (CHR ''/'')")
    case True
    with 2 show ?thesis by simp
  next
    case False
    with 2 show ?thesis by (cases "cleanPath_loop (Some c) s") auto
  qed
qed

lemma cleanPath_loop_id:
  "no_double_slash s \<Longrightarrow> l = Some (CHR ''/'') \<longrightarrow> s = [] \<or> hd s \<noteq> CHR ''/'' \<Longrightarrow>
   cleanPath_loop l s = s"
proof (induction l s rule: cleanPath_loop.induct)
  case (2 l c s)
  then show ?case by (cases s) (auto dest: no_double_slash_tl)
qed simp

lemma no_double_slash_butlast: "no_double_slash s \<Longrightarrow> no_double_slash (butlast s)"
  unfolding no_double_slash_def using sublist_butlast sublist_order.order_trans by blast

definition clean_path :: "cstring \<Rightarrow> bool" where
  "clean_path s \<longleftrightarrow> no_double_slash s \<and> (length s \<le> 1 \<or> last s \<noteq> CHR ''/'')"

lemma no_double_slash_last2:
  "no_double_slash s \<Longrightarrow> 1 < length s \<Longrightarrow> last s = CHR ''/'' \<Longrightarrow> last (butlast s) \<noteq> CHR ''/''"
proof (induction s)
  case (Cons c s)
  then show ?case by (cases s; cases "tl s") (auto dest: no_double_slash_tl split: if_splits)
qed simp

lemma clean_path_cleanPath: "clean_path (cleanPath s)"
  using cleanPath_loop_clean [of None s] no_double_slash_last2 no_double_slash_butlast
  by (auto simp: cleanPath_def clean_path_def Let_def)

lemma cleanPath_id: "clean_path s \<Longrightarrow> cleanPath s = s"
  by (auto simp: cleanPath_def clean_path_def cleanPath_loop_id)

lemma cleanPath_idem: "cleanPath (cleanPath s) = cleanPath s"
  by (simp add: cleanPath_id clean_path_cleanPath)

lemma pathcmp_zero:
  "pathcmp a b = 0 \<longleftrightarrow> map_option cleanPath a = map_option cleanPath b"
  by (cases a; cases b) (auto simp: pathcmp_def)

section \<open>Facts about JSON arrays\<close>

text \<open>The text of a list of strings as the image gateway writes it, with or without \<open>u\<close> marks.\<close>

definition json_item :: "bool \<Rightarrow> cstring \<Rightarrow> cstring" where
  "json_item u t = (if u then ''u'' else []) @ QUOTE # t @ [QUOTE]"

definition json_array_text :: "bool \<Rightarrow> cstring list \<Rightarrow> cstring" where
  "json_array_text u ts = ''['' @ join_with '', '' (map (json_item u) ts) @ '']''"

lemma json_scan_inner: "QUOTE \<notin> set t \<Longrightarrow> json_scan inn n (t @ s) = json_scan inn n s"
  by (induction t) auto

lemma json_copy_inner: "QUOTE \<notin> set t \<Longrightarrow> json_copy inn acc (t @ s) = json_copy inn (acc @ t) s"
  by (induction t arbitrary: acc) auto

lemma json_scan_string:
  "QUOTE \<notin> set p \<Longrightarrow> QUOTE \<notin> set t \<Longrightarrow>
   json_scan False n (p @ QUOTE # t @ QUOTE # s) = json_scan False (Suc n) s"
  by (simp add: json_scan_inner)

lemma json_copy_string:
  "QUOTE \<notin> set p \<Longrightarrow> QUOTE \<notin> set t \<Longrightarrow>
   \<exists>acc'. json_copy False acc (p @ QUOTE # t @ QUOTE # s) = t # json_copy False acc' s"
  by (auto simp: json_copy_inner)

lemma json_copy_acc:
  "json_copy False acc s = json_copy False acc' s"
proof (induction s arbitrary: acc acc')
  case Nil
  then show ?case by simp
next
  case (Cons c s)
  then show ?case by (cases "c = QUOTE") auto
qed

lemma json_body:
  assumes "\<forall>t\<in>set ts. QUOTE \<notin> set t"
  shows "json_scan False n (join_with '', '' (map (json_item u) ts)) = (False, n + length ts)
    \<and> json_copy False acc (join_with '', '' (map (json_item u) ts)) = ts"
  using assms
proof (induction ts arbitrary: n acc)
  case Nil
  then show ?case by simp
next
  case (Cons t ts)
  define p where "p = (if u then ''u'' else [])"
  have p: "QUOTE \<notin> set p" by (simp add: p_def QUOTE_def)
  have item: "json_item u t = p @ QUOTE # t @ [QUOTE]" by (simp add: json_item_def p_def)
  have t: "QUOTE \<notin> set t" using Cons.prems by simp
  define r where "r = (if ts = [] then [] else '', '' @ join_with '', '' (map (json_item u) ts))"
  have body: "join_with '', '' (map (json_item u) (t # ts)) = p @ QUOTE # t @ QUOTE # r"
    by (cases ts) (simp_all add: item r_def)
  have comma: "QUOTE \<notin> set '', ''" by (simp add: QUOTE_def)
  have IH: "json_scan False (Suc n) r = (False, Suc n + length ts)" "json_copy False acc' r = ts" for acc'
    using Cons json_scan_inner [OF comma] json_copy_inner [OF comma] by (auto simp: r_def)
  obtain acc' where "json_copy False acc (p @ QUOTE # t @ QUOTE # r) = t # json_copy False acc' r"
    using json_copy_string [OF p t] by blast
  then show ?case
    using IH json_scan_string [OF p t, of n r] by (simp only: body) simp
qed

lemma split_json_array_text:
  assumes "ts \<noteq> []" "\<forall>t\<in>set ts. QUOTE \<notin> set t"
  shows "split_json_array (json_array_text u ts) = Some ts"
proof -
  define b where "b = join_with '', '' (map (json_item u) ts)"
  obtain t ts' where ts: "ts = t # ts'" using assms(1) by (cases ts) auto
  have "prefix (json_item u t) b"
    unfolding b_def ts by (cases ts') auto
  then have "is_json_array (json_array_text u ts)"
    by (auto simp: is_json_array_def json_array_text_def b_def [symmetric] json_item_def prefix_def
        split: if_splits)
  moreover have "take (length (json_array_text u ts) - 2) (drop 1 (json_array_text u ts)) = b"
    by (simp add: json_array_text_def b_def)
  moreover have "json_array_text u ts ! (length (json_array_text u ts) - 1) = CHR '']''"
    by (simp add: json_array_text_def nth_append)
  ultimately show ?thesis
    using json_body [OF assms(2), of 0 u "[]"]
    by (simp add: split_json_array_def Let_def b_def [symmetric])
qed

section \<open>Facts about arrays and buffers\<close>

lemma merge_args_result:
  "merge_args a b =
     (let as = (case a of None \<Rightarrow> [] | Some x \<Rightarrow> x); bs = (case b of None \<Rightarrow> [] | Some x \<Rightarrow> x)
      in if as = [] \<and> bs = [] then Ret None
         else if length as \<le> 1000 \<and> length bs \<le> 1000 then Ret (Some (as @ bs))
         else OutOfBounds)"
  by (cases a; cases b) (auto simp: merge_args_def count_args_def Let_def)

lemma dup_string_array_result:
  "dup_string_array a =
     (if length (case a of None \<Rightarrow> [] | Some x \<Rightarrow> x) < 10000
      then Ret (case a of None \<Rightarrow> [] | Some x \<Rightarrow> x) else Abort)"
  by (cases a) (auto simp: dup_string_array_def Let_def min_def)

lemma grow_capacity_ge:
  assumes "used \<le> capacity" "0 < block"
  shows "used + 2 \<le> grow_capacity capacity used block"
  using assms
proof (induction capacity used block rule: grow_capacity.induct)
  case (1 capacity used block)
  then show ?case
    by (cases "capacity - used < 2") (simp_all add: grow_capacity.simps [of capacity])
qed

definition sa_wf :: "string_array \<Rightarrow> bool" where
  "sa_wf arr \<longleftrightarrow> sa_items arr = [] \<and> sa_capacity arr = 0 \<or> length (sa_items arr) < sa_capacity arr"

text \<open>An append at the end of a well formed array: the block has a slot for the new entry and NULL.\<close>

lemma strncpy_StringArray_append:
  assumes "sa_wf arr" "0 < block" "length s < 2 ^ 64 - 1"
  shows "\<exists>arr'. strncpy_StringArray (Some s) (length s) (length (sa_items arr)) arr block
            = (0, arr', Suc (length (sa_items arr)))
          \<and> sa_items arr' = sa_items arr @ [s] \<and> sa_wf arr'"
proof -
  have le: "length (sa_items arr) \<le> sa_capacity arr" using assms(1) by (auto simp: sa_wf_def)
  with grow_capacity_ge [OF le assms(2)] assms(2,3) show ?thesis
    by (simp add: strncpy_StringArray_def sa_wf_def)
qed

lemma strcatf_cap_gt: "len \<le> cap \<Longrightarrow> len + n < strcatf_cap len n cap"
proof (induction len n cap rule: strcatf_cap.induct)
  case (1 len n cap)
  show ?case
  proof (cases "cap - len \<le> n")
    case True
    have "len + n < strcatf_cap len n (max (cap * 2 + 1) (n + 1))"
      by (rule "1.IH") (use True "1.prems" in auto)
    with True show ?thesis by (simp add: strcatf_cap.simps [of len n cap])
  next
    case False
    then show ?thesis by (simp add: strcatf_cap.simps [of len n cap])
  qed
qed

definition sb_wf :: "strbuf \<Rightarrow> bool" where
  "sb_wf sb \<longleftrightarrow>
     (case sb_text sb of None \<Rightarrow> sb_len sb = 0
      | Some t \<Rightarrow> sb_len sb = length t \<and> sb_len sb < sb_cap sb)"

definition sb_string :: "strbuf \<Rightarrow> cstring" where
  "sb_string sb = (case sb_text sb of None \<Rightarrow> [] | Some t \<Rightarrow> t)"

text \<open>Appending to a well formed buffer never writes outside it and never truncates.\<close>

lemma alloc_strcatf_append:
  assumes "sb_wf sb"
  shows "\<exists>sb'. alloc_strcatf sb f = Ret (Some sb') \<and> sb_wf sb' \<and> sb_string sb' = sb_string sb @ f"
proof (cases "sb_text sb")
  case None
  with assms strcatf_cap_gt [of 0 128 "length f"] show ?thesis
    by (auto simp: alloc_strcatf_def sb_wf_def sb_string_def)
next
  case (Some t)
  with assms strcatf_cap_gt [of "sb_len sb" "sb_cap sb" "length f"] show ?thesis
    by (auto simp: alloc_strcatf_def sb_wf_def sb_string_def)
qed

text \<open>A sequence of appends, as the callers chain them.\<close>

fun strcatf_all :: "strbuf \<Rightarrow> cstring list \<Rightarrow> strbuf option outcome" where
  "strcatf_all sb [] = Ret (Some sb)"
| "strcatf_all sb (f # fs) =
     (case alloc_strcatf sb f of
        Ret (Some sb') \<Rightarrow> strcatf_all sb' fs
      | r \<Rightarrow> r)"

lemma strcatf_all_append:
  "sb_wf sb \<Longrightarrow> \<exists>sb'. strcatf_all sb fs = Ret (Some sb') \<and> sb_wf sb' \<and> sb_string sb' = sb_string sb @ concat fs"
proof (induction fs arbitrary: sb)
  case Nil
  then show ?case by simp
next
  case (Cons f fs)
  from alloc_strcatf_append [OF Cons.prems, of f] obtain sb1 where
    1: "alloc_strcatf sb f = Ret (Some sb1)" "sb_wf sb1" "sb_string sb1 = sb_string sb @ f" by blast
  from Cons.IH [OF 1(2)] 1 show ?case by auto
qed

lemma sb_wf_null [simp]: "sb_wf sb_null" "sb_string sb_null = []"
  by (simp_all add: sb_wf_def sb_null_def sb_string_def)

section \<open>Facts about the configuration reader\<close>

text \<open>An entry that fits on one line: trimmed key and value, no continuation mark, no comment.\<close>

definition simple_entry :: "char \<Rightarrow> cstring \<times> cstring \<Rightarrow> bool" where
  "simple_entry delim kv \<longleftrightarrow>
     (case kv of (k, v) \<Rightarrow>
        trimmed k \<and> trimmed v \<and> NL \<notin> set k \<and> NL \<notin> set v \<and> delim \<notin> set k \<and>
        (k = [] \<or> hd k \<noteq> CHR ''#'') \<and> (v = [] \<or> last v \<noteq> BSLASH))"

definition entry_line :: "char \<Rightarrow> cstring \<times> cstring \<Rightarrow> cstring" where
  "entry_line delim kv = fst kv @ delim # snd kv @ [NL]"

fun assign_all ::
  "(cstring \<Rightarrow> cstring \<Rightarrow> 'o \<Rightarrow> int \<times> 'o) \<Rightarrow> (cstring \<times> cstring) list \<Rightarrow> 'o \<Rightarrow> int \<times> 'o" where
  "assign_all assign [] obj = (0, obj)"
| "assign_all assign ((k, v) # kvs) obj =
     (let (ret, obj') = assign k v obj
      in if ret \<noteq> 0 then (ret, obj') else assign_all assign kvs obj')"

definition between_entries :: "char \<Rightarrow> 'o parse_state \<Rightarrow> bool" where
  "between_entries delim st \<longleftrightarrow>
     \<not> ps_multi st \<and> ps_value st = None \<and> delim \<notin> set (ps_buf st)"

lemma parse_line_entry:
  assumes "simple_entry delim (k, v)" "between_entries delim st" "delim \<noteq> CHR ''#''"
  shows "parse_line delim assign (entry_line delim (k, v)) st =
    (let (ret, obj') = assign k v (ps_obj st)
     in (ret, if ret \<noteq> 0 then st\<lparr>ps_key := k, ps_buf := k, ps_value := Some v, ps_obj := obj'\<rparr>
              else st\<lparr>ps_key := [], ps_buf := k, ps_obj := obj'\<rparr>))"
proof -
  have nl: "isspace NL" by (simp add: special_char_defs char_class_defs)
  have k: "shifter_trim k = k" "delim \<notin> set k" and v: "trimmed v"
    using assms(1) by (auto simp: simple_entry_def)
  have tv: "shifter_trim (v @ [NL]) = v" using shifter_trim_pad [of "[]" "[NL]" v] nl v by simp
  have nohash: "hd (k @ delim # v @ [NL]) \<noteq> CHR ''#''"
    using assms(1,3) by (cases k) (auto simp: simple_entry_def)
  have nb: "\<not> (v \<noteq> [] \<and> last v = BSLASH)" using assms(1) by (auto simp: simple_entry_def)
  have "ps_multi st = False" "ps_value st = None" using assms(2) by (auto simp: between_entries_def)
  then show ?thesis
    using nohash strchr_split_append [OF k(2), of "v @ [NL]"] k(1) tv nb shifter_trim_id [OF v]
    by (cases st) (auto simp: parse_line_def entry_line_def parse_value_def Let_def split: prod.splits)
qed

lemma parse_lines_entries:
  assumes "\<forall>kv\<in>set kvs. simple_entry delim kv" "between_entries delim st" "delim \<noteq> CHR ''#''"
  shows "\<exists>st'. parse_lines delim assign (map (entry_line delim) kvs) st
              = (fst (assign_all assign kvs (ps_obj st)), st')
          \<and> ps_obj st' = snd (assign_all assign kvs (ps_obj st))
          \<and> (fst (assign_all assign kvs (ps_obj st)) = 0 \<longrightarrow> between_entries delim st')"
  using assms(1,2)
proof (induction kvs arbitrary: st)
  case Nil
  then show ?case by simp
next
  case (Cons kv kvs)
  obtain k v where kv: "kv = (k, v)" by (cases kv)
  obtain ret obj' where r: "assign k v (ps_obj st) = (ret, obj')" by (cases "assign k v (ps_obj st)")
  have e: "simple_entry delim (k, v)" using Cons.prems(1) kv by simp
  note pl = parse_line_entry [OF e Cons.prems(2) assms(3), of assign]
  show ?case
  proof (cases "ret = 0")
    case True
    define st1 where "st1 = st\<lparr>ps_key := [], ps_buf := k, ps_obj := obj'\<rparr>"
    have "between_entries delim st1"
      using Cons.prems(2) e by (auto simp: between_entries_def st1_def simple_entry_def)
    from Cons.IH [OF _ this] Cons.prems(1) show ?thesis
      using pl r True by (simp add: kv st1_def)
  next
    case False
    then show ?thesis using pl r by (simp add: kv)
  qed
qed

text \<open>
  A file of simple entries is read as the sequence of its assignments, whether the C library
  keeps the buffer at the end of the file or clears it.
\<close>

lemma parseConfig_entries:
  assumes "\<forall>kv\<in>set kvs. simple_entry delim kv" "delim \<noteq> CHR ''#''" "delim \<noteq> NL"
    and "eofbuf = (\<lambda>b. b) \<or> eofbuf = (\<lambda>b. [])"
  shows "shifter_parseConfig eofbuf (Some (concat (map (entry_line delim) kvs))) delim obj assign
       = assign_all assign kvs obj"
proof -
  define inp where "inp = concat (map (entry_line delim) kvs)"
  have "\<forall>l\<in>set (map (\<lambda>(k, v). k @ delim # v) kvs). NL \<notin> set l"
    using assms(1,3) by (auto simp: simple_entry_def)
  from file_lines_concat [OF this] have flines: "file_lines inp = map (entry_line delim) kvs"
    by (simp add: inp_def entry_line_def [abs_def] comp_def case_prod_beta)
  have nl: "inp = [] \<or> ends_with_nl inp"
    unfolding inp_def by (cases kvs rule: rev_cases) (auto simp: entry_line_def ends_with_nl_def)
  have init: "between_entries delim (parse_init obj)" "ps_obj (parse_init obj) = obj"
    by (simp_all add: between_entries_def parse_init_def)
  from parse_lines_entries [OF assms(1) init(1) assms(2), of assign] obtain st where
    st: "parse_lines delim assign (file_lines inp) (parse_init obj) = (fst (assign_all assign kvs obj), st)"
      "ps_obj st = snd (assign_all assign kvs obj)"
      "fst (assign_all assign kvs obj) = 0 \<longrightarrow> between_entries delim st"
    using init(2) flines by auto
  have "parse_line delim assign (eofbuf (ps_buf st)) st = (0, st\<lparr>ps_buf := eofbuf (ps_buf st)\<rparr>)"
    if "between_entries delim st"
  proof -
    have "delim \<notin> set (eofbuf (ps_buf st))" using that assms(4) by (auto simp: between_entries_def)
    then have "strchr_split delim (eofbuf (ps_buf st)) = None" by simp
    then show ?thesis using that by (simp add: parse_line_def between_entries_def)
  qed
  then show ?thesis
    using st nl
    by (cases "assign_all assign kvs obj"; cases "fst (assign_all assign kvs obj) = 0")
       (simp_all add: shifter_parseConfig_def inp_def [symmetric])
qed

section \<open>The interface between the reader and an assignment\<close>

text \<open>
  The reader calls back with every key and value. An assignment that keeps an invariant whenever it
  accepts a value keeps it through any file that is read without an error.
\<close>

locale config_assign =
  fixes assign :: "cstring \<Rightarrow> cstring \<Rightarrow> 'o \<Rightarrow> int \<times> 'o"
    and inv :: "'o \<Rightarrow> bool"
  assumes assign_inv: "inv obj \<Longrightarrow> assign k v obj = (0, obj') \<Longrightarrow> inv obj'"
begin

lemma parse_value_inv:
  "inv (ps_obj st) \<Longrightarrow> parse_value assign t st = (0, st') \<Longrightarrow> inv (ps_obj st')"
  using assign_inv
  by (auto simp: parse_value_def Let_def split: prod.splits if_splits)

lemma parse_line_inv:
  "inv (ps_obj st) \<Longrightarrow> parse_line delim assign l st = (0, st') \<Longrightarrow> inv (ps_obj st')"
  by (auto simp: parse_line_def split: option.splits if_splits dest: parse_value_inv [rotated])

lemma parse_lines_inv:
  "inv (ps_obj st) \<Longrightarrow> parse_lines delim assign ls st = (0, st') \<Longrightarrow> inv (ps_obj st')"
proof (induction ls arbitrary: st)
  case (Cons l ls)
  then show ?case
    by (auto simp: Let_def split: prod.splits if_splits) (metis parse_line_inv)
qed simp

lemma parseConfig_inv:
  assumes "inv obj" "shifter_parseConfig eofbuf contents delim obj assign = (0, obj')"
  shows "inv obj'"
proof -
  obtain t where t: "contents = Some t" using assms(2) by (cases contents) (auto simp: shifter_parseConfig_def)
  obtain ret st where l: "parse_lines delim assign (file_lines t) (parse_init obj) = (ret, st)" by fastforce
  have ret: "ret = 0" using assms(2) l t by (auto simp: shifter_parseConfig_def split: if_splits)
  have "inv (ps_obj (parse_init obj))" using assms(1) by (simp add: parse_init_def)
  with parse_lines_inv l ret have i: "inv (ps_obj st)" by blast
  show ?thesis
  proof (cases "t = [] \<or> ends_with_nl t")
    case True
    then show ?thesis using assms(2) l t ret i parse_line_inv [OF i]
      by (auto simp: shifter_parseConfig_def split: prod.splits)
  next
    case False
    then show ?thesis using assms(2) l t ret i by (auto simp: shifter_parseConfig_def)
  qed
qed

end

section \<open>Properties\<close>

text \<open>
  A configuration file of one line entries is read as the sequence of its assignments, in
  order, up to the first that is refused, whose code is returned. This holds whatever the C library
  leaves in the line buffer when \<open>getline\<close> fails at the end of the file.
\<close>

theorem shifter_parseConfig_entries:
  assumes "\<forall>kv\<in>set kvs. simple_entry delim kv" "delim \<noteq> CHR ''#''" "delim \<noteq> NL"
    and "eofbuf = (\<lambda>b. b) \<or> eofbuf = (\<lambda>b. [])"
  shows "shifter_parseConfig eofbuf (Some (concat (map (entry_line delim) kvs))) delim obj assign
       = assign_all assign kvs obj"
  by (rule parseConfig_entries [OF assms])

lemma shifter_parseConfig_entries_witness:
  "shifter_parseConfig (\<lambda>b. b) (Some (''k=v'' @ [NL] @ ''x=y z'' @ [NL])) (CHR ''='') []
     (\<lambda>k v obj. (0, obj @ [(k, v)])) = (0, [(''k'', ''v''), (''x'', ''y z'')])"
  using shifter_parseConfig_entries
    [of "[(''k'', ''v''), (''x'', ''y z'')]" "CHR ''=''" "\<lambda>b. b" "[]" "\<lambda>k v obj. (0, obj @ [(k, v)])"]
  by (simp add: simple_entry_def trimmed_def entry_line_def char_class_defs special_char_defs)

text \<open>
  The list of strings that an image description holds is read back exactly: for texts without
  quotes, splitting the JSON array text gives the texts, with and without unicode marks.
\<close>

theorem split_json_array_roundtrip:
  assumes "ts \<noteq> []" "\<forall>t\<in>set ts. QUOTE \<notin> set t"
  shows "split_json_array (json_array_text u ts) = Some ts"
  by (rule split_json_array_text [OF assms])

lemma split_json_array_roundtrip_witness:
  "split_json_array (json_array_text True [''/bin/sh'', ''-c'']) = Some [''/bin/sh'', ''-c'']"
  using split_json_array_roundtrip [of "[''/bin/sh'', ''-c'']" True] by (simp add: special_char_defs)


text \<open>
  A chain of formatted appends to a string buffer never fails, never writes outside the block
  and never truncates: the buffer holds the concatenation of the appended texts and the block is
  longer than the text.
\<close>

theorem alloc_strcatf_chain:
  "\<exists>sb. strcatf_all sb_null fs = Ret (Some sb) \<and> sb_wf sb \<and> sb_string sb = concat fs"
  using strcatf_all_append [of sb_null fs] by simp

text \<open>
  Paths compare equal exactly when they have the same normal form, and a normal form has no
  doubled slash, no slash at its end (the root apart) and is its own normal form.
\<close>

theorem pathcmp_normal_form:
  "(pathcmp (Some a) (Some b) = 0 \<longleftrightarrow> cleanPath a = cleanPath b) \<and>
   pathcmp (Some a) (Some (cleanPath a)) = 0 \<and> cleanPath (cleanPath a) = cleanPath a \<and>
   clean_path (cleanPath a)"
  by (simp add: pathcmp_zero cleanPath_idem clean_path_cleanPath)

end
