(* ===== verification/MountList.thy ===== *)
theory MountList
  imports Utility
begin

text \<open>
  src/src/MountList.c: the process's list of mount points, kept without duplicates in a NULL
  terminated array with a flag that names its order. The pointers that the code keeps into the
  array are indices here. The struct and key arguments are not NULL, as at every call of the
  program; a NULL array (\<open>mountPointList = NULL\<close>) is one whose capacity is 0.
\<close>

datatype MountListSortOrder = MOUNT_SORT_UNSORTED | MOUNT_SORT_FORWARD | MOUNT_SORT_REVERSE

definition MOUNT_ALLOC_BLOCK :: nat where "MOUNT_ALLOC_BLOCK = 10"

record MountList =
  mountPointList :: "cstring list"
  capacity :: nat
  mcount :: nat
  sorted_as :: MountListSortOrder

definition empty_MountList :: MountList where
  "empty_MountList =
     \<lparr>mountPointList = [], capacity = 0, mcount = 0, sorted_as = MOUNT_SORT_UNSORTED\<rparr>"

definition sortMountForward :: "cstring \<Rightarrow> cstring \<Rightarrow> int" where
  "sortMountForward a b = strcmp a b"

definition sortMountReverse :: "cstring \<Rightarrow> cstring \<Rightarrow> int" where
  "sortMountReverse a b = -1 * strcmp a b"

text \<open>The search of the C library: a half open range of indices that shrinks to the key.\<close>

function bsearch_loop ::
  "(cstring \<Rightarrow> cstring \<Rightarrow> int) \<Rightarrow> cstring \<Rightarrow> cstring list \<Rightarrow> nat \<Rightarrow> nat \<Rightarrow> nat option" where
  "bsearch_loop cmp key xs l u =
     (if l < u then
        (let idx = (l + u) div 2; c = cmp key (xs ! idx)
         in if c < 0 then bsearch_loop cmp key xs l idx
            else if 0 < c then bsearch_loop cmp key xs (idx + 1) u
            else Some idx)
      else None)"
  by pat_completeness auto
termination
  by (relation "measure (\<lambda>(cmp, key, xs, l, u). u - l)") auto

declare bsearch_loop.simps [simp del]

fun linear_find :: "cstring \<Rightarrow> cstring list \<Rightarrow> nat option" where
  "linear_find key [] = None"
| "linear_find key (x # xs) = (if strcmp x key = 0 then Some 0 else map_option Suc (linear_find key xs))"

definition find_MountList :: "MountList \<Rightarrow> cstring \<Rightarrow> nat option" where
  "find_MountList mounts mountPoint =
     (case sorted_as mounts of
        MOUNT_SORT_FORWARD \<Rightarrow>
          bsearch_loop sortMountForward mountPoint (mountPointList mounts) 0 (mcount mounts)
      | MOUNT_SORT_REVERSE \<Rightarrow>
          bsearch_loop sortMountReverse mountPoint (mountPointList mounts) 0 (mcount mounts)
      | MOUNT_SORT_UNSORTED \<Rightarrow> linear_find mountPoint (mountPointList mounts))"

text \<open>\<open>left\<close> and the slot behind \<open>right\<close> move towards each other.\<close>

function reverse_loop :: "'a list \<Rightarrow> nat \<Rightarrow> nat \<Rightarrow> 'a list" where
  "reverse_loop xs left e =
     (if left + 1 < e
      then reverse_loop (xs[left := xs ! (e - 1), e - 1 := xs ! left]) (left + 1) (e - 1)
      else xs)"
  by pat_completeness auto
termination
  by (relation "measure (\<lambda>(xs, left, e). e - left)") auto

declare reverse_loop.simps [simp del]

text \<open>
  \<open>qsort\<close> with a total order on strings has one result, the sorted list. The reversal of a list
  that never had an array computes \<open>NULL - 1\<close> and then dereferences NULL.
\<close>

definition setSort_MountList :: "MountList \<Rightarrow> MountListSortOrder \<Rightarrow> MountList outcome" where
  "setSort_MountList mounts sorting =
     (if sorting \<noteq> MOUNT_SORT_FORWARD \<and> sorting \<noteq> MOUNT_SORT_REVERSE then Ret mounts
      else if sorted_as mounts = sorting then Ret mounts
      else if sorted_as mounts = MOUNT_SORT_UNSORTED then
        Ret (mounts\<lparr>mountPointList :=
                      (if sorting = MOUNT_SORT_FORWARD then sort (mountPointList mounts)
                       else rev (sort (mountPointList mounts))),
                    sorted_as := sorting\<rparr>)
      else if capacity mounts = 0 then OutOfBounds
      else Ret (mounts\<lparr>mountPointList := reverse_loop (mountPointList mounts) 0 (mcount mounts),
                       sorted_as := sorting\<rparr>))"

text \<open>The truncated insertion sort, from the slot of the new entry towards the front.\<close>

fun sink_last :: "(cstring \<Rightarrow> cstring \<Rightarrow> int) \<Rightarrow> cstring list \<Rightarrow> nat \<Rightarrow> cstring list" where
  "sink_last cmp xs 0 = xs"
| "sink_last cmp xs (Suc m) =
     (if 0 < cmp (xs ! m) (xs ! Suc m)
      then sink_last cmp (xs[m := xs ! Suc m, Suc m := xs ! m]) m
      else xs)"

text \<open>
  Both tests that choose the comparison name \<open>MOUNT_SORT_FORWARD\<close>, so a list in reverse order
  takes the last branch, like an unsorted one.
\<close>

definition insert_MountList :: "MountList \<Rightarrow> cstring \<Rightarrow> int \<times> MountList" where
  "insert_MountList mounts mountPoint =
     (let m0 = (if mcount mounts = 0 \<and> sorted_as mounts = MOUNT_SORT_UNSORTED
                then mounts\<lparr>sorted_as := MOUNT_SORT_FORWARD\<rparr> else mounts)
      in if find_MountList m0 mountPoint \<noteq> None then (1, m0)
         else
           let (ret, arr, wpos) =
                 strncpy_StringArray (Some mountPoint) (length mountPoint) (mcount m0)
                   \<lparr>sa_items = mountPointList m0, sa_capacity = capacity m0\<rparr> MOUNT_ALLOC_BLOCK
           in if ret \<noteq> 0 then (2, m0)
              else
                let m1 = m0\<lparr>mountPointList := sa_items arr, capacity := sa_capacity arr,
                             mcount := mcount m0 + 1\<rparr>
                in if mcount m1 \<le> 1 then (0, m1)
                   else if sorted_as m1 = MOUNT_SORT_FORWARD then
                     (0, m1\<lparr>mountPointList := sink_last sortMountForward (mountPointList m1) (wpos - 1)\<rparr>)
                   else
                     (case setSort_MountList m1 MOUNT_SORT_FORWARD of
                        Ret m2 \<Rightarrow> (0, m2)
                      | _ \<Rightarrow> (2, m1)))"

definition remove_MountList :: "MountList \<Rightarrow> cstring \<Rightarrow> MountList" where
  "remove_MountList mounts mountPoint =
     (case find_MountList mounts mountPoint of
        None \<Rightarrow> mounts
      | Some i \<Rightarrow>
          mounts\<lparr>mountPointList := take i (mountPointList mounts) @ drop (i + 1) (mountPointList mounts),
                 mcount := mcount mounts - 1\<rparr>)"

fun first_prefixed :: "cstring \<Rightarrow> cstring list \<Rightarrow> nat option" where
  "first_prefixed key [] = None"
| "first_prefixed key (x # xs) = (if prefix key x then Some 0 else map_option Suc (first_prefixed key xs))"

definition findstartswith_MountList :: "MountList \<Rightarrow> cstring \<Rightarrow> nat option" where
  "findstartswith_MountList mounts key =
     (if key = [] then None else first_prefixed key (mountPointList mounts))"

definition free_MountList :: "MountList \<Rightarrow> MountList" where
  "free_MountList mounts = empty_MountList"

text \<open>
  One line of /proc/<pid>/mounts per step. \<open>feof\<close> is tested right after \<open>getline\<close>, so a last line
  without a newline is not used. \<open>contents\<close> is None when the file cannot be opened.
\<close>

fun parse_mount_lines :: "cstring list \<Rightarrow> MountList \<Rightarrow> int \<times> MountList" where
  "parse_mount_lines [] mounts = (0, mounts)"
| "parse_mount_lines (l # ls) mounts =
     (if l = [] \<or> last l \<noteq> NL then (0, mounts)
      else
        (case strtok_all (\<lambda>c. c = CHR '' '') l of
           [] \<Rightarrow> (1, mounts)
         | [t] \<Rightarrow> parse_mount_lines ls mounts
         | t # ptr # ts \<Rightarrow>
             (let (ret, mounts') = insert_MountList mounts ptr
              in if ret = 2 then (1, mounts') else parse_mount_lines ls mounts')))"

definition parse_MountList :: "cstring option \<Rightarrow> MountList \<Rightarrow> int \<times> MountList" where
  "parse_MountList contents mounts =
     (case contents of None \<Rightarrow> (1, mounts) | Some t \<Rightarrow> parse_mount_lines (file_lines t) mounts)"

section \<open>Searching\<close>

lemma bsearch_loop_Some:
  "bsearch_loop cmp key xs l u = Some i \<Longrightarrow> l \<le> i \<and> i < u \<and> cmp key (xs ! i) = 0"
proof (induction cmp key xs l u rule: bsearch_loop.induct)
  case (1 cmp key xs l u)
  let ?idx = "(l + u) div 2"
  have lu: "l < u" using "1.prems" by (subst (asm) bsearch_loop.simps) (auto split: if_splits)
  consider "cmp key (xs ! ?idx) < 0" | "0 < cmp key (xs ! ?idx)" | "cmp key (xs ! ?idx) = 0"
    by linarith
  then show ?case
  proof cases
    case 1
    with "1.prems" lu have "bsearch_loop cmp key xs l ?idx = Some i"
      by (simp add: bsearch_loop.simps [of _ _ _ l u])
    from "1.IH"(1) [OF lu refl refl 1 this] show ?thesis by auto
  next
    case 2
    with "1.prems" lu have "bsearch_loop cmp key xs (?idx + 1) u = Some i"
      by (simp add: bsearch_loop.simps [of _ _ _ l u])
    from "1.IH"(2) [OF lu refl refl _ 2 this] 2 show ?thesis by auto
  next
    case 3
    with "1.prems" lu show ?thesis
      by (subst (asm) bsearch_loop.simps) (auto simp: Let_def)
  qed
qed

lemma bsearch_loop_hit:
  assumes "l \<le> k" "k < u" "cmp key (xs ! k) = 0"
    and "\<forall>i. l \<le> i \<and> i < k \<longrightarrow> 0 < cmp key (xs ! i)"
    and "\<forall>i. k < i \<and> i < u \<longrightarrow> cmp key (xs ! i) < 0"
  shows "bsearch_loop cmp key xs l u = Some k"
  using assms
proof (induction cmp key xs l u rule: bsearch_loop.induct)
  case (1 cmp key xs l u)
  let ?idx = "(l + u) div 2"
  have lu: "l < u" and idx: "l \<le> ?idx" "?idx < u" using "1.prems"(1,2) by auto
  consider "?idx = k" | "k < ?idx" | "?idx < k" by linarith
  then show ?case
  proof cases
    case 1
    with "1.prems"(3) lu show ?thesis by (simp add: bsearch_loop.simps [of _ _ _ l u])
  next
    case 2
    then have c: "cmp key (xs ! ?idx) < 0" using "1.prems"(5) idx by simp
    have "bsearch_loop cmp key xs l ?idx = Some k"
      by (rule "1.IH"(1) [OF lu refl refl c]) (use 2 "1.prems" in auto)
    with lu c show ?thesis by (simp add: bsearch_loop.simps [of _ _ _ l u] Let_def)
  next
    case 3
    then have c: "0 < cmp key (xs ! ?idx)" using "1.prems"(4) idx by simp
    then have nc: "\<not> cmp key (xs ! ?idx) < 0" by simp
    have "bsearch_loop cmp key xs (?idx + 1) u = Some k"
      by (rule "1.IH"(2) [OF lu refl refl nc c]) (use 3 "1.prems" in auto)
    with lu c nc show ?thesis by (simp add: bsearch_loop.simps [of _ _ _ l u] Let_def)
  qed
qed

lemma linear_find_Some: "linear_find key xs = Some i \<Longrightarrow> i < length xs \<and> xs ! i = key"
  by (induction xs arbitrary: i) (auto split: if_splits)

lemma linear_find_None [simp]: "linear_find key xs = None \<longleftrightarrow> key \<notin> set xs"
  by (induction xs) auto

definition order_ok :: "MountList \<Rightarrow> bool" where
  "order_ok m \<longleftrightarrow>
     (case sorted_as m of
        MOUNT_SORT_UNSORTED \<Rightarrow> True
      | MOUNT_SORT_FORWARD \<Rightarrow> sorted (mountPointList m)
      | MOUNT_SORT_REVERSE \<Rightarrow> sorted (rev (mountPointList m)))"

text \<open>The invariant of the list: a faithful count, a terminated array, no duplicates, the order.\<close>

definition ml_inv :: "MountList \<Rightarrow> bool" where
  "ml_inv m \<longleftrightarrow>
     mcount m = length (mountPointList m) \<and>
     sa_wf \<lparr>sa_items = mountPointList m, sa_capacity = capacity m\<rparr> \<and>
     distinct (mountPointList m) \<and> order_ok m"

definition mounts_of :: "MountList \<Rightarrow> cstring set" where
  "mounts_of m = set (mountPointList m)"

lemma ml_inv_empty [simp]: "ml_inv empty_MountList" "mounts_of empty_MountList = {}"
  by (simp_all add: ml_inv_def empty_MountList_def order_ok_def sa_wf_def mounts_of_def)

lemma sorted_distinct_less:
  "sorted xs \<Longrightarrow> distinct xs \<Longrightarrow> i < j \<Longrightarrow> j < length xs \<Longrightarrow> xs ! i < xs ! (j::nat)"
  by (metis less_le_trans less_not_refl nth_eq_iff_index_eq order_le_less sorted_nth_mono)

lemma rsorted_distinct_less:
  assumes "sorted (rev xs)" "distinct xs" "i < j" "j < length xs"
  shows "xs ! j < xs ! (i::nat)"
proof -
  have "rev xs ! (length xs - 1 - j) < rev xs ! (length xs - 1 - i)"
    by (rule sorted_distinct_less) (use assms in auto)
  with assms(3,4) show ?thesis by (simp add: rev_nth)
qed

lemma find_hit:
  assumes "ml_inv m" "k < mcount m"
  shows "find_MountList m (mountPointList m ! k) = Some k"
proof (cases "sorted_as m")
  case MOUNT_SORT_UNSORTED
  have d: "distinct (mountPointList m)" "k < length (mountPointList m)"
    using assms by (auto simp: ml_inv_def)
  then have "linear_find (mountPointList m ! k) (mountPointList m) \<noteq> None" by auto
  then obtain i where "linear_find (mountPointList m ! k) (mountPointList m) = Some i" by blast
  with linear_find_Some [OF this] d nth_eq_iff_index_eq show ?thesis
    by (fastforce simp: find_MountList_def MOUNT_SORT_UNSORTED)
next
  case MOUNT_SORT_FORWARD
  with assms show ?thesis
    by (auto simp: find_MountList_def ml_inv_def order_ok_def sortMountForward_def
        intro!: bsearch_loop_hit sorted_distinct_less)
next
  case MOUNT_SORT_REVERSE
  with assms show ?thesis
    by (auto simp: find_MountList_def ml_inv_def order_ok_def sortMountReverse_def
        intro!: bsearch_loop_hit rsorted_distinct_less)
qed

lemma find_Some_nth:
  assumes "find_MountList m key = Some i" "mcount m = length (mountPointList m)"
  shows "i < mcount m \<and> mountPointList m ! i = key"
  using assms
  by (cases "sorted_as m")
     (auto simp: find_MountList_def sortMountForward_def sortMountReverse_def
       dest!: bsearch_loop_Some dest: linear_find_Some)

lemma find_iff:
  assumes "ml_inv m"
  shows "find_MountList m key = Some i \<longleftrightarrow> i < mcount m \<and> mountPointList m ! i = key"
  using assms find_hit find_Some_nth by (auto simp: ml_inv_def)

lemma find_None_iff:
  assumes "ml_inv m"
  shows "find_MountList m key = None \<longleftrightarrow> key \<notin> mounts_of m"
proof -
  have "find_MountList m key \<noteq> None \<longleftrightarrow> (\<exists>i<mcount m. mountPointList m ! i = key)"
    using find_iff [OF assms] by auto
  then show ?thesis using assms by (auto simp: mounts_of_def ml_inv_def in_set_conv_nth)
qed

section \<open>Changing the order\<close>

lemma reverse_loop_mid:
  "left \<le> e \<Longrightarrow> e \<le> length xs \<Longrightarrow>
   reverse_loop xs left e = take left xs @ rev (drop left (take e xs)) @ drop e xs"
proof (induction xs left e rule: reverse_loop.induct)
  case (1 xs left e)
  show ?case
  proof (cases "left + 1 < e")
    case True
    define ys where "ys = xs[left := xs ! (e - 1), e - 1 := xs ! left]"
    have "reverse_loop xs left e = reverse_loop ys (left + 1) (e - 1)"
      using True by (simp add: reverse_loop.simps [of xs] ys_def)
    also have "\<dots> = take (left + 1) ys @ rev (drop (left + 1) (take (e - 1) ys)) @ drop (e - 1) ys"
      unfolding ys_def by (rule "1.IH") (use True "1.prems" in auto)
    also have "\<dots> = take left xs @ rev (drop left (take e xs)) @ drop e xs"
    proof -
      define mid where "mid = drop (left + 1) (take (e - 1) xs)"
      have xs: "xs = take left xs @ xs ! left # mid @ xs ! (e - 1) # drop e xs"
      proof -
        have "xs = take left xs @ drop left (take (e - 1) xs) @ drop (e - 1) xs"
          using True by (metis add_lessD1 append.assoc append_take_drop_id less_diff_conv less_imp_le_nat min.absorb1 take_take)
        moreover have "drop left (take (e - 1) xs) = xs ! left # mid"
          using True "1.prems" by (simp add: mid_def Cons_nth_drop_Suc [symmetric])
        moreover have "drop (e - 1) xs = xs ! (e - 1) # drop e xs"
          using True "1.prems" by (metis Cons_nth_drop_Suc Suc_pred' add_lessD1 less_diff_conv less_le_trans diff_less
            zero_less_one less_nat_zero_code not_gr_zero)
        ultimately show ?thesis by simp
      qed
      define a b t u where "a = take left xs" "b = xs ! left" "t = xs ! (e - 1)" "u = drop e xs"
      note xs' = xs [folded a_b_t_u_def]
      have la: "length a = left" using True "1.prems" by (simp add: a_b_t_u_def)
      have lm: "length mid = e - left - 2" using True "1.prems" by (simp add: mid_def)
      have e1: "e - 1 = left + Suc (length mid)" "e = left + Suc (Suc (length mid))" using True lm by auto
      have ys: "ys = a @ t # mid @ b # u"
        unfolding ys_def a_b_t_u_def(2,3) [symmetric]
        by (subst xs') (simp add: e1 list_update_append la [symmetric])
      have "drop left (take e xs) = b # mid @ [t]"
        by (subst xs') (simp add: e1 la [symmetric])
      then have "take left xs @ rev (drop left (take e xs)) @ drop e xs = a @ t # rev mid @ b # u"
        by (simp add: a_b_t_u_def)
      moreover have "take (left + 1) ys @ rev (drop (left + 1) (take (e - 1) ys)) @ drop (e - 1) ys
          = a @ t # rev mid @ b # u"
        unfolding ys by (simp add: e1 la [symmetric])
      ultimately show ?thesis by simp
    qed
    finally show ?thesis .
  next
    case False
    have "rev (drop left (take e xs)) = drop left (take e xs)"
    proof -
      have "length (drop left (take e xs)) \<le> 1" using False by auto
      then show ?thesis by (cases "drop left (take e xs)") auto
    qed
    moreover have "take left xs @ drop left (take e xs) @ drop e xs = xs"
      using "1.prems" by (metis append.assoc append_take_drop_id min.absorb1 take_take)
    ultimately show ?thesis using False by (simp add: reverse_loop.simps [of xs])
  qed
qed

lemma reverse_loop_rev: "reverse_loop xs 0 (length xs) = rev xs"
  by (simp add: reverse_loop_mid)

text \<open>Sorting keeps the mount points and establishes the order that was asked for.\<close>

lemma setSort_ok:
  assumes "ml_inv m" "setSort_MountList m s = Ret m'"
  shows "ml_inv m' \<and> mounts_of m' = mounts_of m \<and>
         sorted_as m' = (if s = MOUNT_SORT_UNSORTED then sorted_as m else s)"
proof -
  have wf: "sa_wf \<lparr>sa_items = xs, sa_capacity = c\<rparr> \<longleftrightarrow> sa_wf \<lparr>sa_items = ys, sa_capacity = c\<rparr>"
    if "length xs = length ys" for xs ys c
    using that by (auto simp: sa_wf_def)
  show ?thesis
    using assms wf [of "rev (mountPointList m)" "mountPointList m"]
      wf [of "sort (mountPointList m)" "mountPointList m"]
      wf [of "rev (sort (mountPointList m))" "mountPointList m"]
    by (cases s; cases "sorted_as m")
       (auto simp: setSort_MountList_def ml_inv_def order_ok_def mounts_of_def reverse_loop_rev
         split: if_splits)
qed

lemma setSort_Ret:
  "sorted_as m = MOUNT_SORT_UNSORTED \<or> sorted_as m = s \<or> 0 < capacity m \<Longrightarrow>
   \<exists>m'. setSort_MountList m s = Ret m'"
  by (auto simp: setSort_MountList_def)

section \<open>Inserting\<close>

lemma insort_snoc_gt: "\<forall>y\<in>set ys. y < (x::'a::linorder) \<Longrightarrow> insort x ys = ys @ [x]"
  by (induction ys) (auto simp: not_le)

lemma insort_snoc_lt: "x < (y::'a::linorder) \<Longrightarrow> insort x (ys @ [y]) = insort x ys @ [y]"
  by (induction ys) auto

lemma sink_last_insort:
  "sorted ys \<Longrightarrow> x \<notin> set ys \<Longrightarrow> sink_last sortMountForward (ys @ x # zs) (length ys) = insort x ys @ zs"
proof (induction ys arbitrary: zs rule: rev_induct)
  case Nil
  then show ?case by simp
next
  case (snoc y ys)
  show ?case
  proof (cases "x < y")
    case True
    have "sink_last sortMountForward (ys @ y # x # zs) (Suc (length ys))
        = sink_last sortMountForward (ys @ x # y # zs) (length ys)"
      using True by (simp add: sortMountForward_def nth_append list_update_append)
    with snoc True show ?thesis by (simp add: sorted_append insort_snoc_lt)
  next
    case False
    then have "\<forall>z\<in>set (ys @ [y]). z < x" using snoc.prems by (fastforce simp: sorted_append)
    with False insort_snoc_gt [OF this] show ?thesis
      by (simp add: sortMountForward_def nth_append)
  qed
qed

text \<open>The list before the order is restored, and the effect on each order.\<close>

definition appended :: "MountList \<Rightarrow> cstring \<Rightarrow> MountList" where
  "appended m k =
     m\<lparr>mountPointList := mountPointList m @ [k],
       capacity := grow_capacity (capacity m) (mcount m) MOUNT_ALLOC_BLOCK,
       mcount := mcount m + 1\<rparr>"

lemma appended_wf:
  assumes "ml_inv m"
  shows "mcount (appended m k) = length (mountPointList (appended m k))"
    "sa_wf \<lparr>sa_items = mountPointList (appended m k), sa_capacity = capacity (appended m k)\<rparr>"
    "0 < capacity (appended m k)"
proof -
  have "mcount m \<le> capacity m" using assms by (auto simp: ml_inv_def sa_wf_def)
  from grow_capacity_ge [OF this, of MOUNT_ALLOC_BLOCK] assms
  show "mcount (appended m k) = length (mountPointList (appended m k))"
    "sa_wf \<lparr>sa_items = mountPointList (appended m k), sa_capacity = capacity (appended m k)\<rparr>"
    "0 < capacity (appended m k)"
    by (auto simp: appended_def ml_inv_def sa_wf_def MOUNT_ALLOC_BLOCK_def)
qed

definition opened :: "MountList \<Rightarrow> MountList" where
  "opened m = (if mcount m = 0 \<and> sorted_as m = MOUNT_SORT_UNSORTED
               then m\<lparr>sorted_as := MOUNT_SORT_FORWARD\<rparr> else m)"

lemma opened_inv [simp]: "ml_inv m \<Longrightarrow> ml_inv (opened m)" "mounts_of (opened m) = mounts_of m"
  by (auto simp: opened_def ml_inv_def order_ok_def mounts_of_def)

lemma insert_new:
  assumes "ml_inv m" "k \<notin> mounts_of m" "length k \<noteq> 2 ^ 64 - 1"
  shows "insert_MountList m k =
    (if sorted_as (opened m) = MOUNT_SORT_FORWARD
     then (0, (appended (opened m) k)\<lparr>mountPointList := insort k (mountPointList m)\<rparr>)
     else if mcount m = 0 then (0, appended (opened m) k)
     else case setSort_MountList (appended (opened m) k) MOUNT_SORT_FORWARD of
            Ret m2 \<Rightarrow> (0, m2) | _ \<Rightarrow> (2, appended (opened m) k))"
proof -
  define m0 where "m0 = opened m"
  have inv: "ml_inv m0" "mounts_of m0 = mounts_of m" "mountPointList m0 = mountPointList m"
    "mcount m0 = mcount m"
    using assms(1) by (simp_all add: m0_def) (simp_all add: opened_def)
  have find: "find_MountList m0 k = None" using find_None_iff inv assms(2) by auto
  have app: "strncpy_StringArray (Some k) (length k) (mcount m0)
      \<lparr>sa_items = mountPointList m0, sa_capacity = capacity m0\<rparr> MOUNT_ALLOC_BLOCK
      = (0, \<lparr>sa_items = mountPointList m0 @ [k],
             sa_capacity = grow_capacity (capacity m0) (mcount m0) MOUNT_ALLOC_BLOCK\<rparr>, mcount m0 + 1)"
    using inv(1) assms(3)
    by (auto simp: strncpy_StringArray_def MOUNT_ALLOC_BLOCK_def ml_inv_def sa_wf_def)
  have sink: "sink_last sortMountForward (mountPointList m0 @ [k]) (mcount m0) = insort k (mountPointList m0)"
    if "sorted_as m0 = MOUNT_SORT_FORWARD"
    using that inv(1,2) assms(2) sink_last_insort [of "mountPointList m0" k "[]"]
    by (simp add: ml_inv_def order_ok_def mounts_of_def)
  have single: "insort k (mountPointList m0) = mountPointList m0 @ [k]" if "mcount m0 = 0"
    using that inv(1) by (simp add: ml_inv_def)
  show ?thesis
    unfolding insert_MountList_def m0_def [symmetric, unfolded opened_def]
    unfolding opened_def [symmetric] m0_def [symmetric]
    using find app sink single inv(3,4)
    by (simp add: Let_def appended_def split: outcome.split)
qed

text \<open>
  An insertion into a list that is not in reverse order, or still empty, keeps the invariant. A
  list in reverse order that is not empty is the exception, see below.
\<close>

definition key_ok :: "cstring \<Rightarrow> bool" where
  "key_ok k \<longleftrightarrow> length k \<noteq> 2 ^ 64 - 1"

definition order_after_insert :: "MountList \<Rightarrow> MountListSortOrder" where
  "order_after_insert m =
     (if mcount m = 0 \<and> sorted_as m = MOUNT_SORT_REVERSE then MOUNT_SORT_REVERSE
      else MOUNT_SORT_FORWARD)"

lemma insert_dup:
  assumes "ml_inv m" "k \<in> mounts_of m"
  shows "insert_MountList m k = (1, m)"
proof -
  have "opened m = m" using assms by (auto simp: opened_def ml_inv_def mounts_of_def)
  moreover have "find_MountList (opened m) k \<noteq> None"
    using find_None_iff [of "opened m" k] assms by simp
  ultimately show ?thesis
    using assms by (auto simp: insert_MountList_def opened_def Let_def split: if_splits)
qed

lemma insert_ready:
  assumes "ml_inv m" "sorted_as m = MOUNT_SORT_REVERSE \<longrightarrow> mcount m = 0" "k \<notin> mounts_of m" "key_ok k"
  shows "\<exists>m'. insert_MountList m k = (0, m') \<and> ml_inv m' \<and> mounts_of m' = insert k (mounts_of m)
           \<and> sorted_as m' = order_after_insert m"
proof -
  have len: "length k \<noteq> 2 ^ 64 - 1" using assms(4) by (simp add: key_ok_def)
  have inv0: "ml_inv (opened m)" using assms(1) by simp
  have same: "mountPointList (opened m) = mountPointList m" "mcount (opened m) = mcount m"
    by (simp_all add: opened_def)
  note wf = appended_wf [OF inv0, of k]
  have d: "distinct (mountPointList m)" "k \<notin> set (mountPointList m)"
    using assms by (auto simp: ml_inv_def mounts_of_def)
  consider (fwd) "sorted_as (opened m) = MOUNT_SORT_FORWARD"
    | (rev) "sorted_as (opened m) = MOUNT_SORT_REVERSE"
    | (uns) "sorted_as (opened m) = MOUNT_SORT_UNSORTED"
    by (cases "sorted_as (opened m)") auto
  then show ?thesis
  proof cases
    case fwd
    have "sorted (mountPointList m)" using fwd inv0 same by (simp add: ml_inv_def order_ok_def)
    then have "ml_inv ((appended (opened m) k)\<lparr>mountPointList := insort k (mountPointList m)\<rparr>)"
      using wf d fwd same
      by (auto simp: ml_inv_def order_ok_def appended_def sa_wf_def sorted_insort distinct_insort
          length_insort)
    then show ?thesis
      using insert_new [OF assms(1,3) len] fwd
      by (auto simp: mounts_of_def set_insort_key order_after_insert_def appended_def opened_def
          split: if_splits)
  next
    case rev
    then have r: "sorted_as m = MOUNT_SORT_REVERSE" "mcount m = 0" "mountPointList m = []"
      using assms(1,2) by (auto simp: opened_def ml_inv_def split: if_splits)
    then have "ml_inv (appended (opened m) k)"
      using wf same rev by (simp add: ml_inv_def order_ok_def) (simp add: appended_def same)
    then show ?thesis
      using insert_new [OF assms(1,3) len] rev r
      by (simp add: mounts_of_def order_after_insert_def appended_def same)
  next
    case uns
    then have u: "mcount m \<noteq> 0" "sorted_as m = MOUNT_SORT_UNSORTED" "opened m = m"
      by (auto simp: opened_def split: if_splits)
    have inv': "ml_inv (appended m k)"
      using wf d u by (simp add: ml_inv_def order_ok_def) (simp add: appended_def)
    obtain m2 where m2: "setSort_MountList (appended m k) MOUNT_SORT_FORWARD = Ret m2"
      using setSort_Ret [of "appended m k"] u(2) by (auto simp: appended_def)
    show ?thesis
      using insert_new [OF assms(1,3) len] setSort_ok [OF inv' m2] m2 u
      by (simp add: order_after_insert_def mounts_of_def) (simp add: appended_def)
  qed
qed

text \<open>A key that the array refuses leaves the list as it is, with its invariant.\<close>

lemma insert_inv:
  assumes "ml_inv m" "sorted_as m = MOUNT_SORT_REVERSE \<longrightarrow> mcount m = 0"
  shows "ml_inv (snd (insert_MountList m k))"
proof (cases "k \<in> mounts_of m \<or> key_ok k")
  case True
  with insert_dup [OF assms(1)] insert_ready [OF assms] assms(1) show ?thesis
    by (cases "k \<in> mounts_of m") fastforce+
next
  case False
  then have "length k = 2 ^ 64 - 1" "k \<notin> mounts_of m" by (auto simp: key_ok_def)
  moreover have "find_MountList (opened m) k = None"
    using find_None_iff [of "opened m" k] assms(1) calculation(2) by simp
  ultimately have "insert_MountList m k = (2, opened m)"
    by (auto simp: insert_MountList_def opened_def [symmetric] strncpy_StringArray_def Let_def)
  with assms(1) show ?thesis by simp
qed

section \<open>Removing\<close>

lemma set_delete_nth:
  "distinct xs \<Longrightarrow> i < length xs \<Longrightarrow> set (take i xs @ drop (i + 1) xs) = set xs - {xs ! i}"
  "distinct xs \<Longrightarrow> distinct (take i xs @ drop (i + 1) xs)"
proof -
  show "set (take i xs @ drop (i + 1) xs) = set xs - {xs ! i}" if "distinct xs" "i < length xs"
  proof -
    have xs: "xs = take i xs @ xs ! i # drop (i + 1) xs" using that(2) by (simp add: id_take_nth_drop)
    with that(1) have "distinct (take i xs @ xs ! i # drop (i + 1) xs)" by simp
    then have "xs ! i \<notin> set (take i xs) \<union> set (drop (i + 1) xs)" by simp
    moreover have "set xs = set (take i xs) \<union> {xs ! i} \<union> set (drop (i + 1) xs)"
      by (subst xs) simp
    ultimately show ?thesis by auto
  qed
  show "distinct (take i xs @ drop (i + 1) xs)" if "distinct xs"
    using that by (auto simp: set_take_disj_set_drop_if_distinct)
qed

lemma sorted_delete_nth:
  fixes xs :: "'a::linorder list"
  shows "sorted xs \<Longrightarrow> sorted (take i xs @ drop (i + 1) xs)"
proof -
  assume "sorted xs"
  then have "sorted (take i xs @ drop i xs)" by simp
  then have "\<forall>x\<in>set (take i xs). \<forall>y\<in>set (drop i xs). x \<le> y" by (simp only: sorted_append) blast
  moreover have "set (drop (i + 1) xs) \<subseteq> set (drop i xs)" by (simp add: set_drop_subset_set_drop)
  ultimately show ?thesis
    using \<open>sorted xs\<close> by (auto simp: sorted_append sorted_wrt_take sorted_wrt_drop)
qed

lemma sorted_rev_delete_nth:
  fixes xs :: "'a::linorder list"
  assumes "sorted (rev xs)"
  shows "sorted (rev (take i xs @ drop (i + 1) xs))"
proof (cases "i < length xs")
  case True
  then have "rev (take i xs @ drop (i + 1) xs)
      = take (length xs - 1 - i) (rev xs) @ drop (length xs - 1 - i + 1) (rev xs)"
    by (simp add: take_rev drop_rev Suc_diff_Suc)
  with sorted_delete_nth [OF assms] show ?thesis by metis
next
  case False
  with assms show ?thesis by simp
qed

lemma remove_ok:
  assumes "ml_inv m"
  shows "ml_inv (remove_MountList m k)"
    "mounts_of (remove_MountList m k) = mounts_of m - {k}"
    "sorted_as (remove_MountList m k) = sorted_as m"
    "mcount (remove_MountList m k) \<le> mcount m"
proof -
  have "ml_inv (remove_MountList m k) \<and> mounts_of (remove_MountList m k) = mounts_of m - {k}
    \<and> sorted_as (remove_MountList m k) = sorted_as m \<and> mcount (remove_MountList m k) \<le> mcount m"
  proof (cases "find_MountList m k")
    case None
    with find_None_iff [OF assms, of k] assms show ?thesis by (simp add: remove_MountList_def)
  next
    case (Some i)
    with find_iff [OF assms] have i: "i < mcount m" "mountPointList m ! i = k" by auto
    define xs where "xs = mountPointList m"
    have len: "mcount m = length xs" "i < length xs" "distinct xs"
      using assms i by (auto simp: ml_inv_def xs_def)
    have ord: "order_ok (remove_MountList m k)"
      using assms Some sorted_delete_nth [of xs i] sorted_rev_delete_nth [of xs i]
      by (cases "sorted_as m") (auto simp: remove_MountList_def order_ok_def ml_inv_def xs_def)
    have "sa_wf \<lparr>sa_items = take i xs @ drop (i + 1) xs, sa_capacity = capacity m\<rparr>"
      using assms len by (auto simp: ml_inv_def sa_wf_def xs_def)
    then show ?thesis
      using Some ord set_delete_nth [OF len(3)] len i
      by (simp add: remove_MountList_def ml_inv_def mounts_of_def xs_def)
  qed
  then show "ml_inv (remove_MountList m k)"
    "mounts_of (remove_MountList m k) = mounts_of m - {k}"
    "sorted_as (remove_MountList m k) = sorted_as m"
    "mcount (remove_MountList m k) \<le> mcount m" by auto
qed

section \<open>The interface for the mount code\<close>

text \<open>
  What the mount code relies on: a lookup that agrees with a set of mount points and a removal
  that takes one element out; and, where it inserts, an insertion that never fails.
\<close>

locale mount_lookup =
  fixes inv :: "'m \<Rightarrow> bool"
    and elems :: "'m \<Rightarrow> cstring set"
    and mem :: "'m \<Rightarrow> cstring \<Rightarrow> bool"
    and del :: "'m \<Rightarrow> cstring \<Rightarrow> 'm"
  assumes mem_iff: "inv m \<Longrightarrow> mem m k \<longleftrightarrow> k \<in> elems m"
    and del_inv: "inv m \<Longrightarrow> inv (del m k)"
    and del_elems: "inv m \<Longrightarrow> elems (del m k) = elems m - {k}"
begin

lemma del_all:
  "inv m \<Longrightarrow> inv (foldl del m ks) \<and> elems (foldl del m ks) = elems m - set ks"
  by (induction ks arbitrary: m) (auto simp: del_inv del_elems)

lemma not_mem_del: "inv m \<Longrightarrow> \<not> mem (del m k) k"
  by (simp add: mem_iff del_inv del_elems)

lemma mem_del_other: "inv m \<Longrightarrow> k \<noteq> j \<Longrightarrow> mem (del m k) j \<longleftrightarrow> mem m j"
  by (simp add: mem_iff del_inv del_elems)

end

locale mount_store = mount_lookup inv elems mem del
  for inv :: "'m \<Rightarrow> bool" and elems mem del +
  fixes ready :: "'m \<Rightarrow> bool"
    and ins :: "'m \<Rightarrow> cstring \<Rightarrow> int \<times> 'm"
    and good :: "cstring \<Rightarrow> bool"
  assumes ready_inv: "ready m \<Longrightarrow> inv m"
    and del_ready: "ready m \<Longrightarrow> ready (del m k)"
    and ins_old: "ready m \<Longrightarrow> k \<in> elems m \<Longrightarrow> ins m k = (1, m)"
    and ins_fresh: "ready m \<Longrightarrow> k \<notin> elems m \<Longrightarrow> good k \<Longrightarrow>
          \<exists>m'. ins m k = (0, m') \<and> ready m' \<and> elems m' = insert k (elems m)"
begin

lemma ins_total:
  assumes "ready m" "good k"
  shows "ready (snd (ins m k)) \<and> elems (snd (ins m k)) = insert k (elems m)
         \<and> fst (ins m k) = (if k \<in> elems m then 1 else 0)"
  using ins_old [OF assms(1)] ins_fresh [OF assms(1) _ assms(2)] assms(1)
  by (cases "k \<in> elems m") (auto simp: insert_absorb)

lemma ins_del:
  assumes "ready m" "good k" "k \<notin> elems m"
  shows "elems (del (snd (ins m k)) k) = elems m"
  using ins_total [OF assms(1,2)] ready_inv del_elems assms(3) by fastforce

lemma mem_ins: "ready m \<Longrightarrow> good k \<Longrightarrow> mem (snd (ins m k)) j \<longleftrightarrow> j = k \<or> mem m j"
  using ins_total [of m k] mem_iff ready_inv by fastforce

end

interpretation ml: mount_lookup ml_inv mounts_of "\<lambda>m k. find_MountList m k \<noteq> None" remove_MountList
  by unfold_locales (auto simp: find_None_iff remove_ok simp del: not_None_eq)

text \<open>The lists that are not in reverse order, which is where the program inserts.\<close>

definition ml_forward :: "MountList \<Rightarrow> bool" where
  "ml_forward m \<longleftrightarrow> ml_inv m \<and> sorted_as m \<noteq> MOUNT_SORT_REVERSE"

interpretation mls: mount_store ml_inv mounts_of "\<lambda>m k. find_MountList m k \<noteq> None" remove_MountList
    ml_forward insert_MountList key_ok
proof unfold_locales
  show "ml_inv m" if "ml_forward m" for m using that by (simp add: ml_forward_def)
  show "ml_forward (remove_MountList m k)" if "ml_forward m" for m k
    using that by (simp add: ml_forward_def remove_ok)
  show "insert_MountList m k = (1, m)" if "ml_forward m" "k \<in> mounts_of m" for m k
    using that insert_dup by (simp add: ml_forward_def)
  show "\<exists>m'. insert_MountList m k = (0, m') \<and> ml_forward m' \<and> mounts_of m' = insert k (mounts_of m)"
    if "ml_forward m" "k \<notin> mounts_of m" "key_ok k" for m k
    using that insert_ready [of m k] by (fastforce simp: ml_forward_def order_after_insert_def)
qed

lemma ml_forward_empty [simp]: "ml_forward empty_MountList"
  by (simp add: ml_forward_def) (simp add: empty_MountList_def)

section \<open>Reading the mounts of the process\<close>

definition complete_line :: "cstring \<Rightarrow> bool" where
  "complete_line l \<longleftrightarrow> l \<noteq> [] \<and> last l = NL"

text \<open>The mount point a line names: its second column, when it has one.\<close>

definition line_target :: "cstring \<Rightarrow> cstring option" where
  "line_target l =
     (case strtok_all (\<lambda>c. c = CHR '' '') l of t # ptr # ts \<Rightarrow> Some ptr | _ \<Rightarrow> None)"

definition line_targets :: "cstring list \<Rightarrow> cstring set" where
  "line_targets ls = {p. \<exists>l\<in>set ls. line_target l = Some p}"

lemma strtok_all_NL: "NL \<in> set l \<Longrightarrow> strtok_all (\<lambda>c. c = CHR '' '') l \<noteq> []"
proof -
  have "\<exists>t\<in>set (split_on (\<lambda>c. c = CHR '' '') l). NL \<in> set t" if "NL \<in> set l"
    using that
  proof (induction l)
    case Nil
    then show ?case by simp
  next
    case (Cons c l)
    obtain u us where u: "split_on (\<lambda>c. c = CHR '' '') l = u # us"
      by (cases "split_on (\<lambda>c. c = CHR '' '') l") simp_all
    with Cons show ?case by (auto simp: NL_def)
  qed
  then show "NL \<in> set l \<Longrightarrow> strtok_all (\<lambda>c. c = CHR '' '') l \<noteq> []"
    by (fastforce simp: strtok_all_def filter_empty_conv)
qed

lemma parse_mount_lines_all:
  assumes "\<forall>l\<in>set ls. complete_line l \<and> (\<forall>p. line_target l = Some p \<longrightarrow> key_ok p)" "ml_forward m"
  shows "\<exists>m'. parse_mount_lines ls m = (0, m') \<and> ml_forward m' \<and> mounts_of m' = mounts_of m \<union> line_targets ls"
  using assms
proof (induction ls arbitrary: m)
  case Nil
  then show ?case by (simp add: line_targets_def)
next
  case (Cons l ls)
  have cl: "l \<noteq> []" "last l = NL" "NL \<in> set l"
    using Cons.prems(1) last_in_set [of l] by (auto simp: complete_line_def)
  have split: "line_targets (l # ls) = {p. line_target l = Some p} \<union> line_targets ls"
    by (auto simp: line_targets_def)
  obtain t ts where tok: "strtok_all (\<lambda>c. c = CHR '' '') l = t # ts"
    using strtok_all_NL [OF cl(3)] by (cases "strtok_all (\<lambda>c. c = CHR '' '') l") auto
  show ?case
  proof (cases ts)
    case Nil
    with Cons tok cl split show ?thesis by (simp add: line_target_def)
  next
    case (Cons p ps)
    then have lt: "line_target l = Some p" using tok by (simp add: line_target_def)
    then have "key_ok p" using Cons.prems(1) by simp
    note ins = mls.ins_total [OF \<open>ml_forward m\<close> this]
    obtain ret m1 where r: "insert_MountList m p = (ret, m1)" by fastforce
    with ins have "ret \<noteq> 2" "ml_forward m1" "mounts_of m1 = insert p (mounts_of m)" by auto
    with Cons.IH [of m1] Cons.prems(1) r tok Cons cl split lt show ?thesis by auto
  qed
qed

lemma parse_mount_lines_complete:
  "parse_mount_lines ls m = parse_mount_lines (takeWhile complete_line ls) m"
  by (induction ls m rule: parse_mount_lines.induct)
     (auto simp: complete_line_def Let_def split: list.splits prod.splits)

section \<open>Properties\<close>

text \<open>A list in forward order with two mounts, and one in reverse order, for the witnesses.\<close>

definition sample_list :: MountList where
  "sample_list =
     \<lparr>mountPointList = [''/a'', ''/c''], capacity = 10, mcount = 2, sorted_as = MOUNT_SORT_FORWARD\<rparr>"

definition sample_reverse :: MountList where
  "sample_reverse =
     \<lparr>mountPointList = [''/b'', ''/a''], capacity = 10, mcount = 2, sorted_as = MOUNT_SORT_REVERSE\<rparr>"

lemma sample_inv [simp]: "ml_inv sample_list" "ml_inv sample_reverse" "ml_forward sample_list"
  by (simp_all add: sample_list_def sample_reverse_def ml_inv_def ml_forward_def sa_wf_def order_ok_def
      less_eq_list_code less_list_code less_char_def)

lemma sample_mounts: "mounts_of sample_list = {''/a'', ''/c''}" "mounts_of sample_reverse = {''/a'', ''/b''}"
  by (auto simp: mounts_of_def sample_list_def sample_reverse_def)

text \<open>
  A lookup is exact in each of the three orders: the binary search of a sorted list and the
  linear search of an unsorted one return the index of the key, and NULL only when it is absent.
\<close>

theorem find_MountList_exact:
  assumes "ml_inv m"
  shows "(find_MountList m key = Some i \<longleftrightarrow> i < mcount m \<and> mountPointList m ! i = key) \<and>
         (find_MountList m key = None \<longleftrightarrow> key \<notin> mounts_of m)"
  using find_iff [OF assms] find_None_iff [OF assms] by auto

lemma find_MountList_exact_witness:
  "find_MountList sample_list ''/c'' = Some 1 \<and> find_MountList sample_list ''/b'' = None"
  using find_MountList_exact [of sample_list "''/c''" 1] find_MountList_exact [of sample_list "''/b''" 0]
  by (simp add: sample_mounts) (simp add: sample_list_def)



text \<open>
  Removing a mount point takes exactly that entry out, whatever the order of the list, and
  keeps the invariant and the order; removing an absent one changes nothing.
\<close>

theorem remove_MountList_correct:
  assumes "ml_inv m"
  shows "ml_inv (remove_MountList m k) \<and>
         mounts_of (remove_MountList m k) = mounts_of m - {k} \<and>
         sorted_as (remove_MountList m k) = sorted_as m \<and>
         find_MountList (remove_MountList m k) k = None"
  using remove_ok [OF assms] ml.not_mem_del [OF assms] by simp

lemma remove_MountList_correct_witness:
  "mounts_of (remove_MountList sample_reverse ''/b'') = {''/a''}"
  using remove_MountList_correct [of sample_reverse "''/b''"]
  by (auto simp: sample_mounts)

text \<open>
  Reading /proc/<pid>/mounts succeeds and adds exactly the second columns of its complete
  lines, without duplicates.
\<close>

theorem parse_MountList_targets:
  assumes "ml_forward m"
    and "\<forall>l\<in>set (file_lines contents). \<forall>p. line_target l = Some p \<longrightarrow> key_ok p"
  shows "\<exists>m'. parse_MountList (Some contents) m = (0, m') \<and> ml_inv m' \<and>
           mounts_of m' = mounts_of m \<union> line_targets (takeWhile complete_line (file_lines contents))"
proof -
  let ?ls = "takeWhile complete_line (file_lines contents)"
  have "\<forall>l\<in>set ?ls. complete_line l \<and> (\<forall>p. line_target l = Some p \<longrightarrow> key_ok p)"
    using assms(2) by (auto dest: set_takeWhileD)
  from parse_mount_lines_all [OF this assms(1)] show ?thesis
    using parse_mount_lines_complete [of "file_lines contents" m]
    by (auto simp: parse_MountList_def ml_forward_def)
qed

lemma parse_MountList_targets_witness:
  "\<exists>m'. parse_MountList (Some (''d /x ext4 rw 0 0'' @ [NL])) empty_MountList = (0, m') \<and> mounts_of m' = {''/x''}"
  using parse_MountList_targets [of empty_MountList "''d /x ext4 rw 0 0'' @ [NL]"]
  by (auto simp: NL_def line_target_def strtok_all_def key_ok_def line_targets_def complete_line_def)

text \<open>
  Inserting a new mount point into a list in reverse order reverses the list behind the new
  entry and marks it as sorted forward, whatever the new entry is.
\<close>

theorem insert_into_reverse_list:
  assumes "ml_inv m" "sorted_as m = MOUNT_SORT_REVERSE" "0 < mcount m" "k \<notin> mounts_of m" "key_ok k"
  shows "\<exists>m'. insert_MountList m k = (0, m') \<and> sorted_as m' = MOUNT_SORT_FORWARD \<and>
           mountPointList m' = k # rev (mountPointList m)"
proof -
  have o: "opened m = m" using assms(3) by (simp add: opened_def)
  have len: "length k \<noteq> 2 ^ 64 - 1" using assms(5) by (simp add: key_ok_def)
  show ?thesis
    using insert_new [OF assms(1,4) len] appended_wf [OF assms(1), of k] assms(2,3) o
      reverse_loop_rev [of "mountPointList (appended m k)"]
    by (simp add: setSort_MountList_def) (simp add: appended_def)
qed

lemma insert_into_reverse_list_witness:
  "\<exists>m'. insert_MountList sample_reverse ''/c'' = (0, m') \<and> \<not> ml_inv m' \<and>
        find_MountList m' ''/c'' = None"
proof -
  obtain m' where m': "insert_MountList sample_reverse ''/c'' = (0, m')"
      "sorted_as m' = MOUNT_SORT_FORWARD" "mountPointList m' = [''/c'', ''/a'', ''/b'']"
    using insert_into_reverse_list [of sample_reverse "''/c''"]
    by (auto simp: sample_mounts key_ok_def) (auto simp: sample_reverse_def)
  have "mcount m' = 3"
    using m'(1) by (auto simp: insert_MountList_def sample_reverse_def find_MountList_def
        sortMountReverse_def bsearch_loop.simps strcmp_def less_list_code less_char_def Let_def
        strncpy_StringArray_def MOUNT_ALLOC_BLOCK_def setSort_MountList_def split: if_splits)
  with m' have "find_MountList m' ''/c'' = None" "\<not> order_ok m'"
    by (simp_all add: find_MountList_def bsearch_loop.simps sortMountForward_def strcmp_def
        less_list_code less_eq_list_code less_char_def order_ok_def Let_def)
  with m' show ?thesis by (auto simp: ml_inv_def)
qed

end
