(* ===== verification/VolumeMap.thy ===== *)
theory VolumeMap
  imports Utility "HOL-Library.Log_Nat"
begin

unbundle bit_operations_syntax

text \<open>
  src/src/VolumeMap.c: the mount requests of the user and of the site. A request text is a list of
  \<open>from:to:flag:...\<close> entries; each is tokenised, filtered, checked against a policy and appended to
  the volume map together with a canonical text, from which the signature of the map is made.
\<close>

section \<open>Data\<close>

definition VOLUME_ALLOC_BLOCK :: nat where "VOLUME_ALLOC_BLOCK = 10"

text \<open>\<open>ssize_t\<close> values are kept as integers in the 64 bit range.\<close>

record VolMapPerNodeCacheConfig =
  cacheSize :: int
  blockSize :: int
  cmethod :: "cstring option"
  cfstype :: "cstring option"

text \<open>The tag of a flag decides whether its \<open>value\<close> pointer holds a cache configuration.\<close>

datatype VolumeMapFlag =
    FLAG_READONLY
  | FLAG_RECURSIVE
  | FLAG_PERNODECACHE VolMapPerNodeCacheConfig
  | FLAG_SLAVE
  | FLAG_PRIVATE

definition VOLMAP_FLAG_READONLY :: nat where "VOLMAP_FLAG_READONLY = 1"
definition VOLMAP_FLAG_RECURSIVE :: nat where "VOLMAP_FLAG_RECURSIVE = 2"
definition VOLMAP_FLAG_PERNODECACHE :: nat where "VOLMAP_FLAG_PERNODECACHE = 4"
definition VOLMAP_FLAG_SLAVE :: nat where "VOLMAP_FLAG_SLAVE = 8"
definition VOLMAP_FLAG_PRIVATE :: nat where "VOLMAP_FLAG_PRIVATE = 16"

lemmas volmap_flag_defs = VOLMAP_FLAG_READONLY_def VOLMAP_FLAG_RECURSIVE_def
  VOLMAP_FLAG_PERNODECACHE_def VOLMAP_FLAG_SLAVE_def VOLMAP_FLAG_PRIVATE_def

fun flag_type :: "VolumeMapFlag \<Rightarrow> nat" where
  "flag_type FLAG_READONLY = VOLMAP_FLAG_READONLY"
| "flag_type FLAG_RECURSIVE = VOLMAP_FLAG_RECURSIVE"
| "flag_type (FLAG_PERNODECACHE c) = VOLMAP_FLAG_PERNODECACHE"
| "flag_type FLAG_SLAVE = VOLMAP_FLAG_SLAVE"
| "flag_type FLAG_PRIVATE = VOLMAP_FLAG_PRIVATE"

record VolumeMap =
  vm_raw :: string_array
  vm_to :: string_array
  vm_from :: string_array
  vm_flags :: "VolumeMapFlag list option list"
  vm_n :: nat
  vm_flagsCapacity :: nat

definition empty_VolumeMap :: VolumeMap where
  "empty_VolumeMap =
     \<lparr>vm_raw = sa_empty, vm_to = sa_empty, vm_from = sa_empty, vm_flags = [], vm_n = 0,
      vm_flagsCapacity = 0\<rparr>"

section \<open>Policy\<close>

text \<open>The loop over the flags: the code of the first refusal and the union of the types seen.\<close>

fun check_flags :: "nat \<Rightarrow> nat \<Rightarrow> VolumeMapFlag list \<Rightarrow> int \<times> nat" where
  "check_flags allowedFlags alreadySeenFlags [] = (0, alreadySeenFlags)"
| "check_flags allowedFlags alreadySeenFlags (f # fs) =
     (if flag_type f AND allowedFlags = 0 then (2, alreadySeenFlags)
      else if flag_type f AND alreadySeenFlags \<noteq> 0 then (3, alreadySeenFlags)
      else check_flags allowedFlags (alreadySeenFlags OR flag_type f) fs)"

definition validateVolumeMap ::
  "cstring option \<Rightarrow> cstring option \<Rightarrow> VolumeMapFlag list option \<Rightarrow> cstring list \<Rightarrow> cstring list \<Rightarrow>
   cstring list \<Rightarrow> cstring list \<Rightarrow> cstring list \<Rightarrow> nat \<Rightarrow> int" where
  "validateVolumeMap from to flags toExactAllowed toStartsWithDisallowed toExactDisallowed
     fromStartsWithDisallowed fromExactDisallowed allowedFlags =
     (case (from, to) of
        (Some f, Some t) \<Rightarrow>
          if sublist ''..'' f then 1
          else if sublist ''..'' t then 1
          else if f = [] \<or> hd f \<noteq> CHR ''/'' then 1
          else if t = [] \<or> hd t \<noteq> CHR ''/'' then 1
          else
            (let (ret, seen) = check_flags allowedFlags 0 (case flags of None \<Rightarrow> [] | Some fl \<Rightarrow> fl)
             in if ret \<noteq> 0 then ret
                else if seen AND VOLMAP_FLAG_SLAVE \<noteq> 0 \<and> seen AND VOLMAP_FLAG_PRIVATE \<noteq> 0 then 4
                else if \<exists>p\<in>set fromStartsWithDisallowed. prefix p f then 1
                else if f \<in> set fromExactDisallowed then 1
                else if t \<in> set toExactAllowed then 0
                else if \<exists>p\<in>set toStartsWithDisallowed. prefix p t then 1
                else if t \<in> set toExactDisallowed then 1
                else 0)
      | _ \<Rightarrow> 1)"

definition validateVolumeMap_userRequest ::
  "cstring option \<Rightarrow> cstring option \<Rightarrow> VolumeMapFlag list option \<Rightarrow> int" where
  "validateVolumeMap_userRequest from to flags =
     validateVolumeMap from to flags
       [''/var/tmp'']
       [''/etc'', ''/var'', ''etc'', ''var'', ''/opt/udiImage'', ''opt/udiImage'']
       [''/opt'', ''opt''] [] []
       (VOLMAP_FLAG_READONLY OR VOLMAP_FLAG_PERNODECACHE)"

definition validateVolumeMap_siteRequest ::
  "cstring option \<Rightarrow> cstring option \<Rightarrow> VolumeMapFlag list option \<Rightarrow> int" where
  "validateVolumeMap_siteRequest from to flags =
     validateVolumeMap from to flags
       [] []
       [''/opt'', ''opt'', ''/etc'', ''etc'', ''/var'', ''var'', ''/etc/passwd'', ''etc/passwd'',
        ''/etc/group'', ''etc/group'', ''/etc/nsswitch.conf'', ''etc/nsswitch.conf''] [] []
       (VOLMAP_FLAG_READONLY OR VOLMAP_FLAG_RECURSIVE OR VOLMAP_FLAG_PERNODECACHE OR
        VOLMAP_FLAG_SLAVE OR VOLMAP_FLAG_PRIVATE)"

definition validate_VolMapPerNodeCacheConfig :: "VolMapPerNodeCacheConfig \<Rightarrow> int" where
  "validate_VolMapPerNodeCacheConfig c =
     (if cacheSize c \<le> 0 then 2
      else if blockSize c \<le> 0 then 3
      else case cmethod c of
        None \<Rightarrow> 4
      | Some m \<Rightarrow>
          if m \<noteq> ''loop'' then 5
          else case cfstype c of
            None \<Rightarrow> 6
          | Some t \<Rightarrow> if t \<noteq> ''xfs'' then 7 else 0)"

section \<open>Tokens\<close>

text \<open>
  \<open>_findEndVolumeMapString\<close>: the entry up to the next semicolon, and the rest that starts with it.
\<close>

definition findEndVolumeMapString :: "cstring \<Rightarrow> cstring \<times> cstring" where
  "findEndVolumeMapString s = (takeWhile (\<lambda>c. c \<noteq> CHR '';'') s, dropWhile (\<lambda>c. c \<noteq> CHR '';'') s)"

text \<open>The pieces between colons; the loop stops when a piece would start at the end of the text.\<close>

definition tokenizeVolumeMapInput :: "cstring \<Rightarrow> cstring list" where
  "tokenizeVolumeMapInput input =
     (let pieces = split_on (\<lambda>c. c = CHR '':'') input
      in if last pieces = [] then butlast pieces else pieces)"

section \<open>Sizes\<close>

text \<open>
  \<open>strtod\<close>: white space, a sign, and a decimal number with an optional fraction and exponent, whose
  value is rounded to the nearest double. The hexadecimal, infinity and NaN forms are not covered
  (the scan of these stops at the letter). None is a value beyond the range of a double.
\<close>

definition pow2 :: "int \<Rightarrow> rat" where
  "pow2 s = (if 0 \<le> s then 2 ^ nat s else 1 / 2 ^ nat (- s))"

definition round_half_even :: "rat \<Rightarrow> int" where
  "round_half_even q =
     (let n = \<lfloor>q\<rfloor>; r = q - of_int n
      in if r < 1 / 2 \<or> r = 1 / 2 \<and> even n then n else n + 1)"

definition round_double :: "rat \<Rightarrow> rat" where
  "round_double q =
     (if q = 0 then 0
      else
        let (a, b) = quotient_of \<bar>q\<bar>;
            s0 = 52 - (int (floorlog 2 (nat a)) - int (floorlog 2 (nat b)));
            s = (if \<bar>q\<bar> * pow2 s0 < 2 ^ 52 then s0 + 1 else s0);
            v = of_int (round_half_even (\<bar>q\<bar> * pow2 s)) / pow2 s
        in if q < 0 then - v else v)"

definition double_limit :: rat where
  "double_limit = 2 ^ 1024"

definition strtod :: "cstring \<Rightarrow> rat option \<times> cstring" where
  "strtod s =
     (let t = dropWhile isspace s;
          neg = (t \<noteq> [] \<and> hd t = CHR ''-'');
          u = (if t \<noteq> [] \<and> (hd t = CHR ''-'' \<or> hd t = CHR ''+'') then tl t else t);
          ip = takeWhile isdigit u;
          u1 = dropWhile isdigit u;
          dot = (u1 \<noteq> [] \<and> hd u1 = CHR ''.'');
          fp = (if dot then takeWhile isdigit (tl u1) else []);
          u2 = (if dot then dropWhile isdigit (tl u1) else u1)
      in if ip = [] \<and> fp = [] then (Some 0, s)
         else
           let e1 = (if u2 \<noteq> [] \<and> (hd u2 = CHR ''e'' \<or> hd u2 = CHR ''E'') then tl u2 else []);
               eneg = (e1 \<noteq> [] \<and> hd e1 = CHR ''-'');
               e2 = (if e1 \<noteq> [] \<and> (hd e1 = CHR ''-'' \<or> hd e1 = CHR ''+'') then tl e1 else e1);
               ed = takeWhile isdigit e2;
               rest = (if ed = [] then u2 else dropWhile isdigit e2);
               m = of_nat (digits_val (ip @ fp)) / 10 ^ length fp;
               q = (if eneg then m / 10 ^ digits_val ed else m * 10 ^ digits_val ed);
               v = round_double (if neg then - q else q)
           in (if \<bar>v\<bar> < double_limit then Some v else None, rest))"

text \<open>
  The conversion of a double to \<open>ssize_t\<close>: the integer part, and the value that the processor
  gives for every double outside the range.
\<close>

definition double_to_ssize :: "rat option \<Rightarrow> int" where
  "double_to_ssize v =
     (case v of
        None \<Rightarrow> - (2 ^ 63)
      | Some a \<Rightarrow>
          let t = (if 0 \<le> a then \<lfloor>a\<rfloor> else - \<lfloor>- a\<rfloor>)
          in if - (2 ^ 63) \<le> t \<and> t < 2 ^ 63 then t else - (2 ^ 63))"

definition parseBytes :: "cstring option \<Rightarrow> int" where
  "parseBytes input =
     (case input of
        None \<Rightarrow> -1
      | Some s \<Rightarrow>
          let (a, ptr) = strtod s;
              expLetter = (if ptr = [] then CHR ''b'' else tolower (hd ptr));
              k = length (takeWhile (\<lambda>c. c \<noteq> expLetter) ''bkmgtpe'')
          in if expLetter \<notin> set ''bkmgtpe'' then -1
             else double_to_ssize (map_option (\<lambda>x. x * 1024 ^ k) a))"

section \<open>Flags\<close>

text \<open>
  The key and value list of a flag is cut in place: at each step the first \<open>=\<close> and the first comma
  of the rest become NUL, in whichever order they come. \<open>nul\<close> tells that the text ends at such a
  NUL and not at the end of the flag.
\<close>

function kv_pairs :: "bool \<Rightarrow> cstring \<Rightarrow> (cstring \<times> cstring option) list" where
  "kv_pairs nul s =
     (if s = [] \<and> \<not> nul then []
      else
        case strchr_split (CHR '','') s of
          None \<Rightarrow>
            (case strchr_split (CHR ''='') s of
               None \<Rightarrow> [(s, None)]
             | Some (k, v) \<Rightarrow> [(k, Some v)])
        | Some (a, r) \<Rightarrow>
            (case strchr_split (CHR ''='') s of
               None \<Rightarrow> (a, None) # kv_pairs nul r
             | Some (k, v) \<Rightarrow>
                 if length k < length a then (k, Some (drop (length k + 1) a)) # kv_pairs nul r
                 else (a, Some v) # kv_pairs True (take (length k - length a - 1) r)))"
  by pat_completeness auto
termination
  by (relation "measure (\<lambda>(nul, s). length s)") (auto dest!: strchr_split_length)

declare kv_pairs.simps [simp del]

definition default_cache :: VolMapPerNodeCacheConfig where
  "default_cache =
     \<lparr>cacheSize = 0, blockSize = 1024 * 1024, cmethod = Some ''loop'', cfstype = Some ''xfs''\<rparr>"

text \<open>One pair of the perNodeCache flag; None when the flag is refused.\<close>

definition cache_pair ::
  "VolMapPerNodeCacheConfig \<Rightarrow> cstring \<times> cstring option \<Rightarrow> VolMapPerNodeCacheConfig option" where
  "cache_pair cache kv =
     (let (key, value) = kv
      in if strcasecmp_eq key ''size'' then
           (let v = parseBytes value in if v \<le> 0 then None else Some (cache\<lparr>cacheSize := v\<rparr>))
         else if strcasecmp_eq key ''fs'' then
           (case value of
              None \<Rightarrow> None
            | Some v \<Rightarrow> if strcasecmp_eq v ''xfs'' then Some (cache\<lparr>cfstype := Some ''xfs''\<rparr>) else None)
         else if strcasecmp_eq key ''bs'' then
           (let v = parseBytes value in if v \<le> 0 then None else Some (cache\<lparr>blockSize := v\<rparr>))
         else if strcasecmp_eq key ''method'' then
           (case value of
              None \<Rightarrow> None
            | Some v \<Rightarrow> if strcasecmp_eq v ''loop'' then Some (cache\<lparr>cmethod := Some ''loop''\<rparr>) else None)
         else Some cache)"

fun cache_pairs ::
  "VolMapPerNodeCacheConfig \<Rightarrow> (cstring \<times> cstring option) list \<Rightarrow> VolMapPerNodeCacheConfig option" where
  "cache_pairs cache [] = Some cache"
| "cache_pairs cache (kv # kvs) =
     (case cache_pair cache kv of None \<Rightarrow> None | Some cache' \<Rightarrow> cache_pairs cache' kvs)"

text \<open>The flag that a text names; None when it is refused. An empty text is no flag.\<close>

definition read_flag :: "cstring \<Rightarrow> VolumeMapFlag option" where
  "read_flag flagStr =
     (let (flagName, kvs) = (case strchr_split (CHR ''='') flagStr of
            None \<Rightarrow> (flagStr, []) | Some (n, r) \<Rightarrow> (n, kv_pairs False r))
      in if strcasecmp_eq flagName ''ro'' then (if kvs = [] then Some FLAG_READONLY else None)
         else if strcasecmp_eq flagName ''rec'' then (if kvs = [] then Some FLAG_RECURSIVE else None)
         else if strcasecmp_eq flagName ''perNodeCache'' then
           (case cache_pairs default_cache kvs of
              None \<Rightarrow> None
            | Some c \<Rightarrow> if validate_VolMapPerNodeCacheConfig c \<noteq> 0 then None
                        else Some (FLAG_PERNODECACHE c))
         else if strcasecmp_eq flagName ''slave'' then (if kvs = [] then Some FLAG_SLAVE else None)
         else if strcasecmp_eq flagName ''private'' then (if kvs = [] then Some FLAG_PRIVATE else None)
         else None)"

definition parseFlag ::
  "cstring \<Rightarrow> VolumeMapFlag list option \<Rightarrow> int \<times> VolumeMapFlag list option" where
  "parseFlag flagStr flags =
     (if flagStr = [] then (0, flags)
      else case read_flag flagStr of
        None \<Rightarrow> (1, flags)
      | Some f \<Rightarrow> (0, Some ((case flags of None \<Rightarrow> [] | Some fl \<Rightarrow> fl) @ [f])))"

fun parse_flags :: "cstring list \<Rightarrow> VolumeMapFlag list option \<Rightarrow> int \<times> VolumeMapFlag list option" where
  "parse_flags [] flags = (0, flags)"
| "parse_flags (t # ts) flags =
     (let (ret, flags') = parseFlag t flags
      in if ret \<noteq> 0 then (1, flags') else parse_flags ts flags')"

section \<open>Requests\<close>

text \<open>The text of a flag in the canonical entry; \<open>%lu\<close> prints the unsigned reading of a size.\<close>

definition show_lu :: "int \<Rightarrow> cstring" where
  "show_lu v = show_nat (nat (v mod 2 ^ 64))"

definition show_str :: "cstring option \<Rightarrow> cstring" where
  "show_str s = (case s of None \<Rightarrow> ''(null)'' | Some t \<Rightarrow> t)"

fun flag_text :: "VolumeMapFlag \<Rightarrow> cstring" where
  "flag_text FLAG_READONLY = '':ro''"
| "flag_text FLAG_RECURSIVE = '':rec''"
| "flag_text FLAG_SLAVE = '':slave''"
| "flag_text FLAG_PRIVATE = '':private''"
| "flag_text (FLAG_PERNODECACHE c) =
     '':perNodeCache=size='' @ show_lu (cacheSize c) @ '',bs='' @ show_lu (blockSize c) @
     '',method='' @ show_str (cmethod c) @ '',fstype='' @ show_str (cfstype c)"

text \<open>The canonical text, through the growing buffer that starts with the exact block for \<open>from:to\<close>.\<close>

definition raw_buffer :: "cstring \<Rightarrow> cstring \<Rightarrow> VolumeMapFlag list \<Rightarrow> strbuf option outcome" where
  "raw_buffer from to flags =
     (let t = from @ '':'' @ to
      in strcatf_all \<lparr>sb_text = Some t, sb_len = length t, sb_cap = length t + 1\<rparr> (map flag_text flags))"

definition unquote :: "cstring \<Rightarrow> cstring" where
  "unquote tmp = (if tmp \<noteq> [] \<and> hd tmp = DQUOTE \<and> last tmp = DQUOTE then tl (butlast tmp) else tmp)"

type_synonym validator = "cstring option \<Rightarrow> cstring option \<Rightarrow> VolumeMapFlag list option \<Rightarrow> int"

text \<open>One entry: its filtered paths and sorted flags, None when it is refused.\<close>

definition read_entry ::
  "validator \<Rightarrow> bool \<Rightarrow> cstring \<Rightarrow> (cstring \<times> cstring \<times> VolumeMapFlag list option) option" where
  "read_entry validate_fp requireTo entry =
     (let tokens = tokenizeVolumeMapInput (unquote entry); ntokens = length tokens
      in if ntokens = 0 then None
         else
           let from = userInputPathFilter (Some (tokens ! 0)) True;
               to0 = userInputPathFilter (if 1 < ntokens then Some (tokens ! 1) else None) True;
               (ret, flags) = parse_flags (drop 2 tokens) None
           in if ret \<noteq> 0 then None
              else
                let to = (if ntokens = 1 \<and> \<not> requireTo then from else to0)
                in if validate_fp from to flags \<noteq> 0 then None
                   else case (from, to) of
                          (Some f, Some t) \<Rightarrow> Some (f, t, map_option (sort_key flag_type) flags)
                        | _ \<Rightarrow> None)"

text \<open>Appending an entry to the arrays of the map; the status and the map as it is left.\<close>

definition append_entry ::
  "cstring \<times> cstring \<times> VolumeMapFlag list option \<Rightarrow> VolumeMap \<Rightarrow> int \<times> VolumeMap" where
  "append_entry e vm =
     (case e of (from, to, flags) \<Rightarrow>
        let raw = (case raw_buffer from to (case flags of None \<Rightarrow> [] | Some fl \<Rightarrow> fl) of
                     Ret (Some sb) \<Rightarrow> Some (sb_string sb) | _ \<Rightarrow> None);
            (r1, raws, w1) = strncpy_StringArray raw (case raw of None \<Rightarrow> 0 | Some r \<Rightarrow> length r)
                               (vm_n vm) (vm_raw vm) VOLUME_ALLOC_BLOCK
        in if r1 \<noteq> 0 then (1, vm)
           else
             let (r2, tos, w2) = strncpy_StringArray (Some to) (length to) (vm_n vm) (vm_to vm) VOLUME_ALLOC_BLOCK
             in if r2 \<noteq> 0 then (1, vm\<lparr>vm_raw := raws\<rparr>)
                else
                  let (r3, froms, w3) =
                        strncpy_StringArray (Some from) (length from) (vm_n vm) (vm_from vm) VOLUME_ALLOC_BLOCK
                  in if r3 \<noteq> 0 then (1, vm\<lparr>vm_raw := raws, vm_to := tos\<rparr>)
                     else (0, \<lparr>vm_raw = raws, vm_to = tos, vm_from = froms,
                               vm_flags = take (vm_n vm) (vm_flags vm) @ [flags],
                               vm_n = vm_n vm + 1,
                               vm_flagsCapacity =
                                 (if vm_flagsCapacity vm \<le> vm_n vm
                                  then vm_flagsCapacity vm + VOLUME_ALLOC_BLOCK
                                  else vm_flagsCapacity vm)\<rparr>))"

text \<open>Entries that precede a refused one stay in the map.\<close>

function parse_entries :: "validator \<Rightarrow> bool \<Rightarrow> cstring \<Rightarrow> VolumeMap \<Rightarrow> int \<times> VolumeMap" where
  "parse_entries validate_fp requireTo ptr vm =
     (if ptr = [] then (0, vm)
      else
        let (entry, rest) = findEndVolumeMapString ptr
        in if entry = [] then parse_entries validate_fp requireTo (tl ptr) vm
           else case read_entry validate_fp requireTo entry of
                  None \<Rightarrow> (1, vm)
                | Some e \<Rightarrow>
                    let (ret, vm') = append_entry e vm
                    in if ret \<noteq> 0 then (1, vm')
                       else parse_entries validate_fp requireTo (drop (length entry + 1) ptr) vm')"
  by pat_completeness auto
termination
  by (relation "measure (\<lambda>(v, r, ptr, vm). length ptr)") auto

declare parse_entries.simps [simp del]

definition parseVolumeMap_with :: "validator \<Rightarrow> bool \<Rightarrow> cstring option \<Rightarrow> VolumeMap \<Rightarrow> int \<times> VolumeMap" where
  "parseVolumeMap_with validate_fp requireTo input vm =
     (case input of None \<Rightarrow> (1, vm) | Some s \<Rightarrow> parse_entries validate_fp requireTo s vm)"

definition parseVolumeMap :: "cstring option \<Rightarrow> VolumeMap \<Rightarrow> int \<times> VolumeMap" where
  "parseVolumeMap input vm = parseVolumeMap_with validateVolumeMap_userRequest True input vm"

definition parseVolumeMapSiteFs :: "cstring option \<Rightarrow> VolumeMap \<Rightarrow> int \<times> VolumeMap" where
  "parseVolumeMapSiteFs input vm = parseVolumeMap_with validateVolumeMap_siteRequest False input vm"

section \<open>Signature and print\<close>

text \<open>
  The signature is written into a block of \<open>limit\<close> bytes. \<open>snprintf\<close> writes at most the free bytes
  less one and returns the length it wanted; \<open>off\<close> is the write position, and the text is what the
  block holds up to its NUL.
\<close>

fun write_signature :: "nat \<Rightarrow> cstring list \<Rightarrow> cstring \<times> nat \<Rightarrow> cstring \<times> nat" where
  "write_signature limit [] st = st"
| "write_signature limit (r # rs) (buf, off) =
     write_signature limit rs
       (take off buf @ take (limit - off - 1) (r @ '';''), off + length r + 1)"

definition getVolMapSignature :: "VolumeMap \<Rightarrow> cstring option \<times> VolumeMap" where
  "getVolMapSignature vm =
     (if vm_n vm = 0 then (None, vm)
      else
        let raws = sort (sa_items (vm_raw vm));
            limit = sum_list (map length raws) + vm_n vm;
            (buf, off) = write_signature limit raws ([], 0)
        in (Some (take (off - 1) buf), vm\<lparr>vm_raw := (vm_raw vm)\<lparr>sa_items := raws\<rparr>\<rparr>))"

fun flag_print :: "VolumeMapFlag \<Rightarrow> cstring" where
  "flag_print FLAG_READONLY = ''read-only''"
| "flag_print FLAG_RECURSIVE = ''recursive''"
| "flag_print FLAG_SLAVE = ''slave''"
| "flag_print FLAG_PRIVATE = ''private''"
| "flag_print (FLAG_PERNODECACHE c) =
     ''perNodeCache (size='' @ show_int (cacheSize c) @ '', blocksize='' @ show_int (blockSize c) @
     '', method='' @ show_str (cmethod c) @ '', fstype='' @ show_str (cfstype c) @ '')''"

definition fprint_VolumeMap :: "VolumeMap option \<Rightarrow> cstring" where
  "fprint_VolumeMap volMap =
     (case volMap of
        None \<Rightarrow> ''Volume Map: 0 maps'' @ [NL]
      | Some vm \<Rightarrow>
          ''Volume Map: '' @ show_nat (vm_n vm) @ '' maps'' @ [NL] @
          concat (map (\<lambda>i.
            ''FROM: '' @ (sa_items (vm_from vm) ! i) @ '', TO: '' @ (sa_items (vm_to vm) ! i) @ '', FLAGS: '' @
            (case vm_flags vm ! i of
               None \<Rightarrow> ''None''
             | Some fl \<Rightarrow> join_with '', '' (map flag_print fl)) @ [NL]) [0..<vm_n vm]))"

section \<open>Flag sets\<close>

fun flag_bit :: "VolumeMapFlag \<Rightarrow> nat" where
  "flag_bit FLAG_READONLY = 0"
| "flag_bit FLAG_RECURSIVE = 1"
| "flag_bit (FLAG_PERNODECACHE c) = 2"
| "flag_bit FLAG_SLAVE = 3"
| "flag_bit FLAG_PRIVATE = 4"

lemma flag_type_bit: "flag_type f = 2 ^ flag_bit f"
  by (cases f) (simp_all add: volmap_flag_defs)

lemma and_flag_type: "flag_type f AND n = 0 \<longleftrightarrow> \<not> bit n (flag_bit f)"
  by (simp add: flag_type_bit and.commute [of _ n] and_exp_eq_0_iff_not_bit)

lemma bit_or_flag_type: "bit (n OR flag_type f) i \<longleftrightarrow> bit n i \<or> flag_bit f = i"
  by (auto simp: flag_type_bit bit_or_iff bit_exp_iff)

text \<open>The flags pass when each is allowed and none occurs twice; the union then has their bits.\<close>

lemma check_flags_zero:
  "fst (check_flags allowed seen fs) = 0 \<longleftrightarrow>
     (\<forall>f\<in>set fs. bit allowed (flag_bit f) \<and> \<not> bit seen (flag_bit f)) \<and> distinct (map flag_bit fs)"
  by (induction fs arbitrary: seen) (auto simp: and_flag_type bit_or_flag_type)

lemma check_flags_seen:
  "fst (check_flags allowed seen fs) = 0 \<Longrightarrow>
   bit (snd (check_flags allowed seen fs)) i \<longleftrightarrow> bit seen i \<or> i \<in> flag_bit ` set fs"
  by (induction fs arbitrary: seen) (auto simp: and_flag_type bit_or_flag_type split: if_splits)

lemma check_flags_codes: "fst (check_flags allowed seen fs) \<in> {0, 2, 3}"
  by (induction fs arbitrary: seen) auto

lemma distinct_flag_bit: "distinct (map flag_bit fs) \<longleftrightarrow> distinct (map flag_type fs)"
  by (simp add: distinct_map inj_on_def flag_type_bit)

definition flags_of :: "VolumeMapFlag list option \<Rightarrow> VolumeMapFlag list" where
  "flags_of flags = (case flags of None \<Rightarrow> [] | Some fl \<Rightarrow> fl)"

lemma flags_of_simps [simp]: "flags_of None = []" "flags_of (Some fl) = fl"
  by (simp_all add: flags_of_def)

section \<open>What the policies say\<close>

definition absolute_path :: "cstring \<Rightarrow> bool" where
  "absolute_path p \<longleftrightarrow> prefix ''/'' p \<and> \<not> sublist ''..'' p"

lemma absolute_path_hd: "absolute_path p \<longleftrightarrow> p \<noteq> [] \<and> hd p = CHR ''/'' \<and> \<not> sublist ''..'' p"
  by (cases p) (auto simp: absolute_path_def)

definition user_flag :: "VolumeMapFlag \<Rightarrow> bool" where
  "user_flag f \<longleftrightarrow> (case f of FLAG_READONLY \<Rightarrow> True | FLAG_PERNODECACHE c \<Rightarrow> True | _ \<Rightarrow> False)"

text \<open>Where a user may mount inside the container.\<close>

definition user_target :: "cstring \<Rightarrow> bool" where
  "user_target t \<longleftrightarrow>
     t = ''/var/tmp'' \<or>
     \<not> (prefix ''/etc'' t \<or> prefix ''/var'' t \<or> prefix ''/opt/udiImage'' t \<or> t = ''/opt'')"

definition user_mapping :: "cstring \<Rightarrow> cstring \<Rightarrow> VolumeMapFlag list \<Rightarrow> bool" where
  "user_mapping f t fl \<longleftrightarrow>
     absolute_path f \<and> absolute_path t \<and> user_target t \<and> distinct (map flag_type fl) \<and>
     (\<forall>x\<in>set fl. user_flag x)"

definition site_mapping :: "cstring \<Rightarrow> cstring \<Rightarrow> VolumeMapFlag list \<Rightarrow> bool" where
  "site_mapping f t fl \<longleftrightarrow>
     absolute_path f \<and> absolute_path t \<and> distinct (map flag_type fl) \<and>
     t \<notin> {''/opt'', ''/etc'', ''/var'', ''/etc/passwd'', ''/etc/group'', ''/etc/nsswitch.conf''} \<and>
     \<not> (FLAG_SLAVE \<in> set fl \<and> FLAG_PRIVATE \<in> set fl)"

lemma flag_bit_slave: "3 \<in> flag_bit ` set fl \<longleftrightarrow> FLAG_SLAVE \<in> set fl"
  and flag_bit_private: "4 \<in> flag_bit ` set fl \<longleftrightarrow> FLAG_PRIVATE \<in> set fl"
proof -
  have "flag_bit f = 3 \<longleftrightarrow> f = FLAG_SLAVE" "flag_bit f = 4 \<longleftrightarrow> f = FLAG_PRIVATE" for f
    by (cases f; simp)+
  then show "3 \<in> flag_bit ` set fl \<longleftrightarrow> FLAG_SLAVE \<in> set fl" "4 \<in> flag_bit ` set fl \<longleftrightarrow> FLAG_PRIVATE \<in> set fl"
    by (metis image_iff)+
qed

lemma validate_zero:
  "validateVolumeMap (Some f) (Some t) flags ea sd ed fs fe allowed = 0 \<longleftrightarrow>
     absolute_path f \<and> absolute_path t \<and>
     (\<forall>x\<in>set (flags_of flags). bit allowed (flag_bit x)) \<and> distinct (map flag_type (flags_of flags)) \<and>
     \<not> (FLAG_SLAVE \<in> set (flags_of flags) \<and> FLAG_PRIVATE \<in> set (flags_of flags)) \<and>
     (\<forall>p\<in>set fs. \<not> prefix p f) \<and> f \<notin> set fe \<and>
     (t \<in> set ea \<or> (\<forall>p\<in>set sd. \<not> prefix p t) \<and> t \<notin> set ed)"
proof -
  define fl where "fl = flags_of flags"
  obtain ret seen where cf: "check_flags allowed 0 fl = (ret, seen)" by fastforce
  have z: "ret = 0 \<longleftrightarrow> (\<forall>x\<in>set fl. bit allowed (flag_bit x)) \<and> distinct (map flag_type fl)"
    using check_flags_zero [of allowed 0 fl] cf by (simp add: distinct_flag_bit)
  have s: "ret = 0 \<Longrightarrow> bit seen i \<longleftrightarrow> i \<in> flag_bit ` set fl" for i
    using check_flags_seen [of allowed 0 fl i] cf by simp
  have sl: "ret = 0 \<Longrightarrow> seen AND VOLMAP_FLAG_SLAVE \<noteq> 0 \<longleftrightarrow> FLAG_SLAVE \<in> set fl"
    using s [of 3] and_flag_type [of FLAG_SLAVE seen] by (simp add: flag_bit_slave and.commute)
  have pr: "ret = 0 \<Longrightarrow> seen AND VOLMAP_FLAG_PRIVATE \<noteq> 0 \<longleftrightarrow> FLAG_PRIVATE \<in> set fl"
    using s [of 4] and_flag_type [of FLAG_PRIVATE seen] by (simp add: flag_bit_private and.commute)
  have "check_flags allowed 0 (case flags of None \<Rightarrow> [] | Some fl \<Rightarrow> fl) = (ret, seen)"
    using cf by (simp add: fl_def flags_of_def)
  then show ?thesis
    unfolding validateVolumeMap_def fl_def [symmetric]
    using z sl pr by (cases "ret = 0") (auto simp: absolute_path_hd)
qed

lemma user_bits: "bit (VOLMAP_FLAG_READONLY OR VOLMAP_FLAG_PERNODECACHE) (flag_bit f) \<longleftrightarrow> user_flag f"
  by (cases f) (simp_all add: user_flag_def volmap_flag_defs bit_or_iff bit_iff_odd)

lemma site_bits:
  "bit (VOLMAP_FLAG_READONLY OR VOLMAP_FLAG_RECURSIVE OR VOLMAP_FLAG_PERNODECACHE OR
        VOLMAP_FLAG_SLAVE OR VOLMAP_FLAG_PRIVATE) (flag_bit f)"
  by (cases f) (simp_all add: volmap_flag_defs bit_or_iff bit_iff_odd)

lemma relative_not_absolute: "absolute_path t \<Longrightarrow> \<not> prefix (c # p) t \<or> c = CHR ''/''"
  by (cases t) (auto simp: absolute_path_def)

lemma user_validate:
  "validateVolumeMap_userRequest (Some f) (Some t) flags = 0 \<longleftrightarrow> user_mapping f t (flags_of flags)"
proof -
  have ns: "\<forall>x\<in>set (flags_of flags). user_flag x \<Longrightarrow> FLAG_SLAVE \<notin> set (flags_of flags)"
    by (auto simp: user_flag_def)
  show ?thesis
    unfolding validateVolumeMap_userRequest_def validate_zero user_bits user_mapping_def user_target_def
    using ns by (cases t) (auto simp: absolute_path_def)
qed

lemma site_validate:
  "validateVolumeMap_siteRequest (Some f) (Some t) flags = 0 \<longleftrightarrow> site_mapping f t (flags_of flags)"
proof (cases "absolute_path t")
  case True
  then have "t \<noteq> ''opt''" "t \<noteq> ''etc''" "t \<noteq> ''var''" "t \<noteq> ''etc/passwd''" "t \<noteq> ''etc/group''"
    "t \<noteq> ''etc/nsswitch.conf''"
    by (auto simp: absolute_path_def)
  with True show ?thesis
    unfolding validateVolumeMap_siteRequest_def validate_zero site_mapping_def
    by (simp only: site_bits list.set insert_iff empty_iff ball_simps simp_thms ball_triv) argo
next
  case False
  then show ?thesis
    unfolding validateVolumeMap_siteRequest_def validate_zero site_mapping_def by simp
qed

section \<open>Reading sizes\<close>

lemma quotient_of_nat: "quotient_of (of_nat n) = (int n, 1)"
  using quotient_of_int [of "int n"] by simp

lemma floorlog_bounds: "0 < n \<Longrightarrow> 2 ^ (floorlog 2 n - 1) \<le> n \<and> n < 2 ^ floorlog 2 n"
  using floorlog_bounds [of n 2] by simp

lemma round_half_even_int [simp]: "round_half_even (of_int i) = i"
  by (simp add: round_half_even_def)

lemma round_double_nat:
  assumes "n < 2 ^ 53"
  shows "round_double (of_nat n) = of_nat n"
proof (cases "n = 0")
  case True
  then show ?thesis by (simp add: round_double_def)
next
  case False
  define fl where "fl = floorlog 2 n"
  have b: "2 ^ (fl - 1) \<le> n" "n < 2 ^ fl" "0 < fl" using floorlog_bounds [of n] False
    by (auto simp: fl_def floorlog_def)
  have "fl \<le> 53"
  proof (rule ccontr)
    assume "\<not> fl \<le> 53"
    then have "(2::nat) ^ 53 \<le> 2 ^ (fl - 1)" by (intro power_increasing) auto
    with b(1) assms show False by simp
  qed
  define s where "s = 53 - int fl"
  have s: "0 \<le> s" using \<open>fl \<le> 53\<close> by (simp add: s_def)
  have fl1: "floorlog 2 (nat 1) = 1" by (simp add: floorlog_def)
  have q: "\<bar>of_nat n\<bar> * pow2 s = rat_of_int (int (n * 2 ^ nat s))" using s by (simp add: pow2_def)
  have e: "fl - 1 + nat s = 52" using \<open>fl \<le> 53\<close> b(3) by (simp add: s_def)
  have "(2::nat) ^ 52 = 2 ^ (fl - 1) * 2 ^ nat s"
    unfolding power_add [symmetric] e by simp
  also have "\<dots> \<le> n * 2 ^ nat s" using b(1) by simp
  finally have "rat_of_nat (2 ^ 52) \<le> rat_of_nat (n * 2 ^ nat s)" by (simp only: of_nat_le_iff)
  then have ge: "\<not> \<bar>of_nat n\<bar> * pow2 s < (2 ^ 52 :: rat)" unfolding q by simp
  have "of_int (round_half_even (\<bar>of_nat n\<bar> * pow2 s)) / pow2 s = rat_of_nat n"
    unfolding q by (simp only: round_half_even_int) (use s in \<open>simp add: pow2_def\<close>)
  then show ?thesis
    using False ge fl1
    by (simp add: round_double_def quotient_of_nat fl_def [symmetric] s_def Let_def)
qed

lemma strtod_show_nat:
  assumes "n < 2 ^ 53" "r = [] \<or> r = [l] \<or> r = l # r' \<and> l \<noteq> CHR ''e'' \<and> l \<noteq> CHR ''E''"
    and "r \<noteq> [] \<longrightarrow> \<not> isdigit l \<and> l \<noteq> CHR ''.''"
  shows "strtod (show_nat n @ r) = (Some (of_nat n), r)"
proof -
  define X where "X = show_nat n @ r"
  obtain c s where s: "show_nat n = c # s" by (cases "show_nat n") simp_all
  have c: "isdigit c" using show_nat_digits [of n] s by simp
  have X: "X \<noteq> []" "hd X = c" "dropWhile isspace X = X"
    using digit_not_space [OF c] by (simp_all add: X_def s)
  have r: "r = [] \<or> \<not> isdigit (hd r)" using assms(2,3) by auto
  have tw: "takeWhile isdigit X = show_nat n" "dropWhile isdigit X = r"
    using takeWhile_all_append [OF show_nat_digits r] dropWhile_all_append [OF show_nat_digits r]
    by (simp_all add: X_def)
  have lt: "rat_of_nat n < double_limit"
  proof -
    have "n < 2 ^ 1024" using assms(1) by (rule order.strict_trans) (rule power_strict_increasing; simp)
    then have "rat_of_nat n < rat_of_nat (2 ^ 1024)" by (simp only: of_nat_less_iff)
    then show ?thesis by (simp only: double_limit_def of_nat_power of_nat_numeral)
  qed
  have nodot: "\<not> (r \<noteq> [] \<and> hd r = CHR ''.'')" using assms(2,3) by auto
  have noexp: "(if r \<noteq> [] \<and> (hd r = CHR ''e'' \<or> hd r = CHR ''E'') then tl r else []) = []"
    using assms(2) by auto
  have nil: "digits_val [] = 0" by (simp add: digits_val_def)
  have nosign: "c \<noteq> CHR ''-''" "c \<noteq> CHR ''+''" using digit_not_sign [OF c] by auto
  have "strtod X = (Some (of_nat n), r)"
    unfolding strtod_def X(3)
    by (simp only: Let_def X(2) nosign tw nodot noexp nil simp_thms if_False if_True list.size takeWhile.simps
        show_nat_not_Nil append_Nil2 power_0 div_by_1 mult_1_right list.map)
       (simp add: round_double_nat [OF assms(1)] lt)
  then show ?thesis by (simp add: X_def)
qed

lemma double_to_ssize_int: "0 \<le> i \<Longrightarrow> i < 2 ^ 63 \<Longrightarrow> double_to_ssize (Some (of_int i)) = i"
  by (simp add: double_to_ssize_def Let_def)

lemma tolower_digit: "isdigit l \<Longrightarrow> tolower l = l"
  by (auto simp: tolower_def char_class_defs)

lemma parseBytes_scaled:
  assumes "n < 2 ^ 53" "k < 7" "tolower l = ''bkmgtpe'' ! k" "n * 1024 ^ k < 2 ^ 63"
    and "k < 6 \<or> r' = []"
  shows "parseBytes (Some (show_nat n @ l # r')) = int (n * 1024 ^ k)"
proof -
  have k: "k \<in> {0, 1, 2, 3, 4, 5, 6}" using assms(2) by auto
  have nd: "\<not> isdigit l" using k assms(3) tolower_digit [of l] by (auto simp: char_class_defs)
  have "tolower (CHR ''.'') = CHR ''.''" by (simp add: tolower_def char_class_defs)
  then have np: "l \<noteq> CHR ''.''" using k assms(3) by auto
  have "tolower (CHR ''e'') = CHR ''e''" "tolower (CHR ''E'') = CHR ''e''"
    by (simp_all add: tolower_eval)
  then have "l \<noteq> CHR ''e'' \<and> l \<noteq> CHR ''E''" if "k < 6" using k assms(3) that by auto
  then have sd: "strtod (show_nat n @ l # r') = (Some (of_nat n), l # r')"
    using strtod_show_nat [of n "l # r'" l r'] assms(1,5) nd np by auto
  have tw: "length (takeWhile (\<lambda>c. c \<noteq> tolower l) ''bkmgtpe'') = k" "tolower l \<in> set ''bkmgtpe''"
    using k assms(3) by auto
  have "double_to_ssize (Some (of_nat n * 1024 ^ k)) = int (n * 1024 ^ k)"
  proof -
    have "(of_nat n * 1024 ^ k :: rat) = of_int (int (n * 1024 ^ k))" by simp
    moreover have "int (n * 1024 ^ k) < 2 ^ 63" using assms(4) by (metis of_nat_less_iff of_nat_numeral of_nat_power)
    ultimately show ?thesis using double_to_ssize_int [of "int (n * 1024 ^ k)"] by simp
  qed
  then show ?thesis using tw(2)
    by (simp only: parseBytes_def option.case Let_def sd prod.case list.distinct list.sel if_False tw
        simp_thms option.map)
qed

lemma parseBytes_plain:
  assumes "n < 2 ^ 53"
  shows "parseBytes (Some (show_nat n)) = int n"
proof -
  have "strtod (show_nat n) = (Some (of_nat n), [])"
    using strtod_show_nat [of n "[]"] assms by simp
  moreover have "double_to_ssize (Some (of_nat n)) = int n"
  proof -
    have "(of_nat n :: rat) = of_int (int n)" by simp
    moreover have "int n < 2 ^ 63" using assms by simp
    ultimately show ?thesis using double_to_ssize_int [of "int n"] by simp
  qed
  ultimately show ?thesis by (simp add: parseBytes_def)
qed
section \<open>The entries of a map\<close>

text \<open>What the arrays of a map hold below \<open>n\<close>: from, to, flags and canonical text.\<close>

type_synonym map_entry = "cstring \<times> cstring \<times> VolumeMapFlag list option \<times> cstring"

definition vm_entries :: "VolumeMap \<Rightarrow> map_entry list" where
  "vm_entries vm =
     map (\<lambda>i. (sa_items (vm_from vm) ! i, sa_items (vm_to vm) ! i, vm_flags vm ! i, sa_items (vm_raw vm) ! i))
       [0..<vm_n vm]"

definition vm_wf :: "VolumeMap \<Rightarrow> bool" where
  "vm_wf vm \<longleftrightarrow>
     sa_wf (vm_raw vm) \<and> sa_wf (vm_to vm) \<and> sa_wf (vm_from vm) \<and>
     length (sa_items (vm_raw vm)) = vm_n vm \<and> length (sa_items (vm_to vm)) = vm_n vm \<and>
     length (sa_items (vm_from vm)) = vm_n vm \<and> length (vm_flags vm) = vm_n vm \<and>
     vm_n vm \<le> vm_flagsCapacity vm"

lemma empty_VolumeMap_wf [simp]: "vm_wf empty_VolumeMap" "vm_entries empty_VolumeMap = []"
  by (simp_all add: empty_VolumeMap_def vm_wf_def vm_entries_def sa_empty_def sa_wf_def)

definition raw_text :: "cstring \<Rightarrow> cstring \<Rightarrow> VolumeMapFlag list \<Rightarrow> cstring" where
  "raw_text from to fl = from @ '':'' @ to @ concat (map flag_text fl)"

lemma raw_buffer_text:
  "\<exists>sb. raw_buffer from to fl = Ret (Some sb) \<and> sb_string sb = raw_text from to fl"
proof -
  have "sb_wf \<lparr>sb_text = Some (from @ '':'' @ to), sb_len = length (from @ '':'' @ to),
               sb_cap = length (from @ '':'' @ to) + 1\<rparr>"
    by (simp add: sb_wf_def)
  from strcatf_all_append [OF this, of "map flag_text fl"] show ?thesis
    by (auto simp: raw_buffer_def raw_text_def Let_def sb_string_def)
qed

lemma strncpy_VOLUME:
  assumes "sa_wf arr" "length (sa_items arr) = n"
  shows "strncpy_StringArray (Some s) (length s) n arr VOLUME_ALLOC_BLOCK =
     (if length s = 2 ^ 64 - 1 then (1, arr, n)
      else (0, \<lparr>sa_items = sa_items arr @ [s], sa_capacity = grow_capacity (sa_capacity arr) n VOLUME_ALLOC_BLOCK\<rparr>,
            n + 1))"
  using assms by (auto simp: strncpy_StringArray_def sa_wf_def VOLUME_ALLOC_BLOCK_def)

lemma grown_wf:
  assumes "sa_wf arr" "length (sa_items arr) = n"
  shows "sa_wf \<lparr>sa_items = sa_items arr @ [s],
                sa_capacity = grow_capacity (sa_capacity arr) n VOLUME_ALLOC_BLOCK\<rparr>"
proof -
  have "n \<le> sa_capacity arr" using assms by (auto simp: sa_wf_def)
  from grow_capacity_ge [OF this, of VOLUME_ALLOC_BLOCK] show ?thesis
    using assms by (simp add: sa_wf_def VOLUME_ALLOC_BLOCK_def)
qed

definition fits :: "cstring \<Rightarrow> bool" where
  "fits s \<longleftrightarrow> length s \<noteq> 2 ^ 64 - 1"

text \<open>An append succeeds unless a text has the one length that the array refuses; it adds one entry.\<close>

lemma append_entry_result:
  assumes "vm_wf vm" and raw_def: "raw = raw_text from to (flags_of flags)"
  shows "\<exists>ret vm'. append_entry (from, to, flags) vm = (ret, vm') \<and>
    (if fits raw \<and> fits to \<and> fits from
     then ret = 0 \<and> vm_wf vm' \<and> vm_entries vm' = vm_entries vm @ [(from, to, flags, raw)]
     else ret = 1 \<and> vm_entries vm' = vm_entries vm)"
proof -
  obtain sb where sb: "raw_buffer from to (flags_of flags) = Ret (Some sb)" "sb_string sb = raw"
    using raw_buffer_text raw_def by blast
  then have rb: "raw_buffer from to (case flags of None \<Rightarrow> [] | Some fl \<Rightarrow> fl) = Ret (Some sb)"
    by (simp add: flags_of_def)
  note w = assms(1) [unfolded vm_wf_def]
  have copies:
    "strncpy_StringArray (Some s) (length s) (vm_n vm) arr VOLUME_ALLOC_BLOCK =
      (if fits s then (0, \<lparr>sa_items = sa_items arr @ [s],
          sa_capacity = grow_capacity (sa_capacity arr) (vm_n vm) VOLUME_ALLOC_BLOCK\<rparr>, vm_n vm + 1)
       else (1, arr, vm_n vm))"
    if "arr \<in> {vm_raw vm, vm_to vm, vm_from vm}" for s arr
    using strncpy_VOLUME [of arr "vm_n vm" s] that w by (auto simp: fits_def)
  have upt: "[0..<Suc (vm_n vm)] = [0..<vm_n vm] @ [vm_n vm]" by simp
  show ?thesis
  proof (cases "fits raw \<and> fits to \<and> fits from")
    case True
    with grown_wf [of "vm_raw vm" "vm_n vm" raw] grown_wf [of "vm_to vm" "vm_n vm" to]
      grown_wf [of "vm_from vm" "vm_n vm" "from"] w show ?thesis
      by (auto simp: append_entry_def rb sb(2) copies vm_wf_def vm_entries_def nth_append)
         (use VOLUME_ALLOC_BLOCK_def in linarith)
  next
    case False
    with w show ?thesis
      by (auto simp: append_entry_def rb sb(2) copies vm_entries_def nth_append)
  qed
qed

section \<open>Reading canonical texts\<close>

lemma kv_pairs_item:
  assumes "CHR '','' \<notin> set k" "CHR '','' \<notin> set v" "CHR ''='' \<notin> set k"
  shows "kv_pairs False (k @ CHR ''='' # v @ CHR '','' # r) = (k, Some v) # kv_pairs False r"
proof -
  have "strchr_split (CHR '','') ((k @ CHR ''='' # v) @ CHR '','' # r) = Some (k @ CHR ''='' # v, r)"
    by (rule strchr_split_append) (use assms in auto)
  moreover have "strchr_split (CHR ''='') (k @ CHR ''='' # v @ CHR '','' # r) = Some (k, v @ CHR '','' # r)"
    by (rule strchr_split_append) (use assms in auto)
  ultimately show ?thesis
    by (subst kv_pairs.simps) simp
qed

lemma kv_pairs_last:
  assumes "CHR '','' \<notin> set k" "CHR '','' \<notin> set v" "CHR ''='' \<notin> set k"
  shows "kv_pairs False (k @ CHR ''='' # v) = [(k, Some v)]"
  using assms strchr_split_append [of "CHR ''=''" k v]
  by (subst kv_pairs.simps) simp

definition cache_plain :: "VolMapPerNodeCacheConfig \<Rightarrow> bool" where
  "cache_plain c \<longleftrightarrow>
     cmethod c = Some ''loop'' \<and> cfstype c = Some ''xfs'' \<and>
     0 < cacheSize c \<and> cacheSize c < 2 ^ 53 \<and> 0 < blockSize c \<and> blockSize c < 2 ^ 53"

definition flag_plain :: "VolumeMapFlag \<Rightarrow> bool" where
  "flag_plain f \<longleftrightarrow> (case f of FLAG_PERNODECACHE c \<Rightarrow> cache_plain c | _ \<Rightarrow> True)"

lemma strcasecmp_refl [simp]: "strcasecmp_eq a a"
  by (simp add: strcasecmp_eq_def)

lemma strcasecmp_length: "length a \<noteq> length b \<Longrightarrow> \<not> strcasecmp_eq a b"
  by (auto simp: strcasecmp_eq_def dest: map_eq_imp_length_eq)

lemma digits_no_sep: "c \<in> set (show_nat n) \<Longrightarrow> c \<noteq> CHR '','' \<and> c \<noteq> CHR ''='' \<and> c \<noteq> CHR '';'' \<and> c \<noteq> CHR '':'' \<and> c \<noteq> DQUOTE"
  using show_nat_digits [of n] by (auto simp: char_class_defs special_char_defs)

lemma show_lu_small: "0 \<le> v \<Longrightarrow> v < 2 ^ 64 \<Longrightarrow> show_lu v = show_nat (nat v)"
  by (simp add: show_lu_def)

lemma cache_text_pairs:
  assumes "cache_plain c"
  shows "flag_text (FLAG_PERNODECACHE c) = CHR '':'' # ''perNodeCache'' @ CHR ''='' #
    (''size'' @ CHR ''='' # show_nat (nat (cacheSize c)) @ CHR '','' #
     ''bs'' @ CHR ''='' # show_nat (nat (blockSize c)) @ CHR '','' #
     ''method'' @ CHR ''='' # ''loop'' @ CHR '','' # ''fstype'' @ CHR ''='' # ''xfs'')"
  using assms by (simp add: cache_plain_def show_lu_small show_str_def)

lemma read_cache_text:
  assumes "cache_plain c"
  shows "read_flag (tl (flag_text (FLAG_PERNODECACHE c))) = Some (FLAG_PERNODECACHE c)"
proof -
  define n m where "n = nat (cacheSize c)" "m = nat (blockSize c)"
  have nm: "0 < n" "n < 2 ^ 53" "0 < m" "m < 2 ^ 53" "int n = cacheSize c" "int m = blockSize c"
    using assms by (auto simp: n_m_def cache_plain_def nat_less_iff)
  have cm: "CHR '','' \<notin> set (show_nat n)" "CHR '','' \<notin> set (show_nat m)"
    using digits_no_sep by blast+
  define r4 where "r4 = ''fstype'' @ CHR ''='' # ''xfs''"
  define r3 where "r3 = ''method'' @ CHR ''='' # ''loop'' @ CHR '','' # r4"
  define r2 where "r2 = ''bs'' @ CHR ''='' # show_nat m @ CHR '','' # r3"
  define r where "r = ''size'' @ CHR ''='' # show_nat n @ CHR '','' # r2"
  have "kv_pairs False r = (''size'', Some (show_nat n)) # kv_pairs False r2"
    unfolding r_def by (rule kv_pairs_item) (simp_all add: cm)
  moreover have "kv_pairs False r2 = (''bs'', Some (show_nat m)) # kv_pairs False r3"
    unfolding r2_def by (rule kv_pairs_item) (simp_all add: cm)
  moreover have "kv_pairs False r3 = (''method'', Some ''loop'') # kv_pairs False r4"
    unfolding r3_def by (rule kv_pairs_item) simp_all
  moreover have "kv_pairs False r4 = [(''fstype'', Some ''xfs'')]"
    unfolding r4_def by (rule kv_pairs_last) simp_all
  ultimately have kv: "kv_pairs False r = [(''size'', Some (show_nat n)), (''bs'', Some (show_nat m)),
      (''method'', Some ''loop''), (''fstype'', Some ''xfs'')]" by simp
  have names: "\<not> strcasecmp_eq ''bs'' ''fs''" "\<not> strcasecmp_eq ''fstype'' ''method''"
    by (simp_all add: strcasecmp_eq_def tolower_eval)
  have lens: "\<not> strcasecmp_eq ''perNodeCache'' ''ro''" "\<not> strcasecmp_eq ''perNodeCache'' ''rec''"
    "\<not> strcasecmp_eq ''bs'' ''size''" "\<not> strcasecmp_eq ''method'' ''size''"
    "\<not> strcasecmp_eq ''method'' ''fs''" "\<not> strcasecmp_eq ''method'' ''bs''"
    "\<not> strcasecmp_eq ''fstype'' ''size''" "\<not> strcasecmp_eq ''fstype'' ''fs''"
    "\<not> strcasecmp_eq ''fstype'' ''bs''"
    by (rule strcasecmp_length; simp)+
  have cfg: "cache_pairs default_cache (kv_pairs False r) = Some c"
    using nm parseBytes_plain [of n] parseBytes_plain [of m] assms
    by (cases c) (simp add: kv cache_pair_def names lens default_cache_def cache_plain_def)
  have "tl (flag_text (FLAG_PERNODECACHE c)) = ''perNodeCache'' @ CHR ''='' # r"
    using cache_text_pairs [OF assms] by (simp add: n_m_def r_def r2_def r3_def r4_def)
  moreover have "strchr_split (CHR ''='') (''perNodeCache'' @ CHR ''='' # r) = Some (''perNodeCache'', r)"
    by (rule strchr_split_append) simp
  moreover have "validate_VolMapPerNodeCacheConfig c = 0"
    using assms by (simp add: validate_VolMapPerNodeCacheConfig_def cache_plain_def)
  ultimately show ?thesis
    by (simp only: read_flag_def Let_def prod.case option.case lens cfg if_False if_True simp_thms
        strcasecmp_refl)
qed

lemma read_flag_text:
  assumes "flag_plain f"
  shows "read_flag (tl (flag_text f)) = Some f"
proof (cases f)
  case (FLAG_PERNODECACHE c)
  with assms read_cache_text [of c] show ?thesis by (simp only: flag_plain_def VolumeMapFlag.case)
qed (simp_all add: read_flag_def strcasecmp_length Let_def)

lemma flag_text_token:
  "flag_plain f \<Longrightarrow> flag_text f = CHR '':'' # tl (flag_text f) \<and> tl (flag_text f) \<noteq> [] \<and>
     (\<forall>c\<in>set (tl (flag_text f)). c \<noteq> CHR '':'' \<and> c \<noteq> CHR '';'' \<and> c \<noteq> DQUOTE)"
  using digits_no_sep
  by (cases f) (auto simp: flag_plain_def cache_plain_def show_lu_small show_str_def special_char_defs)

lemma raw_text_join:
  "\<forall>x\<in>set fl. flag_plain x \<Longrightarrow>
   raw_text f t fl = join_with '':'' (f # t # map (\<lambda>x. tl (flag_text x)) fl)"
proof -
  have "\<forall>x\<in>set fl. flag_plain x \<Longrightarrow>
    p @ concat (map flag_text fl) = join_with '':'' (p # map (\<lambda>x. tl (flag_text x)) fl)" for p
  proof (induction fl arbitrary: p)
    case Nil
    then show ?case by simp
  next
    case (Cons x fl)
    from Cons.prems have "flag_text x = CHR '':'' # tl (flag_text x)" using flag_text_token by simp
    then obtain tx where tx: "flag_text x = CHR '':'' # tx" by blast
    from Cons.IH [of tx] Cons.prems show ?case by (simp add: tx)
  qed
  from this [of t] show "\<forall>x\<in>set fl. flag_plain x \<Longrightarrow> ?thesis" by (simp add: raw_text_def)
qed

lemma tokens_raw:
  assumes "\<forall>x\<in>set fl. flag_plain x" "CHR '':'' \<notin> set f" "CHR '':'' \<notin> set t" "t \<noteq> []"
  shows "tokenizeVolumeMapInput (raw_text f t fl) = f # t # map (\<lambda>x. tl (flag_text x)) fl"
proof -
  let ?ts = "f # t # map (\<lambda>x. tl (flag_text x)) fl"
  have "\<forall>k\<in>set ?ts. \<forall>c\<in>set k. \<not> c = CHR '':''"
    using assms(1,2,3) flag_text_token by auto
  then have "split_on (\<lambda>c. c = CHR '':'') (raw_text f t fl) = ?ts"
    unfolding raw_text_join [OF assms(1)] by (rule split_on_join [OF list.distinct(2)]) simp
  moreover have "last ?ts \<noteq> []"
    using assms(1,4) flag_text_token by (cases fl rule: rev_cases) auto
  ultimately show ?thesis unfolding tokenizeVolumeMapInput_def Let_def by simp
qed

lemma parse_flags_texts:
  "\<forall>x\<in>set fl. flag_plain x \<Longrightarrow>
   parse_flags (map (\<lambda>x. tl (flag_text x)) fl) flags
   = (0, if fl = [] then flags else Some (flags_of flags @ fl))"
proof (induction fl arbitrary: flags)
  case Nil
  then show ?case by simp
next
  case (Cons x fl)
  have x: "read_flag (tl (flag_text x)) = Some x" "tl (flag_text x) \<noteq> []"
    using Cons.prems read_flag_text flag_text_token by auto
  have "parse_flags (map (\<lambda>x. tl (flag_text x)) (x # fl)) flags
      = parse_flags (map (\<lambda>x. tl (flag_text x)) fl) (Some (flags_of flags @ [x]))"
    using x by (simp add: parseFlag_def flags_of_def)
  also have "\<dots> = (0, Some (flags_of flags @ x # fl))"
    using Cons.IH [of "Some (flags_of flags @ [x])"] Cons.prems by simp
  finally show ?case by simp
qed

lemma raw_text_chars:
  assumes "\<forall>x\<in>set fl. flag_plain x" "\<forall>c\<in>set f \<union> set t. path_char_ok True c"
  shows "CHR '';'' \<notin> set (raw_text f t fl)" "unquote (raw_text f t fl) = raw_text f t fl"
proof -
  have fl: "\<forall>x\<in>set fl. \<forall>c\<in>set (flag_text x). c \<noteq> CHR '';'' \<and> c \<noteq> DQUOTE"
  proof
    fix x assume "x \<in> set fl"
    with assms(1) have "flag_plain x" by simp
    from flag_text_token [OF this] obtain tx where
      "flag_text x = CHR '':'' # tx" "\<forall>c\<in>set tx. c \<noteq> CHR '';'' \<and> c \<noteq> DQUOTE" by blast
    then show "\<forall>c\<in>set (flag_text x). c \<noteq> CHR '';'' \<and> c \<noteq> DQUOTE"
      by (simp add: DQUOTE_def)
  qed
  then have ch: "\<forall>c\<in>set (raw_text f t fl). c \<noteq> CHR '';'' \<and> c \<noteq> DQUOTE"
    using assms(2) path_char_no_sep by (fastforce simp: raw_text_def special_char_defs)
  then show "CHR '';'' \<notin> set (raw_text f t fl)" by blast
  have "hd (raw_text f t fl) \<noteq> DQUOTE" if "raw_text f t fl \<noteq> []"
    using ch hd_in_set [OF that] by blast
  then show "unquote (raw_text f t fl) = raw_text f t fl" by (auto simp: unquote_def)
qed

lemma filter_path_id: "\<forall>c\<in>set f. path_char_ok True c \<Longrightarrow> userInputPathFilter (Some f) True = Some f"
  by (simp add: userInputPathFilter_def)

lemma sort_key_sorted: "sorted (map k xs) \<Longrightarrow> sort_key k xs = xs"
  by (induction xs) (auto simp: insort_is_Cons)
section \<open>The interface between the parser and a policy\<close>

text \<open>
  The parser takes the policy as a function. All it relies on is that the function accepts exactly
  the legal mappings, that NULL paths are refused, and that legality does not depend on the order
  of the flags; whatever the policy is, the parser then adds legal mappings only.
\<close>

locale map_policy =
  fixes validate_fp :: validator
    and legal :: "cstring \<Rightarrow> cstring \<Rightarrow> VolumeMapFlag list \<Rightarrow> bool"
  assumes accepts: "validate_fp (Some f) (Some t) flags = 0 \<longleftrightarrow> legal f t (flags_of flags)"
    and refuses_null: "validate_fp None to flags \<noteq> 0" "validate_fp from None flags \<noteq> 0"
    and legal_perm: "legal f t fl \<Longrightarrow> mset fl' = mset fl \<Longrightarrow> legal f t fl'"
begin

definition good :: "map_entry \<Rightarrow> bool" where
  "good e \<longleftrightarrow>
     (case e of (f, t, flags, raw) \<Rightarrow>
        legal f t (flags_of flags) \<and> sorted (map flag_type (flags_of flags)) \<and>
        (\<forall>c\<in>set f \<union> set t. path_char_ok True c \<and> c \<noteq> CHR '':'') \<and>
        raw = raw_text f t (flags_of flags))"

lemma read_entry_legal:
  assumes "read_entry validate_fp requireTo entry = Some (f, t, flags)"
  shows "legal f t (flags_of flags) \<and> sorted (map flag_type (flags_of flags)) \<and>
         (\<forall>c\<in>set f \<union> set t. path_char_ok True c \<and> c \<noteq> CHR '':'')"
proof -
  define tokens where "tokens = tokenizeVolumeMapInput (unquote entry)"
  have tok: "\<forall>k\<in>set tokens. CHR '':'' \<notin> set k"
    using split_on_no_sep [of _ "\<lambda>c. c = CHR '':''" "unquote entry"]
    by (auto simp: tokens_def tokenizeVolumeMapInput_def Let_def dest: in_set_butlastD split: if_splits)
  obtain ret fl where pf: "parse_flags (drop 2 tokens) None = (ret, fl)" by fastforce
  from assms pf have ne: "tokens \<noteq> []" and ret: "ret = 0"
    by (auto simp: read_entry_def tokens_def [symmetric] Let_def split: if_splits)
  define frm where "frm = userInputPathFilter (Some (tokens ! 0)) True"
  define to where "to = (if length tokens = 1 \<and> \<not> requireTo then frm
      else userInputPathFilter (if 1 < length tokens then Some (tokens ! 1) else None) True)"
  from assms pf ret ne have v: "validate_fp frm to fl = 0" and
    ft: "frm = Some f" "to = Some t" "flags = map_option (sort_key flag_type) fl"
    by (auto simp: read_entry_def tokens_def [symmetric] frm_def to_def Let_def
        split: if_splits option.splits)
  have "legal f t (flags_of fl)" using v ft accepts by simp
  moreover have "mset (flags_of flags) = mset (flags_of fl)" "sorted (map flag_type (flags_of flags))"
    using ft(3) by (cases fl; simp)+
  moreover have tk: "\<forall>c\<in>set x. path_char_ok True c \<and> c \<noteq> CHR '':''"
    if "k \<in> set tokens" "userInputPathFilter (Some k) True = Some x" for k x
    using that tok by (auto simp: userInputPathFilter_def)
  have "\<forall>c\<in>set f. path_char_ok True c \<and> c \<noteq> CHR '':''"
    using tk [of "tokens ! 0" f] ft(1) ne by (simp add: frm_def)
  moreover have "\<forall>c\<in>set t. path_char_ok True c \<and> c \<noteq> CHR '':''"
  proof (cases "1 < length tokens")
    case True
    then show ?thesis using tk [of "tokens ! 1" t] ft(2) by (simp add: to_def)
  next
    case False
    then have "t = f" using ft(1,2) by (auto simp: to_def userInputPathFilter_def split: if_splits)
    with calculation show ?thesis by simp
  qed
  ultimately show ?thesis using legal_perm by auto
qed

text \<open>Whatever the outcome, the parser appends good entries only, and all of the old ones stay.\<close>

lemma parse_entries_good:
  assumes "vm_wf vm" "parse_entries validate_fp requireTo input vm = (ret, vm')"
  shows "(\<exists>new. vm_entries vm' = vm_entries vm @ new \<and> (\<forall>e\<in>set new. good e)) \<and> (ret = 0 \<longrightarrow> vm_wf vm')"
  using assms
proof (induction "length input" arbitrary: input vm rule: less_induct)
  case less
  show ?case
  proof (cases "input = []")
    case True
    with less.prems show ?thesis by (auto simp: parse_entries.simps)
  next
    case False
    obtain entry rest where fe: "findEndVolumeMapString input = (entry, rest)" by fastforce
    show ?thesis
    proof (cases "entry = []")
      case True
      with False fe less.prems(2) have "parse_entries validate_fp requireTo (tl input) vm = (ret, vm')"
        by (simp add: parse_entries.simps [of _ _ input])
      from less.hyps [OF _ less.prems(1) this] False show ?thesis by simp
    next
      case ent: False
      show ?thesis
      proof (cases "read_entry validate_fp requireTo entry")
        case None
        with False fe ent less.prems show ?thesis by (auto simp: parse_entries.simps [of _ _ input])
      next
        case (Some e)
        obtain f t flags where e: "e = (f, t, flags)" by (cases e)
        obtain r1 vm1 where a: "append_entry e vm = (r1, vm1)" by fastforce
        have g: "good (f, t, flags, raw_text f t (flags_of flags))"
          using read_entry_legal [OF Some [unfolded e]] by (simp add: good_def)
        note ap = append_entry_result [OF less.prems(1) refl, of f t flags] a [unfolded e]
        show ?thesis
        proof (cases "r1 = 0")
          case True
          with ap have vm1: "vm_wf vm1"
            "vm_entries vm1 = vm_entries vm @ [(f, t, flags, raw_text f t (flags_of flags))]"
            by (auto split: if_splits)
          from True False fe ent Some a less.prems(2)
          have "parse_entries validate_fp requireTo (drop (length entry + 1) input) vm1 = (ret, vm')"
            by (simp add: parse_entries.simps [of _ _ input])
          from less.hyps [OF _ vm1(1) this] False vm1(2) g show ?thesis by auto
        next
          case r: False
          with ap have "vm_entries vm1 = vm_entries vm" by (auto split: if_splits)
          with r False fe ent Some a less.prems(2) show ?thesis
            by (auto simp: parse_entries.simps [of _ _ input])
        qed
      qed
    qed
  qed
qed

text \<open>Entries whose text is canonical are read back from it, one by one and as a whole request.\<close>

definition canonical :: "map_entry \<Rightarrow> bool" where
  "canonical e \<longleftrightarrow>
     (case e of (f, t, flags, raw) \<Rightarrow>
        good e \<and> (\<forall>x\<in>set (flags_of flags). flag_plain x) \<and> flags \<noteq> Some [] \<and> t \<noteq> [] \<and>
        fits f \<and> fits t \<and> fits raw)"

lemma read_entry_canonical:
  assumes "canonical (f, t, flags, raw)"
  shows "read_entry validate_fp requireTo raw = Some (f, t, flags)"
proof -
  define fl where "fl = flags_of flags"
  have a: "legal f t fl" "sorted (map flag_type fl)" "raw = raw_text f t fl" "t \<noteq> []"
    "\<forall>x\<in>set fl. flag_plain x" "\<forall>c\<in>set f \<union> set t. path_char_ok True c"
    "CHR '':'' \<notin> set f" "CHR '':'' \<notin> set t" "flags = (if fl = [] then None else Some fl)"
    using assms by (auto simp: canonical_def good_def fl_def flags_of_def split: option.splits)
  have tok: "tokenizeVolumeMapInput (unquote raw) = f # t # map (\<lambda>x. tl (flag_text x)) fl"
    using tokens_raw [OF a(5,7,8,4)] raw_text_chars(2) [OF a(5,6)] a(3) by simp
  have flt: "userInputPathFilter (Some f) True = Some f" "userInputPathFilter (Some t) True = Some t"
    using a(6) filter_path_id by auto
  have pf: "parse_flags (map (\<lambda>x. tl (flag_text x)) fl) None = (0, flags)"
    using parse_flags_texts [OF a(5), of None] a(9) by simp
  have "validate_fp (Some f) (Some t) flags = 0" using accepts a(1) by (simp add: fl_def)
  moreover have "map_option (sort_key flag_type) flags = flags"
    using sort_key_sorted [OF a(2)] a(9) by simp
  ultimately show ?thesis
    by (simp add: read_entry_def tok flt pf Let_def)
qed

lemma parse_canonical:
  assumes "\<forall>e\<in>set es. canonical e" "vm_wf vm"
  shows "\<exists>vm'. parse_entries validate_fp requireTo (join_with '';'' (map (\<lambda>(f, t, flags, raw). raw) es)) vm
              = (0, vm') \<and> vm_wf vm' \<and> vm_entries vm' = vm_entries vm @ es"
  using assms
proof (induction es arbitrary: vm)
  case Nil
  then show ?case by (simp add: parse_entries.simps)
next
  case (Cons e es)
  obtain f t flags raw where e: "e = (f, t, flags, raw)" by (cases e)
  have can: "canonical (f, t, flags, raw)" using Cons.prems e by simp
  then have raw: "raw = raw_text f t (flags_of flags)" and "fits raw" "fits t" "fits f"
    and ns: "CHR '';'' \<notin> set raw"
    using raw_text_chars(1) by (auto simp: canonical_def good_def)
  have ne: "raw \<noteq> []" by (simp add: raw raw_text_def)
  obtain vm1 where a: "append_entry (f, t, flags) vm = (0, vm1)" "vm_wf vm1"
    "vm_entries vm1 = vm_entries vm @ [e]"
    using append_entry_result [OF Cons.prems(2) raw] \<open>fits raw\<close> \<open>fits t\<close> \<open>fits f\<close> e by auto
  define more where "more = join_with '';'' (map (\<lambda>(f, t, flags, raw). raw) es)"
  define input where "input = join_with '';'' (map (\<lambda>(f, t, flags, raw). raw) (e # es))"
  have input: "input = raw @ (if es = [] then [] else CHR '';'' # more)"
    by (cases es) (simp_all add: input_def more_def e split: prod.split)
  have fe: "fst (findEndVolumeMapString input) = raw" "drop (length raw + 1) input = more"
    using ns by (auto simp: findEndVolumeMapString_def input takeWhile_append more_def takeWhile_eq_all_conv)
  obtain rest where fr: "findEndVolumeMapString input = (raw, rest)"
    using fe(1) by (cases "findEndVolumeMapString input") simp
  have "input \<noteq> []" using ne input by simp
  have "parse_entries validate_fp requireTo input vm = parse_entries validate_fp requireTo more vm1"
    using fe(2) fr ne read_entry_canonical [OF can] a(1) \<open>input \<noteq> []\<close>
    by (subst parse_entries.simps) simp
  with Cons.IH [of vm1] Cons.prems a(2,3) show ?case
    unfolding input_def [symmetric] by (simp add: more_def)
qed

end

interpretation user: map_policy validateVolumeMap_userRequest user_mapping
proof unfold_locales
  show "user_mapping f t fl'" if "user_mapping f t fl" "mset fl' = mset fl" for f t fl fl'
    using that mset_eq_setD [OF that(2)] mset_eq_imp_distinct_iff [of "map flag_type fl'" "map flag_type fl"]
    by (auto simp: user_mapping_def)
  show "validateVolumeMap_userRequest (Some f) (Some t) flags = 0 \<longleftrightarrow> user_mapping f t (flags_of flags)" for f t flags
    by (rule user_validate)
  show "validateVolumeMap_userRequest None to flags \<noteq> 0" for to flags
    by (simp add: validateVolumeMap_userRequest_def validateVolumeMap_def)
  show "validateVolumeMap_userRequest from None flags \<noteq> 0" for "from" flags
    by (cases "from") (simp_all add: validateVolumeMap_userRequest_def validateVolumeMap_def)
qed

interpretation site: map_policy validateVolumeMap_siteRequest site_mapping
proof unfold_locales
  show "site_mapping f t fl'" if "site_mapping f t fl" "mset fl' = mset fl" for f t fl fl'
    using that mset_eq_setD [OF that(2)] mset_eq_imp_distinct_iff [of "map flag_type fl'" "map flag_type fl"]
    by (auto simp: site_mapping_def)
  show "validateVolumeMap_siteRequest (Some f) (Some t) flags = 0 \<longleftrightarrow> site_mapping f t (flags_of flags)" for f t flags
    by (rule site_validate)
  show "validateVolumeMap_siteRequest None to flags \<noteq> 0" for to flags
    by (simp add: validateVolumeMap_siteRequest_def validateVolumeMap_def)
  show "validateVolumeMap_siteRequest from None flags \<noteq> 0" for "from" flags
    by (cases "from") (simp_all add: validateVolumeMap_siteRequest_def validateVolumeMap_def)
qed

section \<open>The signature\<close>

lemma join_semicolon: "concat (map (\<lambda>r. r @ '';'') rs) = (if rs = [] then [] else join_with '';'' rs @ '';'')"
  by (induction "'';''" rs rule: join_with.induct) auto

lemma length_terminated: "length (concat (map (\<lambda>r. r @ '';'') rs)) = sum_list (map length rs) + length rs"
  by (induction rs) auto

text \<open>
  Each text is written whole, the last one without its semicolon, for which there is no room.
\<close>

lemma write_signature_text:
  "rs \<noteq> [] \<Longrightarrow> limit = length buf + sum_list (map length rs) + length rs \<Longrightarrow>
   write_signature limit rs (buf, length buf) = (buf @ join_with '';'' rs, limit)"
proof (induction rs arbitrary: buf)
  case Nil
  then show ?case by simp
next
  case (Cons r rs)
  show ?case
  proof (cases rs)
    case Nil
    with Cons.prems show ?thesis by simp
  next
    case (Cons r' rs')
    define b where "b = buf @ r @ '';''"
    have len: "length (r @ '';'') \<le> limit - length buf - 1"
      using Cons.prems(2) Cons by simp
    have "write_signature limit (r # rs) (buf, length buf) = write_signature limit rs (b, length b)"
      using len by (simp add: b_def)
    also have "\<dots> = (b @ join_with '';'' rs, limit)"
      using Cons.prems(2) Cons by (intro Cons.IH) (auto simp: b_def)
    finally show ?thesis using Cons by (simp add: b_def)
  qed
qed

lemma signature_join:
  assumes "vm_wf vm" "0 < vm_n vm"
  shows "fst (getVolMapSignature vm) = Some (join_with '';'' (sort (sa_items (vm_raw vm))))"
proof -
  define raws where "raws = sort (sa_items (vm_raw vm))"
  define limit where "limit = sum_list (map length raws) + vm_n vm"
  have len: "length raws = vm_n vm" using assms by (auto simp: raws_def vm_wf_def)
  then have "raws \<noteq> []" using assms(2) by auto
  note len = len this
  have w: "write_signature limit raws ([], 0) = (join_with '';'' raws, limit)"
    using write_signature_text [of raws limit "[]"] len by (simp add: limit_def)
  have "length (join_with '';'' raws) + 1 = limit"
    using arg_cong [OF join_semicolon, of length raws] len by (simp add: limit_def length_terminated)
  then show ?thesis
    using assms(2) w by (simp add: getVolMapSignature_def raws_def [symmetric] limit_def [symmetric] Let_def)
qed

section \<open>Properties\<close>

text \<open>What every entry that a policy let through looks like.\<close>

definition entry_safe :: "(cstring \<Rightarrow> cstring \<Rightarrow> VolumeMapFlag list \<Rightarrow> bool) \<Rightarrow> map_entry \<Rightarrow> bool" where
  "entry_safe legal e \<longleftrightarrow>
     (case e of (f, t, flags, raw) \<Rightarrow>
        legal f t (flags_of flags) \<and> sorted (map flag_type (flags_of flags)) \<and>
        (\<forall>c\<in>set f \<union> set t. path_char_ok True c \<and> c \<noteq> CHR '':'') \<and>
        raw = raw_text f t (flags_of flags))"

lemma good_safe: "user.good = entry_safe user_mapping" "site.good = entry_safe site_mapping"
  by (simp_all add: fun_eq_iff user.good_def site.good_def entry_safe_def)



text \<open>
  The two policies, as the acceptance condition of each: the user policy is \<open>user_mapping\<close>, and
  the site policy allows every flag but not slave together with private, and refuses the targets
  /opt, /etc, /var and the three account files of /etc themselves.
\<close>

theorem validateVolumeMap_policies:
  "(validateVolumeMap_userRequest (Some f) (Some t) flags = 0 \<longleftrightarrow> user_mapping f t (flags_of flags)) \<and>
   (validateVolumeMap_siteRequest (Some f) (Some t) flags = 0 \<longleftrightarrow> site_mapping f t (flags_of flags)) \<and>
   validateVolumeMap_userRequest None (Some t) flags = 1 \<and> validateVolumeMap_siteRequest (Some f) None flags = 1"
proof -
  have "validateVolumeMap_userRequest None (Some t) flags = 1" "validateVolumeMap_siteRequest (Some f) None flags = 1"
    by (simp_all add: validateVolumeMap_userRequest_def validateVolumeMap_siteRequest_def validateVolumeMap_def)
  then show ?thesis using user_validate site_validate by simp
qed


definition sample_cache :: VolMapPerNodeCacheConfig where
  "sample_cache =
     \<lparr>cacheSize = 4096, blockSize = 512, cmethod = Some ''loop'', cfstype = Some ''xfs''\<rparr>"

definition sample_entry :: map_entry where
  "sample_entry = (''/a'', ''/b'', Some [FLAG_READONLY, FLAG_PERNODECACHE sample_cache],
     raw_text ''/a'' ''/b'' [FLAG_READONLY, FLAG_PERNODECACHE sample_cache])"


text \<open>
  The signature of a map is its sorted canonical texts joined by semicolons, so two maps with
  the same entries in any order have the same signature; the block that the code allocates is
  filled exactly and never overrun.
\<close>

theorem getVolMapSignature_sorted_join:
  assumes "vm_wf vm" "0 < vm_n vm"
  shows "fst (getVolMapSignature vm) = Some (join_with '';'' (sort (sa_items (vm_raw vm)))) \<and>
    (\<forall>vm2. vm_wf vm2 \<and> mset (sa_items (vm_raw vm2)) = mset (sa_items (vm_raw vm)) \<longrightarrow>
       fst (getVolMapSignature vm2) = fst (getVolMapSignature vm)) \<and>
    snd (write_signature (sum_list (map length (sort (sa_items (vm_raw vm)))) + vm_n vm)
           (sort (sa_items (vm_raw vm))) ([], 0))
      = sum_list (map length (sort (sa_items (vm_raw vm)))) + vm_n vm"
proof -
  have n: "vm_n v = size (mset (sa_items (vm_raw v)))" if "vm_wf v" for v
    using that by (simp add: vm_wf_def)
  have ne: "sort (sa_items (vm_raw vm)) \<noteq> []" using n [OF assms(1)] assms(2)
    by (metis length_0_conv length_sort not_less_zero size_mset)
  have perm: "fst (getVolMapSignature vm2) = fst (getVolMapSignature vm)"
    if "vm_wf vm2" "mset (sa_items (vm_raw vm2)) = mset (sa_items (vm_raw vm))" for vm2
    using signature_join [OF that(1)] signature_join [OF assms] n [OF that(1)] n [OF assms(1)] that(2)
      assms(2) properties_for_sort [of "sort (sa_items (vm_raw vm))" "sa_items (vm_raw vm2)"]
    by simp
  show ?thesis
    using signature_join [OF assms] perm
      write_signature_text [OF ne, of "sum_list (map length (sort (sa_items (vm_raw vm)))) + vm_n vm" "[]"]
      n [OF assms(1)] by auto
qed

lemma getVolMapSignature_sorted_join_witness:
  "fst (getVolMapSignature (empty_VolumeMap\<lparr>vm_raw := \<lparr>sa_items = [''/b:/y'', ''/a:/x''], sa_capacity = 10\<rparr>,
     vm_to := \<lparr>sa_items = [''/y'', ''/x''], sa_capacity = 10\<rparr>,
     vm_from := \<lparr>sa_items = [''/b'', ''/a''], sa_capacity = 10\<rparr>, vm_flags := [None, None], vm_n := 2,
     vm_flagsCapacity := 10\<rparr>)) = Some ''/a:/x;/b:/y''"
  (is "fst (getVolMapSignature ?vm) = _")
  using getVolMapSignature_sorted_join [of ?vm]
  by (simp add: vm_wf_def sa_wf_def less_list_code less_eq_list_code less_char_def)

text \<open>
  A size is a number with an optional scale letter in either case: n, or n followed by the k-th
  letter of bkmgtpe, reads as n times 1024 to the k, exactly, when it fits; what follows the letter
  is ignored.
\<close>

theorem parseBytes_value:
  assumes "n < 2 ^ 53" "k < 7" "tolower l = ''bkmgtpe'' ! k" "n * 1024 ^ k < 2 ^ 63" "k < 6 \<or> r = []"
  shows "parseBytes (Some (show_nat n @ l # r)) = int (n * 1024 ^ k) \<and>
         parseBytes (Some (show_nat n)) = int n"
  using parseBytes_scaled [OF assms] parseBytes_plain [OF assms(1)] by simp

lemma parseBytes_value_witness:
  "parseBytes (Some ''500KB'') = 512000 \<and> parseBytes (Some ''500'') = 500"
  using parseBytes_value [of 500 1 "CHR ''K''" "''B''"]
  by (simp add: show_nat.simps digit_char_def tolower_eval char_of_def)

end
