(* ===== verification/Syscalls.thy ===== *)
theory Syscalls
  imports Utility "HOL-Library.State_Monad"
begin

text \<open>
  The operating system as the program sees it. A run of the program is a sequence of system calls;
  the answer to each is any function of the calls and answers before it, so a statement about all
  environments holds for every kernel, file system and scheduler. The state is the record of the
  calls made so far; the components are programs in the state monad over it, written call by call
  in the order of the source.
\<close>

section \<open>Calls and answers\<close>

datatype file_kind = KRegular | KDirectory | KSymlink | KOther

text \<open>\<open>st_mode\<close> holds the permission bits, \<open>st_kind\<close> the file type.\<close>

record stat_info =
  st_uid :: nat
  st_gid :: nat
  st_mode :: nat
  st_kind :: file_kind
  st_size :: nat
  st_dev :: nat

text \<open>An entry of the user data base.\<close>

record passwd =
  pw_name :: cstring
  pw_uid :: nat
  pw_gid :: nat
  pw_gecos :: cstring
  pw_dir :: cstring
  pw_shell :: cstring

definition S_IXUSR :: nat where "S_IXUSR = 64"
definition S_IWGRP :: nat where "S_IWGRP = 16"
definition S_IWOTH :: nat where "S_IWOTH = 2"

text \<open>
  \<open>ReadFile\<close> stands for opening a file, reading it to its end and closing it, \<open>WriteFile\<close> for
  creating it with a text; \<open>AppendFile\<close> is a write to the stream that \<open>CreateFile\<close> has opened.
  \<open>Fork\<close> starts a child that executes the arguments. \<open>ReadPasswd\<close> opens a file of user entries and
  reads them in order (\<open>fgetpwent\<close>). \<open>Setenv\<close> and \<open>Clearenv\<close> change the process's own environment.
  \<open>ForkSelf\<close> splits the process: the answer is 0 in the child and the child's id in the parent, and the
  record goes on as that of the process that has got the answer. \<open>HttpRequest\<close> is a transfer with an URL,
  headers and a text to post: the answer has the error of the transfer, the status of the response as
  \<open>r_errno\<close> and its headers, \<open>HttpBody\<close> the parts in which its text arrived. \<open>MungeEncode\<close> and
  \<open>MungeDecode\<close> are the calls of the munge library, \<open>LocalTime\<close> is a point in time (None is now) as
  text, \<open>SpankItem\<close> to \<open>StepdAddPid\<close> those of Slurm. \<open>PbsStatjob\<close> tells whether a job is known
  and the names of its attributes, \<open>PbsValues\<close> their values. What only the image gateway's client, the
  plugin for Slurm or the tools for Torque ask for is a type of its own.
\<close>

datatype gateway_call =
    Print cstring
  | OpenTty
  | TtyLine
  | TtyEcho bool
  | MungeEncode cstring
  | MungeDecode cstring
  | HttpRequest cstring "cstring list" "cstring option"
  | HttpBody
  | LocalTime "int option"
  | Getgrnam cstring
  | Rand

datatype slurm_call =
    SpankItem cstring
  | SpankSetenv cstring cstring
  | JobSetenv cstring cstring
  | SpankOption cstring
  | SpankRegister cstring
  | LoadJob nat
  | StepdConnect nat nat
  | StepdAddPid int nat int
  | Pipe
  | System cstring
  | Sleep nat

datatype torque_call =
    PbsServerList
  | PbsConnect cstring
  | PbsStatjob int "cstring option"
  | PbsValues
  | PbsAlterjob int cstring cstring cstring
  | PbsDisconnect int

datatype syscall =
    Mount "cstring option" cstring "cstring option" nat
  | Umount2 cstring nat
  | Mkdir cstring nat
  | Stat cstring
  | Lstat cstring
  | Realpath cstring
  | Readlink cstring
  | ReadFile cstring
  | WriteFile cstring cstring
  | CreateFile cstring
  | ListDir cstring
  | Chown cstring int int
  | Chmod cstring nat
  | Symlink cstring cstring
  | Rename cstring cstring
  | Unlink cstring
  | Getpid
  | Geteuid
  | Getegid
  | Fork "cstring list" bool
  | Waitpid int
  | Usleep nat
  | Kill int nat
  | Chroot cstring
  | Chdir cstring
  | Seteuid nat
  | Setegid nat
  | Setgroups "nat list"
  | Setresuid nat
  | Setresgid nat
  | Setfsuid nat
  | Prctl nat nat
  | Unshare nat
  | Setrlimit nat
  | Getpwuid nat
  | Getpwnam cstring
  | Execve cstring "cstring list" "cstring list"
  | Umask nat
  | AppendFile cstring cstring
  | Access cstring nat
  | Mkstemp cstring
  | Gethostname
  | Getcwd
  | Getuid
  | Getgid
  | Getgroups nat
  | Getgrouplist cstring nat nat
  | Getgrgid nat
  | ReadPasswd cstring
  | Signal nat bool
  | Setenv cstring cstring
  | Clearenv
  | Popen cstring
  | ForkSelf
  | Rmdir cstring
  | Gateway gateway_call
  | Slurm slurm_call
  | Torque torque_call

record reply =
  r_rc :: int
  r_errno :: nat
  r_stat :: stat_info
  r_text :: "cstring option"
  r_names :: "cstring list"
  r_ids :: "nat list"
  r_users :: "passwd list option"

type_synonym event = "syscall \<times> reply"

record world =
  w_env :: "event list \<Rightarrow> syscall \<Rightarrow> reply"
  w_trace :: "event list"

type_synonym 'a sys = "(world, 'a) state"

definition syscall :: "syscall \<Rightarrow> reply sys" where
  "syscall c =
     State (\<lambda>w. let r = w_env w (w_trace w) c in (r, w\<lparr>w_trace := w_trace w @ [(c, r)]\<rparr>))"

definition yield :: "'a \<Rightarrow> 'a sys" where
  "yield x = State_Monad.return x"

lemma run_yield [simp]: "run_state (yield x) w = (x, w)"
  by (simp add: yield_def)

lemma run_syscall [simp]:
  "run_state (syscall c) w =
     (w_env w (w_trace w) c, w\<lparr>w_trace := w_trace w @ [(c, w_env w (w_trace w) c)]\<rparr>)"
  by (simp add: syscall_def Let_def)

lemma run_bind: "run_state (State_Monad.bind m f) w = (case run_state m w of (x, w') \<Rightarrow> run_state (f x) w')"
  by (simp add: State_Monad.bind_def)

text \<open>An environment in which every call succeeds and a path resolves to itself.\<close>

definition no_stat :: stat_info where
  "no_stat = \<lparr>st_uid = 0, st_gid = 0, st_mode = 0, st_kind = KOther, st_size = 0, st_dev = 0\<rparr>"

definition success :: reply where
  "success = \<lparr>r_rc = 0, r_errno = 0, r_stat = no_stat, r_text = None, r_names = [],
     r_ids = [], r_users = None\<rparr>"

definition calm_env :: "event list \<Rightarrow> syscall \<Rightarrow> reply" where
  "calm_env es c =
     (case c of
        Realpath p \<Rightarrow> success\<lparr>r_text := Some p\<rparr>
      | ReadFile p \<Rightarrow> success\<lparr>r_text := Some []\<rparr>
      | _ \<Rightarrow> success)"

definition calm_world :: world where
  "calm_world = \<lparr>w_env = calm_env, w_trace = []\<rparr>"

section \<open>What a program does\<close>

text \<open>
  \<open>effects m Q\<close>: in every environment, \<open>m\<close> only extends the record of the calls, and its result
  and the calls it adds are related by \<open>Q\<close>.
\<close>

definition effects :: "'a sys \<Rightarrow> ('a \<Rightarrow> event list \<Rightarrow> bool) \<Rightarrow> bool" where
  "effects m Q \<longleftrightarrow>
     (\<forall>w. \<exists>new. w_env (snd (run_state m w)) = w_env w \<and>
        w_trace (snd (run_state m w)) = w_trace w @ new \<and> Q (fst (run_state m w)) new)"

lemma effects_yield [intro]: "Q x [] \<Longrightarrow> effects (yield x) Q"
  by (simp add: effects_def yield_def State_Monad.return_def)

lemma effects_syscall: "(\<And>r. Q r [(c, r)]) \<Longrightarrow> effects (syscall c) Q"
  by (simp add: effects_def syscall_def Let_def)

lemma effects_seq:
  assumes "effects m Q" and "\<And>x n. Q x n \<Longrightarrow> effects (f x) (\<lambda>y n'. S y (n @ n'))"
  shows "effects (State_Monad.bind m f) S"
  unfolding effects_def
proof
  fix w
  obtain x w1 where m: "run_state m w = (x, w1)" by fastforce
  obtain y w2 where f: "run_state (f x) w1 = (y, w2)" by fastforce
  from assms(1) m obtain n where n: "w_env w1 = w_env w" "w_trace w1 = w_trace w @ n" "Q x n"
    unfolding effects_def by (metis fst_conv snd_conv)
  from assms(2) [OF n(3)] f obtain n' where
    n': "w_env w2 = w_env w1" "w_trace w2 = w_trace w1 @ n'" "S y (n @ n')"
    unfolding effects_def by (metis fst_conv snd_conv)
  have "run_state (State_Monad.bind m f) w = (y, w2)"
    using m f by (simp add: State_Monad.bind_def)
  with n n' show "\<exists>new. w_env (snd (run_state (State_Monad.bind m f) w)) = w_env w \<and>
      w_trace (snd (run_state (State_Monad.bind m f) w)) = w_trace w @ new \<and>
      S (fst (run_state (State_Monad.bind m f) w)) new"
    by (intro exI [of _ "n @ n'"]) simp
qed

lemma effects_mono: "effects m Q \<Longrightarrow> (\<And>x n. Q x n \<Longrightarrow> R x n) \<Longrightarrow> effects m R"
  unfolding effects_def by blast

lemma effects_call_bind:
  assumes "\<And>r. effects (f r) (\<lambda>y n. S y ((c, r) # n))"
  shows "effects (State_Monad.bind (syscall c) f) S"
  by (rule effects_seq [OF effects_syscall, of "\<lambda>r n. n = [(c, r)]"]) (use assms in auto)

text \<open>Programs of which only matters here that they do not touch the environment.\<close>

abbreviation logs :: "'a sys \<Rightarrow> bool" where
  "logs m \<equiv> effects m (\<lambda>x es. True)"

named_theorems logs_intros "programs that only extend the record of the calls"

lemma logs_basic [logs_intros]:
  "logs (yield x)" "logs (syscall c)"
  "logs m \<Longrightarrow> (\<And>x. logs (f x)) \<Longrightarrow> logs (State_Monad.bind m f)"
  by (auto intro!: effects_yield effects_syscall elim: effects_seq)

lemma logs_cases [logs_intros]:
  "logs m \<Longrightarrow> logs m' \<Longrightarrow> logs (if b then m else m')"
  "(\<And>a c. logs (g a c)) \<Longrightarrow> logs (case p of (a, c) \<Rightarrow> g a c)"
  "logs m \<Longrightarrow> (\<And>a. logs (h a)) \<Longrightarrow> logs (case opt of None \<Rightarrow> m | Some a \<Rightarrow> h a)"
  "(\<And>a. logs (h a)) \<Longrightarrow> logs (Let z h)"
  by (auto split: prod.split option.split)

lemma effects_skip: "logs m \<Longrightarrow> (\<And>x n. effects (f x) (\<lambda>y n'. S y (n @ n'))) \<Longrightarrow> effects (State_Monad.bind m f) S"
  by (rule effects_seq)

lemma effects_run:
  assumes "effects m Q" "run_state m w = (x, w')"
  shows "\<exists>new. w_trace w' = w_trace w @ new \<and> Q x new"
  using assms unfolding effects_def by (metis fst_conv snd_conv)

text \<open>Programs all of whose calls satisfy a predicate.\<close>

abbreviation only :: "(event \<Rightarrow> bool) \<Rightarrow> 'a sys \<Rightarrow> bool" where
  "only P m \<equiv> effects m (\<lambda>x es. \<forall>e\<in>set es. P e)"

named_theorems only_intros "programs all of whose calls satisfy a predicate"

lemma only_basic [only_intros]:
  "only P (yield x)" "(\<And>r. P (c, r)) \<Longrightarrow> only P (syscall c)"
  "only P m \<Longrightarrow> (\<And>x. only P (f x)) \<Longrightarrow> only P (State_Monad.bind m f)"
proof -
  show "only P (State_Monad.bind m f)" if "only P m" "\<And>x. only P (f x)"
    by (rule effects_seq [OF that(1)], rule effects_mono [OF that(2)]) auto
qed (auto intro!: effects_yield effects_syscall)

lemma only_cases [only_intros]:
  "only P m \<Longrightarrow> only P m' \<Longrightarrow> only P (if b then m else m')"
  "(\<And>a c. only P (g a c)) \<Longrightarrow> only P (case p of (a, c) \<Rightarrow> g a c)"
  "only P m \<Longrightarrow> (\<And>a. only P (h a)) \<Longrightarrow> only P (case opt of None \<Rightarrow> m | Some a \<Rightarrow> h a)"
  "(\<And>a. only P (h a)) \<Longrightarrow> only P (Let z h)"
  "(\<And>a. only P (h a)) \<Longrightarrow> only P m1 \<Longrightarrow> only P m2 \<Longrightarrow>
     only P (case out of Ret a \<Rightarrow> h a | Abort \<Rightarrow> m1 | OutOfBounds \<Rightarrow> m2)"
  by (auto split: prod.split option.split outcome.split)

lemma only_mono: "only P m \<Longrightarrow> (\<And>e. P e \<Longrightarrow> Q e) \<Longrightarrow> only Q m"
  by (erule effects_mono) auto

lemma only_first:
  "only P m \<Longrightarrow> (\<And>x es. \<forall>e\<in>set es. P e \<Longrightarrow> effects (f x) (\<lambda>y n'. S y (es @ n'))) \<Longrightarrow>
     effects (State_Monad.bind m f) S"
  by (rule effects_seq)

text \<open>A run adds one list of calls, so what several statements say of it holds together.\<close>

lemma effects_all:
  assumes "logs p" and each: "\<And>x. x \<in> A \<Longrightarrow> effects p (Q x)"
  shows "effects p (\<lambda>r es. \<forall>x\<in>A. Q x r es)"
  unfolding effects_def
proof
  fix w
  obtain new where n: "w_env (snd (run_state p w)) = w_env w" "w_trace (snd (run_state p w)) = w_trace w @ new"
    using assms(1) unfolding effects_def by blast
  have "Q x (fst (run_state p w)) new" if x: "x \<in> A" for x
  proof -
    obtain n' where "w_trace (snd (run_state p w)) = w_trace w @ n'" "Q x (fst (run_state p w)) n'"
      using each [OF x] unfolding effects_def by blast
    with n show ?thesis by simp
  qed
  with n show "\<exists>new. w_env (snd (run_state p w)) = w_env w \<and> w_trace (snd (run_state p w)) = w_trace w @ new \<and>
      (\<forall>x\<in>A. Q x (fst (run_state p w)) new)" by blast
qed

lemma effects_conj: "effects p P \<Longrightarrow> effects p Q \<Longrightarrow> effects p (\<lambda>r es. P r es \<and> Q r es)"
proof -
  assume p: "effects p P" and q: "effects p Q"
  have "effects p (\<lambda>r es. \<forall>x\<in>{True, False}. (if x then P else Q) r es)"
    using p q by (intro effects_all) (auto elim: effects_mono)
  then show ?thesis by (rule effects_mono) (simp; metis)
qed

section \<open>Calls allowed by what came before them\<close>

text \<open>
  \<open>guarded P es p\<close>: run after the calls \<open>es\<close>, the program \<open>p\<close> makes only calls that \<open>P\<close> allows given
  the calls before them.
\<close>

definition guarded :: "(event list \<Rightarrow> event \<Rightarrow> bool) \<Rightarrow> event list \<Rightarrow> 'a sys \<Rightarrow> bool" where
  "guarded P es p \<longleftrightarrow> effects p (\<lambda>x n. \<forall>pre e post. n = pre @ e # post \<longrightarrow> P (es @ pre) e)"

named_theorems guarded_intros "programs whose calls are allowed"

lemma guarded_yield [guarded_intros]: "guarded P es (yield x)"
  by (auto simp: guarded_def intro!: effects_yield)

lemma guarded_logs: "guarded P es p \<Longrightarrow> logs p"
  unfolding guarded_def by (erule effects_mono) simp

lemma split_append:
  "n @ n' = pre @ e # post \<Longrightarrow>
     (\<exists>q. n = pre @ e # q \<and> post = q @ n') \<or> (\<exists>q. pre = n @ q \<and> n' = q @ e # post)"
  by (auto simp: append_eq_append_conv2 append_eq_Cons_conv)

lemma guarded_bind:
  assumes "guarded P es p" "effects p Q" "\<And>x n. Q x n \<Longrightarrow> guarded P (es @ n) (f x)"
  shows "guarded P es (State_Monad.bind p f)"
  unfolding guarded_def
proof (rule effects_seq [OF effects_conj [OF assms(1) [unfolded guarded_def] assms(2)]])
  fix x n
  assume n: "(\<forall>pre e post. n = pre @ e # post \<longrightarrow> P (es @ pre) e) \<and> Q x n"
  then have "guarded P (es @ n) (f x)" using assms(3) by blast
  then show "effects (f x) (\<lambda>y n'. \<forall>pre e post. n @ n' = pre @ e # post \<longrightarrow> P (es @ pre) e)"
    unfolding guarded_def
  proof (rule effects_mono, intro allI impI)
    fix y n' pre e post
    assume "\<forall>pre e post. n' = pre @ e # post \<longrightarrow> P ((es @ n) @ pre) e" and "n @ n' = pre @ e # post"
    with n split_append [of n n' pre e post] show "P (es @ pre) e" by (metis append.assoc)
  qed
qed

lemma guarded_seq [guarded_intros]:
  "guarded P es p \<Longrightarrow> (\<And>x n. guarded P (es @ n) (f x)) \<Longrightarrow> guarded P es (State_Monad.bind p f)"
  by (rule guarded_bind [OF _ guarded_logs]) auto

lemma guarded_syscall: "(\<And>r. P es (c, r)) \<Longrightarrow> guarded P es (syscall c)"
  unfolding guarded_def by (rule effects_syscall) (auto simp: Cons_eq_append_conv)

lemma guarded_call:
  assumes "\<And>r. P es (c, r)" "\<And>r. guarded P (es @ [(c, r)]) (f r)"
  shows "guarded P es (State_Monad.bind (syscall c) f)"
  by (rule guarded_bind [OF guarded_syscall effects_syscall, where Q = "\<lambda>r n. n = [(c, r)]"])
     (use assms in auto)

lemma guarded_only: "only Q p \<Longrightarrow> (\<And>pre e. Q e \<Longrightarrow> P pre e) \<Longrightarrow> guarded P es p"
  unfolding guarded_def by (erule effects_mono) auto

lemma guarded_cases [guarded_intros]:
  "guarded P es p \<Longrightarrow> guarded P es q \<Longrightarrow> guarded P es (if b then p else q)"
  "(\<And>a c. guarded P es (g a c)) \<Longrightarrow> guarded P es (case z of (a, c) \<Rightarrow> g a c)"
  "guarded P es p \<Longrightarrow> (\<And>a. guarded P es (h a)) \<Longrightarrow> guarded P es (case opt of None \<Rightarrow> p | Some a \<Rightarrow> h a)"
  by (auto split: prod.split option.split)

lemma guarded_mono: "guarded P es p \<Longrightarrow> (\<And>pre e. P pre e \<Longrightarrow> Q pre e) \<Longrightarrow> guarded Q es p"
  unfolding guarded_def by (erule effects_mono) auto

lemma guarded_run:
  "guarded P [] p \<Longrightarrow> effects p (\<lambda>x n. \<forall>pre e post. n = pre @ e # post \<longrightarrow> P pre e)"
  by (simp add: guarded_def)

end
