(* ===== verification/UdiRootConfig.thy ===== *)
theory UdiRootConfig
  imports VolumeMap Syscalls
begin

text \<open>
  src/src/UdiRootConfig.c: the configuration of the runtime, read from udiRoot.conf, with the
  modules a site defines and the selection of the modules that are active. A pointer to a module is
  its index in the array of modules. Arrays that the code keeps as a pointer, a size and a capacity
  are \<open>string_array\<close>s; a NULL terminated array without a capacity is a list.
\<close>

section \<open>Data\<close>

definition UDIROOT_VAL_CFGFILE :: nat where "UDIROOT_VAL_CFGFILE = 1"
definition UDIROOT_VAL_PARSE :: nat where "UDIROOT_VAL_PARSE = 2"
definition UDIROOT_VAL_FILEVAL :: nat where "UDIROOT_VAL_FILEVAL = 16"
definition UDIROOT_VAL_ALL :: nat where "UDIROOT_VAL_ALL = 4294967295"

definition SITEFS_ALLOC_BLOCK :: nat where "SITEFS_ALLOC_BLOCK = 16"
definition SERVER_ALLOC_BLOCK :: nat where "SERVER_ALLOC_BLOCK = 3"
definition PNCALLOWEDFS_ALLOC_BLOCK :: nat where "PNCALLOWEDFS_ALLOC_BLOCK = 10"

record ShifterModule =
  m_name :: cstring
  m_userhook :: "cstring option"
  m_roothook :: "cstring option"
  m_siteEnv :: "cstring list"
  m_siteEnvPrepend :: "cstring list"
  m_siteEnvAppend :: "cstring list"
  m_siteEnvUnset :: "cstring list"
  m_conflict_str :: "cstring list"
  m_conflict :: "nat list"
  m_siteFs :: "VolumeMap option"
  m_copyPath :: "cstring option"
  m_enabled :: bool

definition new_module :: "cstring \<Rightarrow> ShifterModule" where
  "new_module name =
     \<lparr>m_name = name, m_userhook = None, m_roothook = None, m_siteEnv = [], m_siteEnvPrepend = [],
      m_siteEnvAppend = [], m_siteEnvUnset = [], m_conflict_str = [], m_conflict = [],
      m_siteFs = None, m_copyPath = None, m_enabled = True\<rparr>"

text \<open>The paths of the helper programs, and what a run adds to the file's settings.\<close>

record UdiRootConfig =
  udiMountPoint :: "cstring option"
  loopMountPoint :: "cstring option"
  batchType :: "cstring option"
  defaultImageType :: "cstring option"
  systemName :: "cstring option"
  imageBasePath :: "cstring option"
  udiRootPath :: "cstring option"
  perNodeCachePath :: "cstring option"
  perNodeCacheSizeLimit :: nat
  perNodeCacheAllowedFsType :: string_array
  sitePreMountHook :: "cstring option"
  sitePostMountHook :: "cstring option"
  optUdiImage :: "cstring option"
  etcPath :: "cstring option"
  rootfsType :: "cstring option"
  gwUrl :: string_array
  siteFs :: "VolumeMap option"
  siteEnv :: string_array
  siteEnvAppend :: string_array
  siteEnvPrepend :: string_array
  siteEnvUnset :: string_array
  usersToImport :: string_array
  modules :: "ShifterModule list"
  active_modules :: "nat list"
  defaultModulesStr :: "cstring option"
  allowLocalChroot :: bool
  allowLibcPwdCalls :: bool
  populateEtcDynamically :: bool
  mountUdiRootWritable :: bool
  maxGroupCount :: nat
  gatewayTimeout :: nat
  mountPropagationStyle :: nat
  modprobePath :: "cstring option"
  insmodPath :: "cstring option"
  cpPath :: "cstring option"
  mvPath :: "cstring option"
  chmodPath :: "cstring option"
  ddPath :: "cstring option"
  mkfsXfsPath :: "cstring option"
  target_uid :: nat
  target_gid :: nat
  auxiliary_gids :: "nat list"
  username :: "cstring option"
  sshPubKey :: "cstring option"
  nodeIdentifier :: "cstring option"
  jobIdentifier :: "cstring option"
  selectedModulesStr :: "cstring option"
  bindMountAllowedDevices :: "nat list"

definition empty_UdiRootConfig :: UdiRootConfig where
  "empty_UdiRootConfig =
     \<lparr>udiMountPoint = None, loopMountPoint = None, batchType = None, defaultImageType = None,
      systemName = None, imageBasePath = None, udiRootPath = None, perNodeCachePath = None,
      perNodeCacheSizeLimit = 0, perNodeCacheAllowedFsType = sa_empty, sitePreMountHook = None,
      sitePostMountHook = None, optUdiImage = None, etcPath = None, rootfsType = None,
      gwUrl = sa_empty, siteFs = None, siteEnv = sa_empty, siteEnvAppend = sa_empty,
      siteEnvPrepend = sa_empty, siteEnvUnset = sa_empty, usersToImport = sa_empty, modules = [],
      active_modules = [], defaultModulesStr = None, allowLocalChroot = False,
      allowLibcPwdCalls = False, populateEtcDynamically = False, mountUdiRootWritable = False,
      maxGroupCount = 0, gatewayTimeout = 0, mountPropagationStyle = 0, modprobePath = None,
      insmodPath = None, cpPath = None, mvPath = None, chmodPath = None, ddPath = None,
      mkfsXfsPath = None, target_uid = 0, target_gid = 0, auxiliary_gids = [], username = None,
      sshPubKey = None, nodeIdentifier = None, jobIdentifier = None, selectedModulesStr = None,
      bindMountAllowedDevices = []\<rparr>"

section \<open>Modules\<close>

text \<open>
  Two modules exclude each other when either names the other. The check runs over the conflicts of
  the new module first, then over the active modules.
\<close>

definition conflicts_with :: "ShifterModule list \<Rightarrow> nat list \<Rightarrow> nat \<Rightarrow> bool" where
  "conflicts_with ms active idx \<longleftrightarrow>
     (\<exists>c\<in>set (m_conflict (ms ! idx)). c \<in> set active) \<or>
     (\<exists>a\<in>set active. idx \<in> set (m_conflict (ms ! a)))"

text \<open>The scan for a name from index \<open>idx\<close>: 0 and the new active list, or -1.\<close>

function select_from :: "cstring \<Rightarrow> nat \<Rightarrow> UdiRootConfig \<Rightarrow> int \<times> UdiRootConfig" where
  "select_from name idx config =
     (if length (modules config) \<le> idx then (-1, config)
      else if name \<noteq> m_name (modules config ! idx) then select_from name (idx + 1) config
      else if \<not> m_enabled (modules config ! idx) then select_from name (idx + 1) config
      else if conflicts_with (modules config) (active_modules config) idx then (-1, config)
      else (0, config\<lparr>active_modules := active_modules config @ [idx]\<rparr>))"
  by pat_completeness auto
termination
  by (relation "measure (\<lambda>(name, idx, config). length (modules config) - idx)") auto

declare select_from.simps [simp del]

fun select_modules :: "cstring list \<Rightarrow> UdiRootConfig \<Rightarrow> int \<times> UdiRootConfig" where
  "select_modules [] config = (0, config)"
| "select_modules (ptr # ptrs) config =
     (let (rc, config') = select_from ptr 0 config
      in if rc \<noteq> 0 then (rc, config') else select_modules ptrs config')"

definition parse_selected_ShifterModule :: "cstring option \<Rightarrow> UdiRootConfig \<Rightarrow> int \<times> UdiRootConfig" where
  "parse_selected_ShifterModule selected config =
     (case selected of
        None \<Rightarrow> (-1, config)
      | Some sel \<Rightarrow>
          let config1 = config\<lparr>selectedModulesStr := Some sel, active_modules := []\<rparr>;
              search = shifter_trim sel
          in if strcasecmp_eq search ''none'' then (0, config1)
             else select_modules (strtok_all (\<lambda>c. c = CHR '','') search) config1)"

text \<open>The first module of a name, as an index.\<close>

fun module_index :: "cstring \<Rightarrow> ShifterModule list \<Rightarrow> nat option" where
  "module_index name [] = None"
| "module_index name (m # ms) =
     (if name = m_name m then Some 0 else map_option Suc (module_index name ms))"

fun resolve_conflicts :: "ShifterModule list \<Rightarrow> cstring list \<Rightarrow> nat list option" where
  "resolve_conflicts ms [] = Some []"
| "resolve_conflicts ms (s # ss) =
     (case module_index s ms of
        None \<Rightarrow> None
      | Some j \<Rightarrow> map_option (\<lambda>js. j # js) (resolve_conflicts ms ss))"

text \<open>
  The conflicts of the modules from \<open>i\<close> on become indices; a name that no module has ends the loop
  with 1 and leaves the modules behind it unresolved. The table of names does not change, so it is
  a separate argument.
\<close>

fun resolve_modules :: "ShifterModule list \<Rightarrow> ShifterModule list \<Rightarrow> int \<times> ShifterModule list" where
  "resolve_modules table [] = (0, [])"
| "resolve_modules table (m # ms) =
     (case resolve_conflicts table (m_conflict_str m) of
        None \<Rightarrow> (1, m # ms)
      | Some js \<Rightarrow>
          let (rc, ms') = resolve_modules table ms
          in (rc, (if m_conflict_str m = [] then m else m\<lparr>m_conflict := js\<rparr>) # ms'))"

definition ShifterModule_postprocessing :: "UdiRootConfig \<Rightarrow> int \<times> UdiRootConfig" where
  "ShifterModule_postprocessing config =
     (let (rc, ms) = resolve_modules (modules config) (modules config);
          config' = config\<lparr>modules := ms\<rparr>
      in if rc \<noteq> 0 then (1, config')
         else case defaultModulesStr config' of
                Some d \<Rightarrow> parse_selected_ShifterModule (Some d) config'
              | None \<Rightarrow> (0, config'))"

section \<open>Assigning a setting\<close>

definition space_words :: "cstring \<Rightarrow> cstring list" where
  "space_words value = strtok_all (\<lambda>c. c = CHR '' '') value"

text \<open>The words are appended one by one at the size of the array.\<close>

definition append_word :: "nat \<Rightarrow> string_array \<Rightarrow> cstring \<Rightarrow> string_array" where
  "append_word block arr w =
     fst (snd (strncpy_StringArray (Some w) (length w) (length (sa_items arr)) arr block))"

definition append_words :: "nat \<Rightarrow> cstring \<Rightarrow> string_array \<Rightarrow> string_array" where
  "append_words block value arr = foldl (append_word block) arr (space_words value)"

definition strtoul10 :: "cstring \<Rightarrow> nat" where
  "strtoul10 s = (let v = fst (strtol10 s) in if 2 ^ 64 \<le> \<bar>v\<bar> then 2 ^ 64 - 1 else nat (v mod 2 ^ 64))"

text \<open>A module's list setting replaces the earlier one; it is built in an array that starts empty.\<close>

definition word_array :: "cstring \<Rightarrow> cstring list" where
  "word_array value = sa_items (append_words SITEFS_ALLOC_BLOCK value sa_empty)"

text \<open>The last module of the name, since the loop does not stop at the first.\<close>

definition last_module_index :: "cstring \<Rightarrow> ShifterModule list \<Rightarrow> nat option" where
  "last_module_index name ms =
     (let is = filter (\<lambda>i. m_name (ms ! i) = name) [0..<length ms]
      in if is = [] then None else Some (last is))"

definition set_module :: "cstring \<Rightarrow> cstring \<Rightarrow> ShifterModule \<Rightarrow> int \<times> ShifterModule" where
  "set_module subkey value m =
     (if subkey = ''userhook'' then (0, m\<lparr>m_userhook := Some value\<rparr>)
      else if subkey = ''roothook'' then (0, m\<lparr>m_roothook := Some value\<rparr>)
      else if subkey = ''siteEnv'' then (0, m\<lparr>m_siteEnv := word_array value\<rparr>)
      else if subkey = ''siteEnvPrepend'' then (0, m\<lparr>m_siteEnvPrepend := word_array value\<rparr>)
      else if subkey = ''siteEnvAppend'' then (0, m\<lparr>m_siteEnvAppend := word_array value\<rparr>)
      else if subkey = ''siteEnvUnset'' then (0, m\<lparr>m_siteEnvUnset := word_array value\<rparr>)
      else if subkey = ''conflict'' then (0, m\<lparr>m_conflict_str := word_array value\<rparr>)
      else if subkey = ''siteFs'' then
        (let vm0 = (case m_siteFs m of None \<Rightarrow> empty_VolumeMap | Some v \<Rightarrow> v);
             (ret, vm) = parseVolumeMapSiteFs (Some value) vm0
         in (if ret \<noteq> 0 then 1 else 0, m\<lparr>m_siteFs := Some vm\<rparr>))
      else if subkey = ''copyPath'' then (0, m\<lparr>m_copyPath := Some value\<rparr>)
      else if subkey = ''enabled'' then (0, m\<lparr>m_enabled := (fst (strtol10 value) \<noteq> 0)\<rparr>)
      else (0, m))"

definition parse_ShifterModule_key :: "UdiRootConfig \<Rightarrow> cstring \<Rightarrow> cstring \<Rightarrow> int \<times> UdiRootConfig" where
  "parse_ShifterModule_key config key value =
     (case strtok_all (\<lambda>c. c = CHR ''_'') key of
        first # name # subkey # rest \<Rightarrow>
          if first \<noteq> ''module'' then (1, config)
          else
            let ms = (if last_module_index name (modules config) = None
                      then modules config @ [new_module name] else modules config);
                idx = the (last_module_index name ms);
                (rc, m) = set_module subkey value (ms ! idx)
            in (rc, config\<lparr>modules := ms[idx := m]\<rparr>)
      | _ \<Rightarrow> (1, config))"

text \<open>
  \<open>_assign\<close>: one setting of the file. A setting of a module that cannot be parsed is not an error
  of the file: the result of \<open>parse_ShifterModule_key\<close> is dropped. Deprecated keys are ignored.
\<close>

definition assign_config :: "cstring \<Rightarrow> cstring \<Rightarrow> UdiRootConfig \<Rightarrow> int \<times> UdiRootConfig" where
  "assign_config key value config =
     (let num = (fst (strtol10 value) \<noteq> 0) in
      if key = ''udiMount'' then (0, config\<lparr>udiMountPoint := Some value\<rparr>)
      else if key = ''loopMount'' then (0, config\<lparr>loopMountPoint := Some value\<rparr>)
      else if key = ''imagePath'' then (0, config\<lparr>imageBasePath := Some value\<rparr>)
      else if key = ''udiRootPath'' then (0, config\<lparr>udiRootPath := Some value\<rparr>)
      else if key = ''perNodeCachePath'' then (0, config\<lparr>perNodeCachePath := Some value\<rparr>)
      else if key = ''perNodeCacheSizeLimit'' then
        (0, config\<lparr>perNodeCacheSizeLimit := nat (parseBytes (Some value) mod 2 ^ 64)\<rparr>)
      else if key = ''perNodeCacheAllowedFsType'' then
        (0, config\<lparr>perNodeCacheAllowedFsType :=
              append_words PNCALLOWEDFS_ALLOC_BLOCK value (perNodeCacheAllowedFsType config)\<rparr>)
      else if key = ''usersToImport'' then
        (0, config\<lparr>usersToImport := append_words PNCALLOWEDFS_ALLOC_BLOCK value (usersToImport config)\<rparr>)
      else if key = ''sitePreMountHook'' then (0, config\<lparr>sitePreMountHook := Some value\<rparr>)
      else if key = ''sitePostMountHook'' then (0, config\<lparr>sitePostMountHook := Some value\<rparr>)
      else if key = ''optUdiImage'' then (0, config\<lparr>optUdiImage := Some value\<rparr>)
      else if key = ''etcPath'' then (0, config\<lparr>etcPath := Some value\<rparr>)
      else if key = ''allowLocalChroot'' then (0, config\<lparr>allowLocalChroot := num\<rparr>)
      else if key = ''allowLibcPwdCalls'' then (0, config\<lparr>allowLibcPwdCalls := num\<rparr>)
      else if key = ''optionalSshdAsRoot'' then (0, config)
      else if key = ''populateEtcDynamically'' then (0, config\<lparr>populateEtcDynamically := num\<rparr>)
      else if key = ''autoLoadKernelModule'' then (0, config)
      else if key = ''mountPropagationStyle'' then
        (if value = ''private'' then (0, config\<lparr>mountPropagationStyle := VOLMAP_FLAG_PRIVATE\<rparr>)
         else if value = ''slave'' then (0, config\<lparr>mountPropagationStyle := VOLMAP_FLAG_SLAVE\<rparr>)
         else (1, config))
      else if key = ''mountUdiRootWritable'' then (0, config\<lparr>mountUdiRootWritable := num\<rparr>)
      else if key = ''maxGroupCount'' then (0, config\<lparr>maxGroupCount := strtoul10 value\<rparr>)
      else if key = ''modprobePath'' then (0, config\<lparr>modprobePath := Some value\<rparr>)
      else if key = ''insmodPath'' then (0, config\<lparr>insmodPath := Some value\<rparr>)
      else if key = ''cpPath'' then (0, config\<lparr>cpPath := Some value\<rparr>)
      else if key = ''mvPath'' then (0, config\<lparr>mvPath := Some value\<rparr>)
      else if key = ''chmodPath'' then (0, config\<lparr>chmodPath := Some value\<rparr>)
      else if key = ''ddPath'' then (0, config\<lparr>ddPath := Some value\<rparr>)
      else if key = ''mkfsXfsPath'' then (0, config\<lparr>mkfsXfsPath := Some value\<rparr>)
      else if key = ''rootfsType'' then (0, config\<lparr>rootfsType := Some value\<rparr>)
      else if key = ''gatewayTimeout'' then (0, config\<lparr>gatewayTimeout := strtoul10 value\<rparr>)
      else if key = ''kmodBasePath'' then (0, config)
      else if key = ''kmodCacheFile'' then (0, config)
      else if key = ''siteFs'' then
        (let vm0 = (case siteFs config of None \<Rightarrow> empty_VolumeMap | Some v \<Rightarrow> v);
             (ret, vm) = parseVolumeMapSiteFs (Some value) vm0
         in (if ret \<noteq> 0 then 1 else 0, config\<lparr>siteFs := Some vm\<rparr>))
      else if key = ''siteEnv'' then
        (0, config\<lparr>siteEnv := append_words SITEFS_ALLOC_BLOCK value (siteEnv config)\<rparr>)
      else if key = ''siteEnvAppend'' then
        (0, config\<lparr>siteEnvAppend := append_words SITEFS_ALLOC_BLOCK value (siteEnvAppend config)\<rparr>)
      else if key = ''siteEnvPrepend'' then
        (0, config\<lparr>siteEnvPrepend := append_words SITEFS_ALLOC_BLOCK value (siteEnvPrepend config)\<rparr>)
      else if key = ''siteEnvUnset'' then
        (0, config\<lparr>siteEnvUnset := append_words SITEFS_ALLOC_BLOCK value (siteEnvUnset config)\<rparr>)
      else if key = ''imageGateway'' then
        (0, config\<lparr>gwUrl := append_words SERVER_ALLOC_BLOCK value (gwUrl config)\<rparr>)
      else if key = ''batchType'' then (0, config\<lparr>batchType := Some value\<rparr>)
      else if key = ''system'' then (0, config\<lparr>systemName := Some value\<rparr>)
      else if key = ''defaultImageType'' then (0, config\<lparr>defaultImageType := Some value\<rparr>)
      else if key = ''nodeContextPrefix'' then (0, config)
      else if prefix ''module_'' key then (0, snd (parse_ShifterModule_key config key value))
      else if key = ''defaultModules'' then (0, config\<lparr>defaultModulesStr := Some value\<rparr>)
      else (2, config))"

section \<open>Validation\<close>

text \<open>\<open>stat\<close> is what the file system answers; None when the call fails.\<close>

definition unset :: "cstring option \<Rightarrow> bool" where
  "unset p \<longleftrightarrow> (case p of None \<Rightarrow> True | Some s \<Rightarrow> s = [])"

definition not_executable :: "(cstring \<Rightarrow> stat_info option) \<Rightarrow> cstring option \<Rightarrow> bool" where
  "not_executable stat p \<longleftrightarrow>
     (case p of
        None \<Rightarrow> True
      | Some s \<Rightarrow> (case stat s of None \<Rightarrow> True | Some st \<Rightarrow> st_mode st AND S_IXUSR = 0))"

text \<open>The settings that must be there, in the order of the checks.\<close>

definition required_settings :: "UdiRootConfig \<Rightarrow> cstring option list" where
  "required_settings c =
     [udiMountPoint c, loopMountPoint c, imageBasePath c, udiRootPath c, etcPath c, modprobePath c,
      insmodPath c, cpPath c, mvPath c, chmodPath c, ddPath c, rootfsType c]"

definition required_programs :: "UdiRootConfig \<Rightarrow> cstring option list" where
  "required_programs c =
     [modprobePath c, insmodPath c, cpPath c, mvPath c, chmodPath c, ddPath c] @
     (if mkfsXfsPath c = None then [] else [mkfsXfsPath c])"

definition validate_UdiRootConfig ::
  "(cstring \<Rightarrow> stat_info option) \<Rightarrow> UdiRootConfig \<Rightarrow> nat \<Rightarrow> nat" where
  "validate_UdiRootConfig stat config validateFlags =
     (if validateFlags AND UDIROOT_VAL_PARSE \<noteq> 0 \<and> (\<exists>p\<in>set (required_settings config). unset p)
      then UDIROOT_VAL_PARSE
      else if validateFlags AND UDIROOT_VAL_FILEVAL \<noteq> 0 \<and>
              (\<exists>p\<in>set (required_programs config). not_executable stat p)
      then UDIROOT_VAL_FILEVAL
      else 0)"

definition validateConfigFile :: "(cstring \<Rightarrow> stat_info option) \<Rightarrow> cstring \<Rightarrow> nat" where
  "validateConfigFile stat configFile =
     (case stat configFile of
        None \<Rightarrow> 1
      | Some st \<Rightarrow>
          if st_uid st \<noteq> 0 then UDIROOT_VAL_CFGFILE
          else if st_mode st AND (S_IWOTH OR S_IWGRP) \<noteq> 0 then UDIROOT_VAL_CFGFILE
          else 0)"

definition parse_UdiRootConfig ::
  "(cstring \<Rightarrow> cstring) \<Rightarrow> (cstring \<Rightarrow> stat_info option) \<Rightarrow> (cstring \<Rightarrow> cstring option) \<Rightarrow> cstring \<Rightarrow>
   UdiRootConfig \<Rightarrow> nat \<Rightarrow> nat \<times> UdiRootConfig" where
  "parse_UdiRootConfig eofbuf stat readf configFile config validateFlags =
     (let ret = validateConfigFile stat configFile
      in if ret \<noteq> 0 then (ret, config)
         else
           let (pret, config1) =
                 shifter_parseConfig eofbuf (readf configFile) (CHR ''='') config assign_config
           in if pret \<noteq> 0 then (UDIROOT_VAL_PARSE, config1)
              else
                let (mret, config2) = ShifterModule_postprocessing config1
                in if mret \<noteq> 0 then (UDIROOT_VAL_PARSE, config2)
                   else (validate_UdiRootConfig stat config2 validateFlags, config2))"

section \<open>Print\<close>

definition print_setting :: "cstring \<Rightarrow> cstring option \<Rightarrow> cstring" where
  "print_setting name v = name @ '' = '' @ (case v of None \<Rightarrow> [] | Some s \<Rightarrow> s) @ [NL]"

definition print_flag :: "cstring \<Rightarrow> bool \<Rightarrow> cstring" where
  "print_flag name b = name @ '' = '' @ (if b then ''1'' else ''0'') @ [NL]"

definition print_indented :: "cstring \<Rightarrow> cstring list \<Rightarrow> cstring" where
  "print_indented indent ws = concat (map (\<lambda>w. indent @ w @ [NL]) ws)"

definition fprint_ShifterModule :: "ShifterModule \<Rightarrow> cstring" where
  "fprint_ShifterModule m =
     ''Shifter Module: '' @ m_name m @ [NL] @ ''===================================='' @ [NL] @
     ''userhook: '' @ show_str (m_userhook m) @ [NL] @ ''roothook: '' @ show_str (m_roothook m) @ [NL] @
     ''siteEnv:'' @ [NL] @ print_indented ''        '' (m_siteEnv m) @
     ''siteEnvPrepend:'' @ [NL] @ print_indented ''        '' (m_siteEnvPrepend m) @
     ''siteEnvAppend:'' @ [NL] @ print_indented ''        '' (m_siteEnvAppend m) @
     ''siteEnvUnset:'' @ [NL] @ print_indented ''        '' (m_siteEnvUnset m) @
     ''conflict:'' @ [NL] @ print_indented ''        '' (m_conflict_str m) @
     ''VolumeMap: '' @ fprint_VolumeMap (m_siteFs m) @ [NL] @
     ''copyPath: '' @ show_str (m_copyPath m) @ [NL] @
     ''enabled: '' @ (if m_enabled m then ''1'' else ''0'') @ [NL] @
     ''===================================='' @ [NL] @ [NL]"

text \<open>There is no newline behind the list of users to import.\<close>

definition fprint_UdiRootConfig :: "UdiRootConfig \<Rightarrow> cstring" where
  "fprint_UdiRootConfig c =
     ''***** UdiRootConfig *****'' @ [NL] @
     print_setting ''udiMountPoint'' (udiMountPoint c) @
     print_setting ''loopMountPoint'' (loopMountPoint c) @
     print_setting ''batchType'' (batchType c) @
     print_setting ''system'' (systemName c) @
     print_setting ''defaultImageType'' (defaultImageType c) @
     print_setting ''imageBasePath'' (imageBasePath c) @
     print_setting ''udiRootPath'' (udiRootPath c) @
     print_setting ''perNodeCachePath'' (perNodeCachePath c) @
     ''perNodeCacheSizeLimit = '' @ show_nat (perNodeCacheSizeLimit c) @ [NL] @
     ''perNodeCacheAllowedFsType ='' @
       concat (map (\<lambda>w. '' '' @ w) (sa_items (perNodeCacheAllowedFsType c))) @ [NL] @
     ''usersToImport ='' @ concat (map (\<lambda>w. '' '' @ w) (sa_items (usersToImport c))) @
     print_setting ''sitePreMountHook'' (sitePreMountHook c) @
     print_setting ''sitePostMountHook'' (sitePostMountHook c) @
     print_setting ''optUdiImage'' (optUdiImage c) @
     print_setting ''etcPath'' (etcPath c) @
     print_flag ''allowLocalChroot'' (allowLocalChroot c) @
     print_flag ''allowLibcPwdCalls'' (allowLibcPwdCalls c) @
     print_flag ''populateEtcDynamically'' (populateEtcDynamically c) @
     ''mountPropagationStyle = '' @
       (if mountPropagationStyle c = VOLMAP_FLAG_SLAVE then ''slave'' else ''private'') @ [NL] @
     print_setting ''rootfsType'' (rootfsType c) @
     print_setting ''modprobePath'' (modprobePath c) @
     print_setting ''insmodPath'' (insmodPath c) @
     print_setting ''cpPath'' (cpPath c) @
     print_setting ''mvPath'' (mvPath c) @
     print_setting ''chmodPath'' (chmodPath c) @
     print_setting ''ddPath'' (ddPath c) @
     print_setting ''mkfsXfsPath'' (mkfsXfsPath c) @
     ''Image Gateway Servers = '' @ show_nat (length (sa_items (gwUrl c))) @ '' servers'' @ [NL] @
     print_indented ''    '' (sa_items (gwUrl c)) @
     (case siteFs c of
        None \<Rightarrow> []
      | Some vm \<Rightarrow> ''Site FS Bind-mounts = '' @ show_nat (vm_n vm) @ '' fs'' @ [NL] @ fprint_VolumeMap (Some vm)) @
     concat (map fprint_ShifterModule (modules c)) @
     ''defaultModules: '' @ show_str (defaultModulesStr c) @ [NL] @
     [NL] @ ''RUNTIME Options:'' @ [NL] @
     ''username: '' @ (case username c of None \<Rightarrow> [] | Some s \<Rightarrow> s) @ [NL] @
     ''target_uid: '' @ show_int (to_i32 (int (target_uid c))) @ [NL] @
     ''target_gid: '' @ show_int (to_i32 (int (target_gid c))) @ [NL] @
     ''sshPubKey: '' @ (case sshPubKey c of None \<Rightarrow> [] | Some s \<Rightarrow> s) @ [NL] @
     ''nodeIdentifier: '' @ (case nodeIdentifier c of None \<Rightarrow> [] | Some s \<Rightarrow> s) @ [NL] @
     ''jobIdentifier: '' @ (case jobIdentifier c of None \<Rightarrow> [] | Some s \<Rightarrow> s) @ [NL] @
     ''selectedModules: '' @ show_str (selectedModulesStr c) @ [NL] @
     ''***** END UdiRootConfig *****'' @ [NL]"

section \<open>What the file may change\<close>

text \<open>
  The names of the modules stay distinct, and the site's file systems are mappings that the site
  policy allows.
\<close>

definition site_maps_ok :: "VolumeMap option \<Rightarrow> bool" where
  "site_maps_ok fs \<longleftrightarrow>
     (case fs of None \<Rightarrow> True
      | Some vm \<Rightarrow> vm_wf vm \<and> (\<forall>e\<in>set (vm_entries vm). entry_safe site_mapping e))"

definition config_inv :: "UdiRootConfig \<Rightarrow> bool" where
  "config_inv c \<longleftrightarrow> site_maps_ok (siteFs c) \<and> distinct (map m_name (modules c))"

lemma site_maps_ok_parse:
  assumes "site_maps_ok fs"
    and "parseVolumeMapSiteFs (Some val) (case fs of None \<Rightarrow> empty_VolumeMap | Some v \<Rightarrow> v) = (0, vm)"
  shows "site_maps_ok (Some vm)"
proof -
  define vm0 where "vm0 = (case fs of None \<Rightarrow> empty_VolumeMap | Some v \<Rightarrow> v)"
  have "vm_wf vm0 \<and> (\<forall>e\<in>set (vm_entries vm0). entry_safe site_mapping e)"
    using assms(1) by (auto simp: vm0_def site_maps_ok_def split: option.splits)
  moreover have "parse_entries validateVolumeMap_siteRequest False val vm0 = (0, vm)"
    using assms(2) by (simp add: vm0_def parseVolumeMapSiteFs_def parseVolumeMap_with_def)
  ultimately show ?thesis
    using site.parse_entries_good [of vm0 False val 0 vm] by (auto simp: site_maps_ok_def good_safe)
qed

lemma set_module_name: "m_name (snd (set_module k v m)) = m_name m"
  by (auto simp: set_module_def Let_def split: prod.splits)

lemma last_module_index_Some:
  "last_module_index name ms = Some i \<Longrightarrow> i < length ms \<and> m_name (ms ! i) = name"
proof -
  define idxs where "idxs = filter (\<lambda>i. m_name (ms ! i) = name) [0..<length ms]"
  assume "last_module_index name ms = Some i"
  then have "idxs \<noteq> []" "i = last idxs" by (auto simp: last_module_index_def idxs_def Let_def split: if_splits)
  then have "i \<in> set idxs" by simp
  then show ?thesis by (auto simp: idxs_def)
qed

lemma last_module_index_None: "last_module_index name ms = None \<longleftrightarrow> name \<notin> set (map m_name ms)"
proof -
  have "last_module_index name ms = None \<longleftrightarrow> filter (\<lambda>i. m_name (ms ! i) = name) [0..<length ms] = []"
    by (simp add: last_module_index_def Let_def)
  then show ?thesis by (force simp: filter_empty_conv in_set_conv_nth)
qed

lemma module_key_names:
  "map m_name (modules (snd (parse_ShifterModule_key c key value))) = map m_name (modules c) \<or>
   (\<exists>n. n \<notin> set (map m_name (modules c)) \<and>
        map m_name (modules (snd (parse_ShifterModule_key c key value))) = map m_name (modules c) @ [n])"
proof -
  have upd: "map m_name (ms[i := snd (set_module sk value (ms ! i))]) = map m_name ms" for ms i sk
    by (cases "i < length ms")
       (simp_all add: map_update set_module_name list_update_same_conv list_update_beyond)
  show ?thesis
  proof (cases "\<exists>name subkey rest. strtok_all (\<lambda>c. c = CHR ''_'') key = ''module'' # name # subkey # rest")
    case True
    then obtain name subkey rest where k: "strtok_all (\<lambda>c. c = CHR ''_'') key = ''module'' # name # subkey # rest"
      by blast
    define ms where "ms = (if last_module_index name (modules c) = None
                           then modules c @ [new_module name] else modules c)"
    have "map m_name (modules (snd (parse_ShifterModule_key c key value))) = map m_name ms"
      using upd [of ms _ subkey]
      by (simp add: parse_ShifterModule_key_def k Let_def ms_def [symmetric] case_prod_beta)
    then show ?thesis
      using last_module_index_None [of name "modules c"] by (auto simp: ms_def new_module_def)
  next
    case False
    then have "modules (snd (parse_ShifterModule_key c key value)) = modules c"
      by (auto simp: parse_ShifterModule_key_def split: list.split)
    then show ?thesis by simp
  qed
qed

lemma module_key_keeps: "siteFs (snd (parse_ShifterModule_key c key value)) = siteFs c"
  by (auto simp: parse_ShifterModule_key_def Let_def split: list.split prod.split)

lemma assign_config_modules:
  "assign_config key value c = (ret, c') \<Longrightarrow>
   modules c' = modules c \<or> modules c' = modules (snd (parse_ShifterModule_key c key value))"
  by (auto simp: assign_config_def Let_def split: if_splits prod.splits)

lemma assign_config_siteFs:
  "assign_config key value c = (0, c') \<Longrightarrow>
   siteFs c' = siteFs c \<or>
   (\<exists>vm. siteFs c' = Some vm \<and>
      parseVolumeMapSiteFs (Some value) (case siteFs c of None \<Rightarrow> empty_VolumeMap | Some v \<Rightarrow> v) = (0, vm))"
  by (auto simp: assign_config_def Let_def module_key_keeps split: if_splits prod.splits)

lemma assign_config_inv: "config_inv c \<Longrightarrow> assign_config key v c = (0, c') \<Longrightarrow> config_inv c'"
proof -
  assume inv: "config_inv c" and a: "assign_config key v c = (0, c')"
  have "site_maps_ok (siteFs c')"
    using assign_config_siteFs [OF a] site_maps_ok_parse [of "siteFs c" v] inv
    by (auto simp: config_inv_def)
  moreover have "distinct (map m_name (modules c'))"
    using assign_config_modules [OF a] module_key_names [of c key v] inv
    by (auto simp: config_inv_def)
  ultimately show "config_inv c'" by (simp add: config_inv_def)
qed

interpretation udi: config_assign assign_config config_inv
  by unfold_locales (rule assign_config_inv)

section \<open>The selection of modules\<close>

definition compatible :: "ShifterModule list \<Rightarrow> nat \<Rightarrow> nat \<Rightarrow> bool" where
  "compatible ms a b \<longleftrightarrow> b \<notin> set (m_conflict (ms ! a)) \<and> a \<notin> set (m_conflict (ms ! b))"

lemma not_conflicts_with: "\<not> conflicts_with ms active i \<longleftrightarrow> (\<forall>a\<in>set active. compatible ms a i)"
  by (auto simp: conflicts_with_def compatible_def)

text \<open>A name selects an enabled module of that name that is compatible with the active ones.\<close>

lemma select_from_result:
  "select_from name idx c = (rc, c') \<Longrightarrow>
   (rc = 0 \<and> (\<exists>j<length (modules c). m_name (modules c ! j) = name \<and> m_enabled (modules c ! j) \<and>
       (\<forall>a\<in>set (active_modules c). compatible (modules c) a j) \<and>
       c' = c\<lparr>active_modules := active_modules c @ [j]\<rparr>)) \<or> (rc = -1 \<and> c' = c)"
proof (induction name idx c rule: select_from.induct)
  case (1 name idx c)
  show ?case
  proof (cases "idx < length (modules c) \<and> name = m_name (modules c ! idx) \<and> m_enabled (modules c ! idx)")
    case True
    with "1.prems" show ?thesis
      by (auto simp: select_from.simps [of _ idx c] not_conflicts_with [symmetric] split: if_splits)
  next
    case False
    show ?thesis
    proof (cases "idx < length (modules c)")
      case True
      with False "1.prems" have "select_from name (idx + 1) c = (rc, c')"
        by (auto simp: select_from.simps [of _ idx c] split: if_splits)
      moreover note True False
      ultimately show ?thesis using "1.IH" by (cases "name = m_name (modules c ! idx)") auto
    next
      case False
      with "1.prems" show ?thesis by (simp add: select_from.simps [of _ idx c])
    qed
  qed
qed

lemma select_modules_result:
  "select_modules names c = (0, c') \<Longrightarrow> sorted_wrt (compatible (modules c)) (active_modules c) \<Longrightarrow>
   \<exists>js. c' = c\<lparr>active_modules := active_modules c @ js\<rparr> \<and>
     map (\<lambda>j. m_name (modules c ! j)) js = names \<and>
     (\<forall>j\<in>set js. j < length (modules c) \<and> m_enabled (modules c ! j)) \<and>
     sorted_wrt (compatible (modules c)) (active_modules c @ js)"
proof (induction names arbitrary: c)
  case Nil
  then show ?case by simp
next
  case (Cons n names)
  obtain rc c1 where s: "select_from n 0 c = (rc, c1)" by fastforce
  with Cons.prems(1) have rc: "rc = 0" and r: "select_modules names c1 = (0, c')"
    by (auto simp: Let_def split: if_splits)
  from select_from_result [OF s] rc obtain j where j: "j < length (modules c)"
    "m_name (modules c ! j) = n" "m_enabled (modules c ! j)"
    "\<forall>a\<in>set (active_modules c). compatible (modules c) a j"
    "c1 = c\<lparr>active_modules := active_modules c @ [j]\<rparr>" by auto
  have "sorted_wrt (compatible (modules c1)) (active_modules c1)"
    using Cons.prems(2) j by (simp add: sorted_wrt_append)
  from Cons.IH [OF r this] obtain js where
    "c' = c1\<lparr>active_modules := active_modules c1 @ js\<rparr>" "map (\<lambda>j. m_name (modules c1 ! j)) js = names"
    "\<forall>j\<in>set js. j < length (modules c1) \<and> m_enabled (modules c1 ! j)"
    "sorted_wrt (compatible (modules c1)) (active_modules c1 @ js)" by blast
  with j show ?case by (intro exI [of _ "j # js"]) simp
qed

text \<open>Post-processing makes each conflict index point to the module that the conflict names.\<close>

lemma module_index_Some: "module_index n ms = Some j \<Longrightarrow> j < length ms \<and> m_name (ms ! j) = n"
  by (induction ms arbitrary: j) (auto split: if_splits)

lemma resolve_conflicts_names:
  "resolve_conflicts ms ss = Some js \<Longrightarrow>
   map (\<lambda>j. m_name (ms ! j)) js = ss \<and> (\<forall>j\<in>set js. j < length ms)"
proof (induction ss arbitrary: js)
  case (Cons s ss)
  then show ?case by (auto dest: module_index_Some split: option.splits)
qed simp

lemma resolve_modules_names:
  assumes "resolve_modules table ms = (0, ms')"
  shows "map m_name ms' = map m_name ms \<and> map m_conflict_str ms' = map m_conflict_str ms \<and>
     map m_enabled ms' = map m_enabled ms \<and>
     (\<forall>m\<in>set ms'. m_conflict_str m \<noteq> [] \<longrightarrow>
        map (\<lambda>j. m_name (table ! j)) (m_conflict m) = m_conflict_str m \<and> (\<forall>j\<in>set (m_conflict m). j < length table))"
  using assms
proof (induction ms arbitrary: ms')
  case (Cons m ms)
  obtain rc ms1 where r: "resolve_modules table ms = (rc, ms1)" by fastforce
  with Cons.prems obtain js where js: "resolve_conflicts table (m_conflict_str m) = Some js" "rc = 0"
    "ms' = (if m_conflict_str m = [] then m else m\<lparr>m_conflict := js\<rparr>) # ms1"
    by (auto split: option.splits)
  show ?case
    using Cons.IH r js resolve_conflicts_names [OF js(1)] by auto
qed simp

text \<open>No module of the first list names one of the second in its conflicts.\<close>

definition no_named_conflict :: "ShifterModule list \<Rightarrow> nat \<Rightarrow> nat \<Rightarrow> bool" where
  "no_named_conflict ms a b \<longleftrightarrow>
     m_name (ms ! b) \<notin> set (m_conflict_str (ms ! a)) \<and> m_name (ms ! a) \<notin> set (m_conflict_str (ms ! b))"

lemma compatible_named:
  assumes "resolve_modules ms0 ms0 = (0, ms)" "distinct (map m_name ms0)"
    and "compatible ms a b" "a < length ms" "b < length ms"
  shows "no_named_conflict ms a b"
proof -
  note r = resolve_modules_names [OF assms(1)]
  then have n: "length ms = length ms0" "\<And>i. i < length ms \<Longrightarrow> m_name (ms0 ! i) = m_name (ms ! i)"
    by (metis length_map) (metis r length_map nth_map)
  have inj: "i = j" if "m_name (ms ! i) = m_name (ms ! j)" "i < length ms" "j < length ms" for i j
    using assms(2) that n by (metis distinct_conv_nth length_map nth_map)
  have "m_name (ms ! y) \<notin> set (m_conflict_str (ms ! x))"
    if "y \<notin> set (m_conflict (ms ! x))" "x < length ms" "y < length ms" for x y
  proof
    assume in_str: "m_name (ms ! y) \<in> set (m_conflict_str (ms ! x))"
    then have "m_conflict_str (ms ! x) \<noteq> []" by auto
    with r that(2) have
      m: "map (\<lambda>j. m_name (ms0 ! j)) (m_conflict (ms ! x)) = m_conflict_str (ms ! x)"
      "\<forall>j\<in>set (m_conflict (ms ! x)). j < length ms0" using nth_mem by blast+
    with in_str obtain j where "j \<in> set (m_conflict (ms ! x))" "m_name (ms0 ! j) = m_name (ms ! y)"
      by (metis (no_types, lifting) imageE set_map)
    with m(2) n inj that show False by metis
  qed
  with assms(3-5) show ?thesis by (simp add: compatible_def no_named_conflict_def)
qed

lemma parse_selected_result:
  assumes "parse_selected_ShifterModule (Some sel) c = (0, c')"
  shows "\<exists>js. c' = c\<lparr>selectedModulesStr := Some sel, active_modules := js\<rparr> \<and>
     map (\<lambda>j. m_name (modules c ! j)) js =
       (if strcasecmp_eq (shifter_trim sel) ''none'' then []
        else strtok_all (\<lambda>c. c = CHR '','') (shifter_trim sel)) \<and>
     (\<forall>j\<in>set js. j < length (modules c) \<and> m_enabled (modules c ! j)) \<and>
     sorted_wrt (compatible (modules c)) js"
proof (cases "strcasecmp_eq (shifter_trim sel) ''none''")
  case True
  with assms show ?thesis by (auto simp: parse_selected_ShifterModule_def)
next
  case False
  with assms have
    "select_modules (strtok_all (\<lambda>c. c = CHR '','') (shifter_trim sel))
       (c\<lparr>selectedModulesStr := Some sel, active_modules := []\<rparr>) = (0, c')"
    by (simp add: parse_selected_ShifterModule_def)
  from select_modules_result [OF this] False show ?thesis by auto
qed

lemma postprocessing_modules:
  assumes "ShifterModule_postprocessing c0 = (0, c)"
  shows "resolve_modules (modules c0) (modules c0) = (0, modules c)"
proof -
  obtain rc ms where r: "resolve_modules (modules c0) (modules c0) = (rc, ms)" by fastforce
  have rc: "rc = 0" using assms r by (auto simp: ShifterModule_postprocessing_def Let_def split: if_splits)
  have "modules c = ms"
  proof (cases "defaultModulesStr c0")
    case None
    with assms r rc show ?thesis by (auto simp: ShifterModule_postprocessing_def)
  next
    case (Some d)
    with assms r rc have "parse_selected_ShifterModule (Some d) (c0\<lparr>modules := ms\<rparr>) = (0, c)"
      by (simp add: ShifterModule_postprocessing_def)
    from parse_selected_result [OF this] show ?thesis by auto
  qed
  with r rc show ?thesis by simp
qed

lemma not_unset: "unset p \<longleftrightarrow> \<not> (\<exists>s. p = Some s \<and> s \<noteq> [])"
  by (cases p) (auto simp: unset_def)

lemma not_not_executable:
  "not_executable stat p \<longleftrightarrow> \<not> (\<exists>s st. p = Some s \<and> stat s = Some st \<and> st_mode st AND S_IXUSR \<noteq> 0)"
  by (cases p) (auto simp: not_executable_def split: option.splits)

section \<open>Properties\<close>

text \<open>
  C33. A successful selection of modules, after a successful post-processing, makes exactly the
  named modules active, in the order of the names (none at all for the word none); each of them is
  enabled, and no two of them are named in each other's conflict lists.
\<close>

theorem module_selection_sound:
  assumes "distinct (map m_name (modules c0))"
    and "ShifterModule_postprocessing c0 = (0, c)"
    and "parse_selected_ShifterModule (Some sel) c = (0, c')"
  shows "modules c' = modules c \<and>
    map (\<lambda>j. m_name (modules c' ! j)) (active_modules c') =
       (if strcasecmp_eq (shifter_trim sel) ''none'' then []
        else strtok_all (\<lambda>c. c = CHR '','') (shifter_trim sel)) \<and>
    (\<forall>j\<in>set (active_modules c'). j < length (modules c') \<and> m_enabled (modules c' ! j)) \<and>
    sorted_wrt (no_named_conflict (modules c')) (active_modules c')"
proof -
  from parse_selected_result [OF assms(3)] obtain js where
    c': "c' = c\<lparr>selectedModulesStr := Some sel, active_modules := js\<rparr>" and
    names: "map (\<lambda>j. m_name (modules c ! j)) js =
       (if strcasecmp_eq (shifter_trim sel) ''none'' then []
        else strtok_all (\<lambda>c. c = CHR '','') (shifter_trim sel))" and
    range: "\<forall>j\<in>set js. j < length (modules c) \<and> m_enabled (modules c ! j)" and
    comp: "sorted_wrt (compatible (modules c)) js" by blast
  have "sorted_wrt (no_named_conflict (modules c)) js"
    using compatible_named [OF postprocessing_modules [OF assms(2)] assms(1)] range
    by (intro sorted_wrt_mono_rel [OF _ comp]) auto
  with c' names range show ?thesis by simp
qed

definition sample_modules :: UdiRootConfig where
  "sample_modules = empty_UdiRootConfig\<lparr>modules :=
     [(new_module ''mpich'')\<lparr>m_conflict_str := [''openmpi'']\<rparr>, new_module ''gpu'', new_module ''openmpi'']\<rparr>"

lemma module_selection_sound_witness:
  "\<exists>c c'. ShifterModule_postprocessing sample_modules = (0, c) \<and>
     parse_selected_ShifterModule (Some '' mpich,gpu'') c = (0, c') \<and>
     map (\<lambda>j. m_name (modules c' ! j)) (active_modules c') = [''mpich'', ''gpu'']"
proof -
  define c where "c = sample_modules\<lparr>modules :=
     [(new_module ''mpich'')\<lparr>m_conflict_str := [''openmpi''], m_conflict := [2]\<rparr>, new_module ''gpu'', new_module ''openmpi'']\<rparr>"
  have p: "ShifterModule_postprocessing sample_modules = (0, c)"
    by (simp add: ShifterModule_postprocessing_def sample_modules_def c_def new_module_def
        empty_UdiRootConfig_def)
  have none: "\<not> strcasecmp_eq ''mpich,gpu'' ''none''" by (rule strcasecmp_length) simp
  have trim: "shifter_trim '' mpich,gpu'' = ''mpich,gpu''" by (simp add: shifter_trim_def char_class_defs)
  obtain c' where s: "parse_selected_ShifterModule (Some '' mpich,gpu'') c = (0, c')"
    by (simp add: parse_selected_ShifterModule_def trim none strtok_all_def c_def sample_modules_def
        new_module_def empty_UdiRootConfig_def select_from.simps conflicts_with_def)
  have "distinct (map m_name (modules sample_modules))" by (simp add: sample_modules_def new_module_def)
  from module_selection_sound [OF this p s] have
    "map (\<lambda>j. m_name (modules c' ! j)) (active_modules c') = [''mpich'', ''gpu'']"
    by (auto simp: trim none strtok_all_def)
  with p s show ?thesis by (intro exI conjI)
qed


definition sample_stat :: stat_info where
  "sample_stat =
     \<lparr>st_uid = 0, st_gid = 0, st_mode = 493, st_kind = KRegular, st_size = 1, st_dev = 1\<rparr>"

definition sample_settings :: "(cstring \<times> cstring) list" where
  "sample_settings =
     [(''udiMount'', ''/var/udiMount''), (''loopMount'', ''/var/loop''), (''imagePath'', ''/img''),
      (''udiRootPath'', ''/opt''), (''etcPath'', ''/opt/etc''), (''rootfsType'', ''tmpfs''),
      (''modprobePath'', ''/b''), (''insmodPath'', ''/b''), (''cpPath'', ''/b''), (''mvPath'', ''/b''),
      (''chmodPath'', ''/b''), (''ddPath'', ''/b''), (''siteFs'', ''/home:/home'')]"


text \<open>
  A setting of a module never fails the configuration file, even when the module parser reports
  an error for it: its result is dropped, and a site file system that the policy refuses is left out
  without the file being refused.
\<close>

theorem module_setting_errors_dropped:
  "assign_config (''module_'' @ k) value c = (0, snd (parse_ShifterModule_key c (''module_'' @ k) value)) \<and>
   parse_ShifterModule_key empty_UdiRootConfig ''module_m_siteFs'' ''/a:/etc''
     = (1, empty_UdiRootConfig\<lparr>modules := [(new_module ''m'')\<lparr>m_siteFs := Some empty_VolumeMap\<rparr>]\<rparr>)"
proof -
  have "read_entry validateVolumeMap_siteRequest False ''/a:/etc'' = None"
  proof -
    have "\<not> site_mapping ''/a'' ''/etc'' []" by (simp add: site_mapping_def)
    then show ?thesis
      by (simp add: read_entry_def unquote_def tokenizeVolumeMapInput_def userInputPathFilter_def
          path_char_ok_def char_class_defs special_char_defs site_validate)
  qed
  then have "parseVolumeMapSiteFs (Some ''/a:/etc'') empty_VolumeMap = (1, empty_VolumeMap)"
    by (simp add: parseVolumeMapSiteFs_def parseVolumeMap_with_def parse_entries.simps findEndVolumeMapString_def)
  then have "parse_ShifterModule_key empty_UdiRootConfig ''module_m_siteFs'' ''/a:/etc''
     = (1, empty_UdiRootConfig\<lparr>modules := [(new_module ''m'')\<lparr>m_siteFs := Some empty_VolumeMap\<rparr>]\<rparr>)"
    by (simp add: parse_ShifterModule_key_def strtok_all_def last_module_index_def empty_UdiRootConfig_def
        new_module_def set_module_def)
  moreover have "assign_config (''module_'' @ k) value c = (0, snd (parse_ShifterModule_key c (''module_'' @ k) value))"
    by (simp add: assign_config_def Let_def)
  ultimately show ?thesis by blast
qed

end
