(* ===== verification/ImageData.thy ===== *)
theory ImageData
  imports UdiRootConfig
begin

text \<open>
  src/src/ImageData.c: the description of an image (read from its .meta file), the parsing of the
  image a user asks for, the lookup of its identifier and the check of its access lists.
\<close>

section \<open>Data\<close>

datatype ImageFormat = FORMAT_VFS | FORMAT_EXT4 | FORMAT_SQUASHFS | FORMAT_CRAMFS | FORMAT_XFS | FORMAT_INVALID

record ImageData =
  i_format :: ImageFormat
  i_filename :: "cstring option"
  i_env :: string_array
  i_entryPoint :: "cstring list option"
  i_cmd :: "cstring list option"
  i_workdir :: "cstring option"
  i_volume :: string_array
  i_useLoopMount :: bool
  i_identifier :: "cstring option"
  i_uids :: "nat list"
  i_gids :: "nat list"
  i_tag :: "cstring option"
  i_type :: "cstring option"
  i_status :: "cstring option"

definition empty_ImageData :: ImageData where
  "empty_ImageData =
     \<lparr>i_format = FORMAT_VFS, i_filename = None, i_env = sa_empty, i_entryPoint = None, i_cmd = None,
      i_workdir = None, i_volume = sa_empty, i_useLoopMount = False, i_identifier = None, i_uids = [],
      i_gids = [], i_tag = None, i_type = None, i_status = None\<rparr>"

definition ENV_ALLOC_SIZE :: nat where "ENV_ALLOC_SIZE = 512"
definition VOL_ALLOC_SIZE :: nat where "VOL_ALLOC_SIZE = 256"

definition allowedImageTypes :: "cstring list" where
  "allowedImageTypes = [''docker'', ''custom'', ''id'', ''local'']"

section \<open>Filters\<close>

definition image_char_ok :: "bool \<Rightarrow> char \<Rightarrow> bool" where
  "image_char_ok allowSlash c \<longleftrightarrow>
     isalnum c \<or> c = CHR ''_'' \<or> c = CHR '':'' \<or> c = CHR ''.'' \<or> c = CHR ''+'' \<or> c = CHR ''-'' \<or>
     c = CHR ''@'' \<or> (allowSlash \<and> c = CHR ''/'')"

definition ImageData_filterString :: "cstring \<Rightarrow> bool \<Rightarrow> cstring" where
  "ImageData_filterString input allowSlash = filter (image_char_ok allowSlash) input"

definition type_allows_slash :: "cstring option \<Rightarrow> bool" where
  "type_allows_slash type \<longleftrightarrow> type = Some ''local'' \<or> type = Some ''docker''"

definition imageDesc_filterString :: "cstring \<Rightarrow> cstring option \<Rightarrow> cstring" where
  "imageDesc_filterString input type = ImageData_filterString input (type_allows_slash type)"

section \<open>Access lists\<close>

text \<open>
  The numbers of a comma separated list; entries that are not numbers are skipped. None is the
  error of a list that grows beyond 1000 entries.
\<close>

fun collect_ids :: "cstring list \<Rightarrow> nat list \<Rightarrow> nat list option" where
  "collect_ids [] ids = Some ids"
| "collect_ids (t # ts) ids =
     (let ptr = shifter_trim t
      in if ptr = [] then collect_ids ts ids
         else if snd (strtol10 ptr) \<noteq> [] then collect_ids ts ids
         else
           let ids' = ids @ [strtoul10 ptr mod 2 ^ 32]
           in if 1000 < length ids' then None else collect_ids ts ids')"

text \<open>The result is the number of entries, 0 on an error, and the new list.\<close>

definition convert_to_list :: "cstring \<Rightarrow> nat list \<Rightarrow> nat \<times> nat list" where
  "convert_to_list input ids =
     (if input = [] then (0, ids)
      else case collect_ids (strtok_all (\<lambda>c. c = CHR '','') (shifter_trim input)) [] of
             None \<Rightarrow> (0, [])
           | Some new \<Rightarrow> (length new, new))"

definition check_image_permissions :: "nat \<Rightarrow> nat \<Rightarrow> nat list \<Rightarrow> ImageData \<Rightarrow> int" where
  "check_image_permissions actualUid actualGid aux_gids img =
     (if i_uids img = [] \<and> i_gids img = [] then 1
      else if \<exists>u\<in>set (i_uids img). u = actualUid then 1
      else if \<exists>g\<in>set (i_gids img). g = actualGid \<or> (\<exists>a\<in>set aux_gids. g = a) then 1
      else 0)"

section \<open>The description file\<close>

text \<open>
  One setting. The description is an \<open>outcome\<close> because an access list that names nobody ends the
  process with \<open>abort()\<close>; the reader then stops at once.
\<close>

definition parse_strings :: "cstring \<Rightarrow> cstring list option" where
  "parse_strings value = (if is_json_array value then split_json_array value else Some (make_string_array value))"

definition format_of :: "cstring \<Rightarrow> ImageFormat" where
  "format_of value =
     (if value = ''VFS'' then FORMAT_VFS
      else if value = ''ext4'' then FORMAT_EXT4
      else if value = ''squashfs'' then FORMAT_SQUASHFS
      else if value = ''cramfs'' then FORMAT_CRAMFS
      else if value = ''xfs'' then FORMAT_XFS
      else FORMAT_INVALID)"

definition ImageData_set :: "cstring \<Rightarrow> cstring \<Rightarrow> ImageData \<Rightarrow> int \<times> ImageData outcome" where
  "ImageData_set key value img =
     (if key = ''FORMAT'' then (0, Ret (img\<lparr>i_format := format_of value\<rparr>))
      else if key = ''ENV'' then (0, Ret (img\<lparr>i_env := append_word ENV_ALLOC_SIZE (i_env img) value\<rparr>))
      else if key = ''ENTRY'' then
        (if parse_strings value = None then 1 else 0, Ret (img\<lparr>i_entryPoint := parse_strings value\<rparr>))
      else if key = ''CMD'' then
        (if parse_strings value = None then 1 else 0, Ret (img\<lparr>i_cmd := parse_strings value\<rparr>))
      else if key = ''WORKDIR'' then (0, Ret (img\<lparr>i_workdir := Some value\<rparr>))
      else if key = ''USERACL'' then
        (let (n, ids) = convert_to_list value (i_uids img)
         in if value \<noteq> [] \<and> n = 0 then (-1, Abort) else (0, Ret (img\<lparr>i_uids := ids\<rparr>)))
      else if key = ''GROUPACL'' then
        (let (n, ids) = convert_to_list value (i_gids img)
         in if value \<noteq> [] \<and> n = 0 then (-1, Abort) else (0, Ret (img\<lparr>i_gids := ids\<rparr>)))
      else if key = ''VOLUME'' then
        (0, Ret (img\<lparr>i_volume := append_word VOL_ALLOC_SIZE (i_volume img) (ImageData_filterString value True)\<rparr>))
      else (0, Ret img))"

definition ImageData_assign :: "cstring \<Rightarrow> cstring \<Rightarrow> ImageData outcome \<Rightarrow> int \<times> ImageData outcome" where
  "ImageData_assign key value obj =
     (case obj of Ret img \<Rightarrow> ImageData_set key value img | other \<Rightarrow> (-1, other))"

definition format_extension :: "ImageFormat \<Rightarrow> cstring \<times> bool" where
  "format_extension f =
     (case f of
        FORMAT_VFS \<Rightarrow> ([], False)
      | FORMAT_EXT4 \<Rightarrow> (''ext4'', True)
      | FORMAT_SQUASHFS \<Rightarrow> (''squashfs'', True)
      | FORMAT_CRAMFS \<Rightarrow> (''cramfs'', True)
      | FORMAT_XFS \<Rightarrow> (''xfs'', True)
      | FORMAT_INVALID \<Rightarrow> (''invalid'', False))"

text \<open>A configuration without \<open>imagePath\<close> would make the code read a NULL string.\<close>

definition parse_ImageData ::
  "(cstring \<Rightarrow> cstring) \<Rightarrow> (cstring \<Rightarrow> cstring option) \<Rightarrow> cstring option \<Rightarrow> cstring \<Rightarrow> UdiRootConfig \<Rightarrow>
   ImageData \<Rightarrow> int \<times> ImageData outcome" where
  "parse_ImageData eofbuf readf type identifier config img =
     (if type = Some ''local'' then
        (0, Ret (img\<lparr>i_identifier := Some identifier, i_filename := Some identifier,
                       i_format := FORMAT_VFS, i_entryPoint := None, i_cmd := None, i_uids := [], i_gids := []\<rparr>))
      else case imageBasePath config of
        None \<Rightarrow> (-1, OutOfBounds)
      | Some base \<Rightarrow>
          let (ret, obj) = shifter_parseConfig eofbuf (readf (base @ ''/'' @ identifier @ ''.meta''))
                             (CHR '':'') (Ret img) ImageData_assign
          in if ret \<noteq> 0 then (ret, obj)
             else case obj of
               Ret im \<Rightarrow>
                 let (ext, loop) = format_extension (i_format im)
                 in (0, Ret (im\<lparr>i_useLoopMount := loop, i_filename := Some (base @ ''/'' @ identifier @ ''.'' @ ext),
                                i_identifier := Some identifier\<rparr>))
             | other \<Rightarrow> (-1, other))"

section \<open>What the user asks for\<close>

definition parse_ImageDescriptor ::
  "cstring option \<Rightarrow> UdiRootConfig \<Rightarrow> (cstring \<times> cstring) option" where
  "parse_ImageDescriptor userinput udiConfig =
     (case userinput of
        None \<Rightarrow> None
      | Some input \<Rightarrow>
          if input = [] then None
          else
            let found = (case strchr_split (CHR '':'') input of
                   None \<Rightarrow> None
                 | Some (a, b) \<Rightarrow>
                     let tmp = imageDesc_filterString a None
                     in if tmp \<in> set allowedImageTypes then Some (tmp, b) else None);
                choice = (case found of
                   Some tb \<Rightarrow> Some tb
                 | None \<Rightarrow> (case defaultImageType udiConfig of None \<Rightarrow> None | Some d \<Rightarrow> Some (d, input)))
            in case choice of
                 None \<Rightarrow> None
               | Some (type, ptr) \<Rightarrow>
                   if type = [] then None
                   else if type \<notin> set allowedImageTypes then None
                   else
                     let tag = imageDesc_filterString ptr (Some type)
                     in if tag = [] then None else Some (type, tag))"

text \<open>
  The output of \<open>shifterimg lookup\<close>: the first line that is neither a setting of the image nor
  contains a colon. \<open>popen\<close> itself does not fail here; a last line without newline is not used.
\<close>

fun scan_lookup :: "cstring list \<Rightarrow> cstring option" where
  "scan_lookup [] = None"
| "scan_lookup (l # ls) =
     (if l = [] \<or> last l \<noteq> NL then None
      else
        let ptr = shifter_trim l
        in if prefix ''ENV:'' ptr then scan_lookup ls
           else if prefix ''ENTRY:'' ptr then scan_lookup ls
           else if CHR '':'' \<notin> set ptr then Some ptr
           else scan_lookup ls)"

definition lookup_command :: "cstring \<Rightarrow> cstring \<Rightarrow> cstring \<Rightarrow> cstring" where
  "lookup_command udiRoot imageType imageTag =
     take 4095 (udiRoot @ ''/bin/shifterimg lookup '' @ imageType @ '':'' @ imageTag)"

definition lookup_ImageIdentifier :: "cstring \<Rightarrow> cstring \<Rightarrow> UdiRootConfig \<Rightarrow> cstring option sys" where
  "lookup_ImageIdentifier imageType imageTag config =
     (if imageType = [] \<or> imageTag = [] then yield None
      else if imageType = ''id'' \<or> imageType = ''local'' then yield (Some imageTag)
      else do {
        p \<leftarrow> syscall (Popen (lookup_command (show_str (udiRootPath config)) imageType imageTag));
        (let identifier = scan_lookup (file_lines (case r_text p of None \<Rightarrow> [] | Some t \<Rightarrow> t))
         in if r_rc p \<noteq> 0 then yield None else yield identifier)
      })"

section \<open>Print\<close>

definition format_name :: "ImageFormat \<Rightarrow> cstring" where
  "format_name f =
     (case f of FORMAT_VFS \<Rightarrow> ''VFS'' | FORMAT_EXT4 \<Rightarrow> ''EXT4'' | FORMAT_SQUASHFS \<Rightarrow> ''SQUASHFS''
      | FORMAT_CRAMFS \<Rightarrow> ''CRAMFS'' | FORMAT_XFS \<Rightarrow> ''XFS'' | FORMAT_INVALID \<Rightarrow> ''INVALID'')"

definition fprint_ImageData :: "ImageData option \<Rightarrow> cstring" where
  "fprint_ImageData img =
     ''***** ImageData *****'' @ [NL] @
     (case img of
        None \<Rightarrow> ''Null Image - Nothing to Display'' @ [NL]
      | Some im \<Rightarrow>
          ''Image Format: '' @ format_name (i_format im) @ [NL] @
          ''Filename: '' @ (case i_filename im of None \<Rightarrow> [] | Some f \<Rightarrow> f) @ [NL] @
          ''Image Env: '' @ show_nat (length (sa_items (i_env im))) @ '' defined variables'' @ [NL] @
          print_indented ''    '' (sa_items (i_env im)) @
          ''Image EntryPoint:'' @ [NL] @
          print_indented ''    '' (case i_entryPoint im of None \<Rightarrow> [] | Some e \<Rightarrow> e) @
          ''Volume Mounts: '' @ show_nat (length (sa_items (i_volume im))) @ '' mount points'' @ [NL] @
          print_indented ''    '' (sa_items (i_volume im)) @
          ''***** END ImageData *****'' @ [NL])"

section \<open>Facts about access lists\<close>

lemma show_nat_ends [simp]: "isdigit (hd (show_nat n))" "isdigit (last (show_nat n))"
  using show_nat_digits [of n] by simp_all

lemma comma_not_digit: "\<not> isdigit (CHR '','')"
  by (simp add: char_class_defs)

lemma collect_ids_joined:
  assumes "length ids + length ns \<le> 1000" "\<forall>n\<in>set ns. n < 2 ^ 32"
  shows "collect_ids (map show_nat ns) ids = Some (ids @ ns)"
  using assms
proof (induction ns arbitrary: ids)
  case (Cons n ns)
  have tr: "shifter_trim (show_nat n) = show_nat n"
    by (rule shifter_trim_id) (simp add: trimmed_def digit_not_space)
  have s: "strtol10 (show_nat n) = (int n, [])"
    using strtol10_show_nat [of "[]" n] by simp
  have "strtoul10 (show_nat n) = n"
    using Cons.prems(2) by (simp add: strtoul10_def s)
  then show ?case using Cons tr s by simp
qed simp

lemma joined_not_Nil: "ns \<noteq> [] \<Longrightarrow> join_with '','' (map show_nat ns) \<noteq> []"
  by (cases ns rule: remdups_adj.cases) auto

lemma joined_last: "ns \<noteq> [] \<Longrightarrow> last (join_with '','' (map show_nat ns)) = last (show_nat (last ns))"
proof (induction ns rule: induct_list012)
  case (3 x y zs)
  then show ?case using joined_not_Nil [of "y # zs"] by simp
qed simp_all

lemma convert_to_list_joined:
  assumes "ns \<noteq> []" "length ns \<le> 1000" "\<forall>n\<in>set ns. n < 2 ^ 32"
  shows "convert_to_list (join_with '','' (map show_nat ns)) ids = (length ns, ns)"
proof -
  let ?t = "join_with '','' (map show_nat ns)"
  have j: "split_on (\<lambda>c. c = CHR '','') ?t = map show_nat ns"
    by (rule split_on_join) (use assms(1) show_nat_digits comma_not_digit in auto)
  then have k: "strtok_all (\<lambda>c. c = CHR '','') ?t = map show_nat ns"
    by (simp add: strtok_all_def filter_id_conv)
  obtain m ms where ns: "ns = m # ms" using assms(1) by (cases ns) simp_all
  have ne: "?t \<noteq> []" and h: "hd ?t = hd (show_nat m)"
    by (cases ms; simp add: ns)+
  have l: "last ?t = last (show_nat (last ns))"
    by (rule joined_last [OF assms(1)])
  have "trimmed ?t"
    using h l digit_not_space ne by (simp add: trimmed_def)
  then show ?thesis
    using ne k collect_ids_joined [of "[]" ns] assms by (simp add: convert_to_list_def)
qed

lemma convert_to_list_length: "v \<noteq> [] \<Longrightarrow> convert_to_list v ids = (n, ids') \<Longrightarrow> n = length ids'"
  by (auto simp: convert_to_list_def split: if_splits option.splits)

lemma check_image_permissions_iff:
  "check_image_permissions u g aux im = 1 \<longleftrightarrow>
     i_uids im = [] \<and> i_gids im = [] \<or> u \<in> set (i_uids im) \<or> set (g # aux) \<inter> set (i_gids im) \<noteq> {}"
  by (auto simp: check_image_permissions_def)

section \<open>Facts about the description file\<close>

text \<open>No assignment makes a restricted image unrestricted again.\<close>

definition restricted :: "ImageData outcome \<Rightarrow> bool" where
  "restricted obj = (case obj of Ret im \<Rightarrow> i_uids im \<noteq> [] \<or> i_gids im \<noteq> [] | _ \<Rightarrow> False)"

lemma ImageData_assign_uids:
  assumes "ImageData_assign k v (Ret im) = (0, Ret im')"
  shows "i_uids im' = i_uids im \<or> k = ''USERACL'' \<and> v \<noteq> [] \<and> i_uids im' \<noteq> []"
    and "k = ''USERACL'' \<Longrightarrow> v \<noteq> [] \<Longrightarrow> i_uids im' \<noteq> []"
  using assms
  by (auto simp: ImageData_assign_def ImageData_set_def convert_to_list_def split: if_splits option.splits prod.splits)

lemma ImageData_assign_gids:
  assumes "ImageData_assign k v (Ret im) = (0, Ret im')"
  shows "i_gids im' = i_gids im \<or> k = ''GROUPACL'' \<and> v \<noteq> [] \<and> i_gids im' \<noteq> []"
    and "k = ''GROUPACL'' \<Longrightarrow> v \<noteq> [] \<Longrightarrow> i_gids im' \<noteq> []"
  using assms
  by (auto simp: ImageData_assign_def ImageData_set_def convert_to_list_def split: if_splits option.splits prod.splits)

lemma ImageData_assign_Ret:
  "ImageData_assign k v obj = (0, obj') \<Longrightarrow> \<exists>im im'. obj = Ret im \<and> obj' = Ret im'"
  by (cases obj)
    (auto simp: ImageData_assign_def ImageData_set_def split: if_splits prod.splits)

lemma ImageData_assign_restricted:
  assumes "ImageData_assign k v obj = (0, obj')"
  shows "restricted obj \<Longrightarrow> restricted obj'"
    and "k = ''USERACL'' \<or> k = ''GROUPACL'' \<Longrightarrow> v \<noteq> [] \<Longrightarrow> restricted obj'"
  using ImageData_assign_Ret [OF assms] ImageData_assign_uids ImageData_assign_gids assms
  by (fastforce simp: restricted_def)+

interpretation acl: config_assign ImageData_assign restricted
  by unfold_locales (rule ImageData_assign_restricted)

interpretation described: config_assign ImageData_assign "\<lambda>obj. \<exists>im. obj = Ret im"
  by unfold_locales (use ImageData_assign_Ret in blast)

text \<open>Reading a description never sets the type of the image.\<close>

interpretation typed: config_assign ImageData_assign
    "\<lambda>obj. case obj of Ret im \<Rightarrow> i_type im = t | _ \<Rightarrow> True" for t
proof
  fix obj obj' :: "ImageData outcome" and k v
  assume "case obj of Ret im \<Rightarrow> i_type im = t | _ \<Rightarrow> True" "ImageData_assign k v obj = (0, obj')"
  then show "case obj' of Ret im \<Rightarrow> i_type im = t | _ \<Rightarrow> True"
    by (auto simp: ImageData_assign_def ImageData_set_def split: outcome.splits if_splits prod.splits)
qed

lemma assign_all_acl:
  assumes "assign_all ImageData_assign kvs obj = (0, obj')"
    and "restricted obj \<or> (k = ''USERACL'' \<or> k = ''GROUPACL'') \<and> (k, v) \<in> set kvs \<and> v \<noteq> []"
  shows "restricted obj'"
  using assms
proof (induction kvs arbitrary: obj)
  case (Cons kv kvs)
  obtain k' v' where kv: "kv = (k', v')" by fastforce
  obtain ob1 where s: "ImageData_assign k' v' obj = (0, ob1)" "assign_all ImageData_assign kvs ob1 = (0, obj')"
    using Cons.prems(1) kv by (auto simp: Let_def split: prod.splits if_splits)
  have "restricted ob1 \<or> (k = ''USERACL'' \<or> k = ''GROUPACL'') \<and> (k, v) \<in> set kvs \<and> v \<noteq> []"
    using Cons.prems(2) kv ImageData_assign_restricted [OF s(1)] by auto
  then show ?case using Cons.IH s(2) by blast
qed simp

lemma parse_ImageData_cases:
  assumes "parse_ImageData eofbuf readf type ident config im = (0, Ret im')" "type \<noteq> Some ''local''"
  obtains base img where "imageBasePath config = Some base"
    "shifter_parseConfig eofbuf (readf (base @ ''/'' @ ident @ ''.meta'')) (CHR '':'') (Ret im) ImageData_assign = (0, Ret img)"
    "im' = img\<lparr>i_useLoopMount := snd (format_extension (i_format img)),
               i_filename := Some (base @ ''/'' @ ident @ ''.'' @ fst (format_extension (i_format img))),
               i_identifier := Some ident\<rparr>"
  using assms
  by (auto simp: parse_ImageData_def Let_def split: option.splits prod.splits if_splits outcome.splits)

lemma parse_ImageData_type:
  assumes "parse_ImageData eofbuf readf type ident config im = (0, Ret im')"
  shows "i_type im' = i_type im"
proof (cases "type = Some ''local''")
  case True
  with assms show ?thesis by (auto simp: parse_ImageData_def)
next
  case False
  obtain base img where
    "shifter_parseConfig eofbuf (readf (base @ ''/'' @ ident @ ''.meta'')) (CHR '':'') (Ret im) ImageData_assign = (0, Ret img)"
    "i_type im' = i_type img" by (rule parse_ImageData_cases [OF assms False]) auto
  with typed.parseConfig_inv [where t = "i_type im" and obj = "Ret im" and obj' = "Ret img"] show ?thesis by simp
qed

section \<open>Facts about the image descriptor\<close>

lemma imageDesc_filterString_chars:
  "c \<in> set (imageDesc_filterString s t) \<Longrightarrow> image_char_ok (type_allows_slash t) c \<and> c \<in> set s"
  by (simp add: imageDesc_filterString_def ImageData_filterString_def)

lemma parse_ImageDescriptor_Some:
  assumes "parse_ImageDescriptor u c = Some (type, tag)"
  shows "type \<in> set allowedImageTypes \<and> tag \<noteq> [] \<and>
    (\<exists>s. tag = imageDesc_filterString s (Some type) \<and> (\<exists>p. u = Some (p @ s)))"
proof -
  obtain inp where u: "u = Some inp" "inp \<noteq> []"
    using assms by (auto simp: parse_ImageDescriptor_def split: option.splits if_splits)
  show ?thesis
  proof (cases "strchr_split (CHR '':'') inp")
    case None
    then show ?thesis using assms u
      by (auto simp: parse_ImageDescriptor_def Let_def split: option.splits if_splits intro: exI [of _ "[]"])
  next
    case (Some ab)
    obtain a b where ab: "ab = (a, b)" by fastforce
    have "inp = (a @ '':'') @ b" using strchr_split_Some Some ab by fastforce
    then show ?thesis using assms u Some ab
      by (auto simp: parse_ImageDescriptor_def Let_def split: option.splits if_splits prod.splits
          intro: exI [of _ "[]"])
  qed
qed

definition shell_plain :: "char \<Rightarrow> bool" where
  "shell_plain c \<longleftrightarrow> isalnum c \<or> c \<in> set ''_:.+-@/''"

lemma image_char_shell_plain: "image_char_ok b c \<Longrightarrow> shell_plain c"
  by (auto simp: image_char_ok_def shell_plain_def)

lemma allowed_type_plain: "type \<in> set allowedImageTypes \<Longrightarrow> \<forall>c\<in>set type. shell_plain c"
  unfolding allowedImageTypes_def by (elim set_ConsD [THEN disjE]; simp add: shell_plain_def char_class_defs)

lemma lookup_effects:
  "effects (lookup_ImageIdentifier type tag config)
     (\<lambda>x es. (if type = [] \<or> tag = [] then x = None \<and> es = []
              else if type = ''id'' \<or> type = ''local'' then x = Some tag \<and> es = []
              else \<exists>r. es = [(Popen (lookup_command (show_str (udiRootPath config)) type tag), r)]
                     \<and> x = (if r_rc r = 0 then scan_lookup (file_lines (case r_text r of None \<Rightarrow> [] | Some t \<Rightarrow> t)) else None)))"
  by (auto simp: lookup_ImageIdentifier_def Let_def intro!: effects_yield effects_call_bind)

lemma parse_ImageDescriptor_typed:
  assumes "type \<in> set allowedImageTypes" "tag \<noteq> []" "\<forall>c\<in>set tag. image_char_ok (type_allows_slash (Some type)) c"
  shows "parse_ImageDescriptor (Some (type @ '':'' @ tag)) config = Some (type, tag)"
proof -
  have plain: "imageDesc_filterString type None = type" "CHR '':'' \<notin> set type" "type \<noteq> []"
    using assms(1)
    by (auto simp: allowedImageTypes_def imageDesc_filterString_def ImageData_filterString_def
        type_allows_slash_def image_char_ok_def char_class_defs)
  have "imageDesc_filterString tag (Some type) = tag"
    using assms(3) by (simp add: imageDesc_filterString_def ImageData_filterString_def)
  then show ?thesis
    using assms(1,2) plain strchr_split_append [OF plain(2), of tag]
    by (simp add: parse_ImageDescriptor_def)
qed

lemma joined_trimmed: "ns \<noteq> [] \<Longrightarrow> trimmed (join_with '','' (map show_nat ns))"
proof -
  assume ns: "ns \<noteq> []"
  then obtain m ms where "ns = m # ms" by (cases ns) simp_all
  then have "hd (join_with '','' (map show_nat ns)) = hd (show_nat m)"
    by (cases ms) simp_all
  then show ?thesis using joined_last [OF ns] by (simp add: trimmed_def digit_not_space)
qed

lemma joined_chars: "c \<in> set (join_with '','' (map show_nat ns)) \<Longrightarrow> isdigit c \<or> c = CHR '',''"
  by (induction ns rule: induct_list012) (use show_nat_digits in auto)

lemma joined_entry:
  assumes "ns \<noteq> []" "k \<in> {''USERACL'', ''GROUPACL''}"
  shows "simple_entry (CHR '':'') (k, join_with '','' (map show_nat ns))"
proof -
  have "last (join_with '','' (map show_nat ns)) \<noteq> BSLASH" "NL \<notin> set (join_with '','' (map show_nat ns))"
    using joined_chars [of BSLASH ns] joined_chars [of NL ns] joined_last [OF assms(1)] show_nat_ends(2) [of "last ns"]
    by (auto simp: special_char_defs char_class_defs)
  then show ?thesis using assms joined_trimmed [OF assms(1)]
    by (auto simp: simple_entry_def trimmed_def char_class_defs special_char_defs)
qed

lemma assign_acl:
  assumes "us \<noteq> []" "length us \<le> 1000" "\<forall>n\<in>set us. n < 2 ^ 32"
  shows "ImageData_assign ''USERACL'' (join_with '','' (map show_nat us)) (Ret im) = (0, Ret (im\<lparr>i_uids := us\<rparr>))"
    and "ImageData_assign ''GROUPACL'' (join_with '','' (map show_nat us)) (Ret im) = (0, Ret (im\<lparr>i_gids := us\<rparr>))"
  using convert_to_list_joined [OF assms] assms(1)
  by (simp_all add: ImageData_assign_def ImageData_set_def)

section \<open>Properties\<close>

text \<open>
  C15. Access control fails closed: when a description with a USERACL or GROUPACL line that is not
  empty has been read without an error, only a listed user, or a member of a listed group, passes the
  permission check; a list of which no entry is a number never turns into an image open to everybody
  (the process aborts instead), and no later line lifts the restriction.
\<close>

theorem image_acl_fail_closed:
  assumes "parse_ImageData eofbuf readf type ident config im = (0, Ret im')"
    and "type \<noteq> Some ''local''" "imageBasePath config = Some base"
    and "readf (base @ ''/'' @ ident @ ''.meta'') = Some (concat (map (entry_line (CHR '':'')) kvs))"
    and "\<forall>kv\<in>set kvs. simple_entry (CHR '':'') kv" "eofbuf = (\<lambda>b. b) \<or> eofbuf = (\<lambda>b. [])"
    and "k = ''USERACL'' \<or> k = ''GROUPACL''" "(k, v) \<in> set kvs" "v \<noteq> []"
  shows "check_image_permissions u g aux im' = 1 \<longleftrightarrow>
           u \<in> set (i_uids im') \<or> set (g # aux) \<inter> set (i_gids im') \<noteq> {}"
proof -
  obtain img where a: "shifter_parseConfig eofbuf (readf (base @ ''/'' @ ident @ ''.meta'')) (CHR '':'') (Ret im) ImageData_assign = (0, Ret img)"
    and e: "i_uids im' = i_uids img" "i_gids im' = i_gids img"
    by (rule parse_ImageData_cases [OF assms(1,2)]) (use assms(3) in auto)
  have "assign_all ImageData_assign kvs (Ret im) = (0, Ret img)"
    using a assms(4) parseConfig_entries [OF assms(5) _ _ assms(6), where obj = "Ret im" and assign = ImageData_assign] by (simp add: special_char_defs)
  then have "restricted (Ret img)"
    by (rule assign_all_acl) (use assms(7-9) in blast)
  then show ?thesis
    using e by (auto simp: restricted_def check_image_permissions_iff)
qed

definition sample_config :: UdiRootConfig where
  "sample_config = empty_UdiRootConfig\<lparr>imageBasePath := Some ''/images'', udiRootPath := Some ''/opt''\<rparr>"

lemma image_acl_fail_closed_witness:
  "\<exists>im. parse_ImageData (\<lambda>b. b) (\<lambda>p. Some (concat (map (entry_line (CHR '':''))
            [(''USERACL'', join_with '','' (map show_nat [1000, 1001]))]))) (Some ''docker'') ''abc'' sample_config
            empty_ImageData = (0, Ret im) \<and>
        check_image_permissions 1001 5 [] im = 1 \<and> check_image_permissions 7 5 [] im \<noteq> 1"
proof -
  define kvs where "kvs = [(''USERACL'', join_with '','' (map show_nat [1000, 1001]))]"
  let ?readf = "\<lambda>p::cstring. Some (concat (map (entry_line (CHR '':'')) kvs))"
  have k: "\<forall>kv\<in>set kvs. simple_entry (CHR '':'') kv" "snd (hd kvs) \<noteq> []"
    using joined_entry [of "[1000, 1001]" "''USERACL''"] joined_not_Nil [of "[1000, 1001]"] by (simp_all add: kvs_def)
  have p: "shifter_parseConfig (\<lambda>b. b) (Some (concat (map (entry_line (CHR '':'')) kvs))) (CHR '':'')
      (Ret empty_ImageData) ImageData_assign = (0, Ret (empty_ImageData\<lparr>i_uids := [1000, 1001]\<rparr>))"
    using parseConfig_entries [OF k(1), of "\<lambda>b. b" "Ret empty_ImageData" ImageData_assign] assign_acl(1) [of "[1000, 1001]" empty_ImageData]
    by (simp add: kvs_def special_char_defs)
  then obtain im where im: "parse_ImageData (\<lambda>b. b) ?readf (Some ''docker'') ''abc'' sample_config empty_ImageData = (0, Ret im)"
    and u: "i_uids im = [1000, 1001]" "i_gids im = []"
    by (fastforce simp: parse_ImageData_def sample_config_def empty_ImageData_def format_extension_def)
  have "check_image_permissions u g [] im = 1 \<longleftrightarrow> u \<in> set (i_uids im) \<or> set [g] \<inter> set (i_gids im) \<noteq> {}" for u g
    by (rule image_acl_fail_closed [OF im _ _ _ k(1), of "''/images''" "''USERACL''" "snd (hd kvs)"])
       (use k(2) in \<open>auto simp: sample_config_def kvs_def\<close>)
  then have "check_image_permissions 1001 5 [] im = 1" "check_image_permissions 7 5 [] im \<noteq> 1"
    using u by auto
  then show ?thesis using im by (auto simp: kvs_def)
qed

text \<open>
  Access lists round trip: the description that lists the user ids us and the group ids gs is
  read as a loop mounted squashfs image of the base directory that exactly these users and the
  members of exactly these groups may use.
\<close>

theorem image_acl_exact:
  assumes "us \<noteq> []" "length us \<le> 1000" "\<forall>n\<in>set us. n < 2 ^ 32"
    and "gs \<noteq> []" "length gs \<le> 1000" "\<forall>n\<in>set gs. n < 2 ^ 32"
    and "type \<noteq> Some ''local''" "imageBasePath config = Some base"
    and "readf (base @ ''/'' @ ident @ ''.meta'') =
           Some (''FORMAT:squashfs'' @ [NL] @ ''USERACL:'' @ join_with '','' (map show_nat us) @ [NL] @
                 ''GROUPACL:'' @ join_with '','' (map show_nat gs) @ [NL])"
    and "eofbuf = (\<lambda>b. b) \<or> eofbuf = (\<lambda>b. [])"
  shows "\<exists>im. parse_ImageData eofbuf readf type ident config empty_ImageData = (0, Ret im) \<and>
           i_useLoopMount im \<and> i_filename im = Some (base @ ''/'' @ ident @ ''.squashfs'') \<and>
           (\<forall>u g aux. check_image_permissions u g aux im = 1 \<longleftrightarrow> u \<in> set us \<or> set (g # aux) \<inter> set gs \<noteq> {})"
proof -
  define kvs where "kvs = [(''FORMAT'', ''squashfs''), (''USERACL'', join_with '','' (map show_nat us)),
    (''GROUPACL'', join_with '','' (map show_nat gs))]"
  define im where "im = empty_ImageData\<lparr>i_format := FORMAT_SQUASHFS, i_uids := us, i_gids := gs\<rparr>"
  have k: "\<forall>kv\<in>set kvs. simple_entry (CHR '':'') kv"
    unfolding kvs_def using joined_entry [OF assms(1)] joined_entry [OF assms(4)]
    by (auto simp: simple_entry_def trimmed_def char_class_defs special_char_defs)
  have f: "ImageData_assign ''FORMAT'' ''squashfs'' (Ret empty_ImageData) =
      (0, Ret (empty_ImageData\<lparr>i_format := FORMAT_SQUASHFS\<rparr>))"
    by (simp add: ImageData_assign_def ImageData_set_def format_of_def)
  have "assign_all ImageData_assign kvs (Ret empty_ImageData) = (0, Ret im)"
    using assign_acl(1) [OF assms(1-3)] assign_acl(2) [OF assms(4-6)] f by (simp add: kvs_def im_def)
  moreover have "readf (base @ ''/'' @ ident @ ''.meta'') = Some (concat (map (entry_line (CHR '':'')) kvs))"
    using assms(9) by (simp add: kvs_def entry_line_def)
  ultimately have "shifter_parseConfig eofbuf (readf (base @ ''/'' @ ident @ ''.meta'')) (CHR '':'')
      (Ret empty_ImageData) ImageData_assign = (0, Ret im)"
    using parseConfig_entries [OF k _ _ assms(10), of "Ret empty_ImageData" ImageData_assign] by (simp add: special_char_defs)
  then show ?thesis
    using assms(1,4,7,8)
    by (auto simp: parse_ImageData_def im_def format_extension_def check_image_permissions_iff)
qed

lemma image_acl_exact_witness:
  "\<exists>im. parse_ImageData (\<lambda>b. []) (\<lambda>p. Some (''FORMAT:squashfs'' @ [NL] @
             ''USERACL:'' @ join_with '','' (map show_nat [1000]) @ [NL] @
             ''GROUPACL:'' @ join_with '','' (map show_nat [50, 60]) @ [NL])) None ''abc'' sample_config empty_ImageData = (0, Ret im) \<and>
        i_filename im = Some ''/images/abc.squashfs'' \<and>
        check_image_permissions 7 60 [] im = 1 \<and> check_image_permissions 7 61 [62] im \<noteq> 1"
proof -
  let ?readf = "\<lambda>p::cstring. Some (''FORMAT:squashfs'' @ [NL] @ ''USERACL:'' @ join_with '','' (map show_nat [1000]) @ [NL] @
      ''GROUPACL:'' @ join_with '','' (map show_nat [50, 60]) @ [NL])"
  from image_acl_exact [of "[1000]" "[50, 60]" None sample_config "''/images''" ?readf "''abc''" "\<lambda>b. []"]
  obtain im where "parse_ImageData (\<lambda>b. []) ?readf None ''abc'' sample_config empty_ImageData = (0, Ret im)"
    "i_filename im = Some (''/images'' @ ''/'' @ ''abc'' @ ''.squashfs'')"
    "\<forall>u g aux. check_image_permissions u g aux im = 1 \<longleftrightarrow> u \<in> set [1000] \<or> set (g # aux) \<inter> set [50, 60] \<noteq> {}"
    by (auto simp: sample_config_def)
  then show ?thesis by (intro exI [of _ im]) simp
qed

text \<open>
  C27. What a user asks for is made safe before it is used: the type is one of the allowed ones, the tag
  is the filtered rest of the request, contains a slash only for the types docker and local, and the
  only command that the lookup hands to a shell consists of the configured program, its fixed
  argument, and characters without a meaning to the shell.
\<close>

theorem parse_ImageDescriptor_sound:
  assumes "parse_ImageDescriptor u config = Some (type, tag)"
  shows "type \<in> set allowedImageTypes \<and> tag \<noteq> [] \<and>
    (CHR ''/'' \<in> set tag \<longrightarrow> type = ''docker'' \<or> type = ''local'') \<and>
    effects (lookup_ImageIdentifier type tag config)
      (\<lambda>x es. (type = ''id'' \<or> type = ''local'' \<longrightarrow> es = [] \<and> x = Some tag) \<and>
        (\<forall>ev\<in>set es. \<exists>w. (\<forall>c\<in>set w. shell_plain c) \<and>
           fst ev = Popen (take 4095 (show_str (udiRootPath config) @ ''/bin/shifterimg lookup '' @ w))))"
proof -
  from parse_ImageDescriptor_Some [OF assms] obtain s where
    t: "type \<in> set allowedImageTypes" "tag \<noteq> []" "tag = imageDesc_filterString s (Some type)" by blast
  have chars: "image_char_ok (type_allows_slash (Some type)) c" if "c \<in> set tag" for c
    using imageDesc_filterString_chars that t(3) by blast
  have slash: "CHR ''/'' \<in> set tag \<longrightarrow> type = ''docker'' \<or> type = ''local''"
    using chars [of "CHR ''/''"] by (auto simp: image_char_ok_def type_allows_slash_def char_class_defs)
  have "type \<noteq> []" using t(1) by (auto simp: allowedImageTypes_def)
  have colon: "shell_plain (CHR '':'')" by (simp add: shell_plain_def)
  have plain: "\<forall>c\<in>set (type @ '':'' @ tag). shell_plain c"
    using allowed_type_plain [OF t(1)] chars [THEN image_char_shell_plain] colon by (simp add: ball_Un)
  have cmd: "lookup_command r type tag = take 4095 (r @ ''/bin/shifterimg lookup '' @ (type @ '':'' @ tag))" for r
    by (simp add: lookup_command_def)
  have "effects (lookup_ImageIdentifier type tag config)
      (\<lambda>x es. (type = ''id'' \<or> type = ''local'' \<longrightarrow> es = [] \<and> x = Some tag) \<and>
        (\<forall>ev\<in>set es. \<exists>w. (\<forall>c\<in>set w. shell_plain c) \<and>
           fst ev = Popen (take 4095 (show_str (udiRootPath config) @ ''/bin/shifterimg lookup '' @ w))))"
  proof (rule effects_mono [OF lookup_effects], goal_cases)
    case (1 x es)
    then consider "es = []" "x = Some tag"
      | r where "\<not> (type = ''id'' \<or> type = ''local'')"
          "es = [(Popen (lookup_command (show_str (udiRootPath config)) type tag), r)]"
      using t(2) \<open>type \<noteq> []\<close> by (auto split: if_split_asm)
    then show ?case
    proof cases
      case 2
      then show ?thesis using plain cmd [of "show_str (udiRootPath config)"] by (metis fst_conv list.set_cases set_ConsD empty_iff list.set(1))
    qed simp
  qed
  with t slash show ?thesis by blast
qed

lemma parse_ImageDescriptor_sound_witness:
  "parse_ImageDescriptor (Some ''id:x/;y'') sample_config = Some (''id'', ''xy'') \<and>
   CHR ''/'' \<notin> set ''xy'' \<and> fst (run_state (lookup_ImageIdentifier ''id'' ''xy'' sample_config) calm_world) = Some ''xy''"
proof -
  have sp: "strchr_split (CHR '':'') ''id:x/;y'' = Some (''id'', ''x/;y'')"
    using strchr_split_append [of "CHR '':''" "''id''" "''x/;y''"] by simp
  have f: "imageDesc_filterString ''id'' None = ''id''" "imageDesc_filterString ''x/;y'' (Some ''id'') = ''xy''"
    by (simp_all add: imageDesc_filterString_def ImageData_filterString_def image_char_ok_def type_allows_slash_def
        char_class_defs)
  have p: "parse_ImageDescriptor (Some ''id:x/;y'') sample_config = Some (''id'', ''xy'')"
    by (simp add: parse_ImageDescriptor_def sp f allowedImageTypes_def)
  note s = parse_ImageDescriptor_sound [OF p]
  have e: "effects (lookup_ImageIdentifier ''id'' ''xy'' sample_config) (\<lambda>x es. x = Some ''xy'')"
    by (rule effects_mono [OF s [THEN conjunct2, THEN conjunct2, THEN conjunct2]]) simp
  obtain x w where "run_state (lookup_ImageIdentifier ''id'' ''xy'' sample_config) calm_world = (x, w)" by fastforce
  with effects_run [OF e this] p show ?thesis by simp
qed

text \<open>
  A request with an explicit type round trips: an allowed type, a colon and a tag of
  allowed characters (colons included) parse to exactly this type and tag, whatever the default
  type of the configuration is.
\<close>

theorem parse_ImageDescriptor_roundtrip:
  assumes "type \<in> set allowedImageTypes" "tag \<noteq> []"
    and "\<forall>c\<in>set tag. image_char_ok (type = ''local'' \<or> type = ''docker'') c"
  shows "parse_ImageDescriptor (Some (type @ '':'' @ tag)) config = Some (type, tag)"
  by (rule parse_ImageDescriptor_typed) (use assms in \<open>simp_all add: type_allows_slash_def\<close>)

lemma parse_ImageDescriptor_roundtrip_witness:
  "parse_ImageDescriptor (Some ''docker:a/b:1'') sample_config = Some (''docker'', ''a/b:1'')"
  using parse_ImageDescriptor_roundtrip [of "''docker''" "''a/b:1''" sample_config]
  by (simp add: image_char_ok_def allowedImageTypes_def char_class_defs)

end
