(* ===== verification/CoreMount.thy ===== *)
theory CoreMount
  imports MountList UdiRootConfig
begin

text \<open>
  src/src/shifter_core.c, the part that changes the mount table: bind mounts with their remounts,
  unmounting of trees, the check that a path is unmounted, the tear down of a container, the
  preparation of the container root, the supported file systems and the helper that runs a program. The
  process's own mount table is a \<open>MountList\<close> that the functions keep in step with the calls.
\<close>

section \<open>Constants\<close>

definition MS_RDONLY :: nat where "MS_RDONLY = 1"
definition MS_NOSUID :: nat where "MS_NOSUID = 2"
definition MS_NODEV :: nat where "MS_NODEV = 4"
definition MS_REMOUNT :: nat where "MS_REMOUNT = 32"
definition MS_BIND :: nat where "MS_BIND = 4096"
definition MS_REC :: nat where "MS_REC = 16384"
definition MS_PRIVATE :: nat where "MS_PRIVATE = 262144"
definition MS_SLAVE :: nat where "MS_SLAVE = 524288"
definition MNT_DETACH :: nat where "MNT_DETACH = 2"
definition UMOUNT_NOFOLLOW :: nat where "UMOUNT_NOFOLLOW = 8"
definition BINDMOUNT_OVERWRITE_UNMOUNT_RETRY :: nat where "BINDMOUNT_OVERWRITE_UNMOUNT_RETRY = 3"
definition EEXIST :: nat where "EEXIST = 17"
definition SIGTERM :: nat where "SIGTERM = 15"

lemmas mount_flag_defs = MS_RDONLY_def MS_NOSUID_def MS_NODEV_def MS_REMOUNT_def MS_BIND_def MS_REC_def
  MS_PRIVATE_def MS_SLAVE_def volmap_flag_defs

text \<open>A \<open>snprintf\<close> into a buffer of \<open>PATH_MAX\<close> bytes cuts the text.\<close>

definition PATH_MAX :: nat where "PATH_MAX = 4096"

definition path_buffer :: "cstring \<Rightarrow> cstring" where
  "path_buffer s = take (PATH_MAX - 1) s"

section \<open>Running a program\<close>

text \<open>
  The child executes the program; the parent waits for it. \<open>waitpid\<close> without options returns when
  the child has exited or was killed, so one round of the loop is all; its status is the text of the
  answer: none when a signal ended the child.
\<close>

definition fork_and_exec :: "cstring list \<Rightarrow> bool \<Rightarrow> int sys" where
  "fork_and_exec args silent =
     do {
       pid \<leftarrow> syscall (Fork args silent);
       if r_rc pid < 0 then yield 1
       else do {
         st \<leftarrow> syscall (Waitpid (r_rc pid));
         if r_rc st \<noteq> r_rc pid then yield 1
         else (case r_text st of
                 None \<Rightarrow> yield 1
               | Some status \<Rightarrow> yield (fst (strtol10 status)))
       }
     }"

definition forkAndExecv :: "cstring list \<Rightarrow> int sys" where
  "forkAndExecv args = fork_and_exec args False"

definition forkAndExecvSilent :: "cstring list \<Rightarrow> int sys" where
  "forkAndExecvSilent args = fork_and_exec args True"

section \<open>The mount table of the process\<close>

definition read_mounts :: "MountList \<Rightarrow> (int \<times> MountList) sys" where
  "read_mounts mounts =
     do {
       pid \<leftarrow> syscall Getpid;
       f \<leftarrow> syscall (ReadFile (''/proc/'' @ show_int (r_rc pid) @ ''/mounts''));
       yield (parse_MountList (r_text f) mounts)
     }"

text \<open>A NULL array cannot be reversed; the callers below never try, see \<open>unmountTree_order\<close>.\<close>

definition set_order :: "MountListSortOrder \<Rightarrow> MountList \<Rightarrow> MountList" where
  "set_order s m = (case setSort_MountList m s of Ret m' \<Rightarrow> m' | _ \<Rightarrow> m)"

text \<open>The test of \<open>unmountTree\<close>: the base itself, or a path that goes on with a slash after it.\<close>

definition in_tree :: "cstring \<Rightarrow> cstring \<Rightarrow> bool" where
  "in_tree base p \<longleftrightarrow>
     prefix base p \<and>
     (let tail = drop (length base) p
      in if CHR ''/'' \<in> set tail then length (takeWhile (\<lambda>c. c \<noteq> CHR ''/'') tail) = 0
         else \<not> length p > length base)"

fun unmount_entries :: "cstring \<Rightarrow> cstring list \<Rightarrow> MountList \<Rightarrow> (int \<times> MountList) sys" where
  "unmount_entries base [] mountCache = yield (0, mountCache)"
| "unmount_entries base (p # ps) mountCache =
     (if \<not> in_tree base p then unmount_entries base ps mountCache
      else do {
        r \<leftarrow> syscall (Umount2 p (UMOUNT_NOFOLLOW OR MNT_DETACH));
        if r_rc r \<noteq> 0 then yield (r_rc r, mountCache)
        else unmount_entries base ps (snd (insert_MountList mountCache p))
      })"

definition unmountTree :: "MountList \<Rightarrow> cstring \<Rightarrow> (int \<times> MountList) sys" where
  "unmountTree mounts base =
     (if base = [] then yield (1, mounts)
      else do {
        (rc, mountCache) \<leftarrow> unmount_entries base
            (mountPointList (set_order MOUNT_SORT_REVERSE mounts)) empty_MountList;
        yield (rc, set_order (sorted_as mounts)
                   (foldl remove_MountList (set_order MOUNT_SORT_REVERSE mounts)
                      (mountPointList mountCache)))
      })"

definition validateUnmounted :: "cstring \<Rightarrow> bool \<Rightarrow> int sys" where
  "validateUnmounted path subtree =
     do {
       (r, mounts) \<leftarrow> read_mounts empty_MountList;
       if r \<noteq> 0 then yield (-1)
       else if subtree then yield (if findstartswith_MountList mounts path \<noteq> None then 1 else 0)
       else yield (if find_MountList mounts path \<noteq> None then 1 else 0)
     }"

section \<open>Bind mounts\<close>

text \<open>
  Mounting over an existing mount: up to \<open>n\<close> rounds of unmounting it. The result is 1 when an unmount
  fails; after the last round the mount goes on whatever the check said.
\<close>

fun unmount_retry :: "nat \<Rightarrow> MountList \<Rightarrow> cstring \<Rightarrow> (int \<times> MountList) sys" where
  "unmount_retry 0 mountCache to_real = yield (0, mountCache)"
| "unmount_retry (Suc n) mountCache to_real =
     do {
       (r, mountCache1) \<leftarrow> unmountTree mountCache to_real;
       if r \<noteq> 0 then yield (1, mountCache1)
       else do {
         v \<leftarrow> validateUnmounted to_real False;
         if v = 0 then yield (0, mountCache1)
         else do {
           u \<leftarrow> syscall (Usleep 300000);
           unmount_retry n mountCache1 to_real
         }
       }
     }"

definition propagation :: "nat \<Rightarrow> nat \<Rightarrow> nat" where
  "propagation style flags =
     (if flags AND VOLMAP_FLAG_SLAVE \<noteq> 0 then MS_SLAVE
      else if flags AND VOLMAP_FLAG_PRIVATE \<noteq> 0 then MS_PRIVATE
      else if style = VOLMAP_FLAG_SLAVE then MS_SLAVE else MS_PRIVATE)"

definition recursive_bind :: "cstring \<Rightarrow> nat \<Rightarrow> bool" where
  "recursive_bind from flags \<longleftrightarrow> from = ''/dev'' \<or> flags AND VOLMAP_FLAG_RECURSIVE \<noteq> 0"

definition mount_flags :: "cstring \<Rightarrow> nat \<Rightarrow> nat" where
  "mount_flags from flags = (if recursive_bind from flags then MS_BIND OR MS_REC else MS_BIND)"

definition remount_flags :: "cstring \<Rightarrow> nat \<Rightarrow> nat" where
  "remount_flags from flags =
     (let f0 = MS_REMOUNT OR MS_BIND OR MS_NOSUID;
          f1 = (if recursive_bind from flags then f0 OR MS_REC else f0);
          f2 = (if from \<noteq> ''/dev'' \<and> \<not> prefix ''/dev/'' from then f1 OR MS_NODEV else f1)
      in if flags AND VOLMAP_FLAG_READONLY \<noteq> 0 then f2 OR MS_RDONLY else f2)"

definition private_flags :: "nat \<Rightarrow> cstring \<Rightarrow> nat \<Rightarrow> nat" where
  "private_flags style from flags =
     (if recursive_bind from flags then MS_PRIVATE OR MS_REC else propagation style flags)"

text \<open>The unclean exit: detach what was mounted and forget it.\<close>

definition bindMount_unclean :: "MountList \<Rightarrow> cstring \<Rightarrow> (int \<times> MountList) sys" where
  "bindMount_unclean mountCache to_real =
     do {
       r \<leftarrow> syscall (Umount2 to_real (UMOUNT_NOFOLLOW OR MNT_DETACH));
       yield (1, remove_MountList mountCache to_real)
     }"

text \<open>The three mounts of \<open>_shifterCore_bindMount\<close>, on the resolved target.\<close>

definition bindMount_mounts ::
  "UdiRootConfig \<Rightarrow> MountList \<Rightarrow> cstring \<Rightarrow> cstring \<Rightarrow> nat \<Rightarrow> (int \<times> MountList) sys" where
  "bindMount_mounts udiConfig mountCache from to_real flags =
     do {
       r1 \<leftarrow> syscall (Mount (Some from) to_real (Some ''bind'') (mount_flags from flags));
       if r_rc r1 \<noteq> 0 then bindMount_unclean mountCache to_real
       else
         let mountCache1 = snd (insert_MountList mountCache to_real)
         in do {
           r2 \<leftarrow> syscall (Mount (Some from) to_real (Some ''bind'') (remount_flags from flags));
           if r_rc r2 \<noteq> 0 then bindMount_unclean mountCache1 to_real
           else do {
             r3 \<leftarrow> syscall (Mount None to_real None
                     (private_flags (mountPropagationStyle udiConfig) from flags));
             if r_rc r3 \<noteq> 0 then bindMount_unclean mountCache1 to_real
             else yield (0, mountCache1)
           }
         }
     }"

definition shifterCore_bindMount ::
  "UdiRootConfig \<Rightarrow> MountList \<Rightarrow> cstring \<Rightarrow> cstring \<Rightarrow> nat \<Rightarrow> bool \<Rightarrow> (int \<times> MountList) sys" where
  "shifterCore_bindMount udiConfig mountCache from to flags overwriteMounts =
     do {
       rp \<leftarrow> syscall (Realpath to);
       (case r_text rp of
          None \<Rightarrow> yield (1, mountCache)
        | Some to_real \<Rightarrow>
            if find_MountList mountCache to_real = None
            then bindMount_mounts udiConfig mountCache from to_real flags
            else if overwriteMounts then do {
              (r, mountCache1) \<leftarrow> unmount_retry BINDMOUNT_OVERWRITE_UNMOUNT_RETRY mountCache to_real;
              if r \<noteq> 0 then yield (1, mountCache1)
              else bindMount_mounts udiConfig mountCache1 from to_real flags
            }
            else yield (1, mountCache))
     }"

section \<open>Shared mounts\<close>

text \<open>
  One line of /proc/<pid>/mountinfo. The first five fields are tokens; what follows the separator
  behind the fifth is the rest of the line. None lets the loop go on.
\<close>

fun skip_tokens :: "nat \<Rightarrow> cstring \<Rightarrow> (cstring \<times> cstring) option" where
  "skip_tokens n s =
     (let t = dropWhile (\<lambda>c. c = CHR '' '') s;
          tok = takeWhile (\<lambda>c. c \<noteq> CHR '' '') t;
          rest = drop (length tok + 1) t
      in if t = [] then None
         else case n of 0 \<Rightarrow> Some (tok, rest) | Suc m \<Rightarrow> skip_tokens m rest)"

fun mountinfo_lines :: "cstring \<Rightarrow> cstring list \<Rightarrow> int" where
  "mountinfo_lines mountPoint [] = 0"
| "mountinfo_lines mountPoint (l # ls) =
     (if l = [] \<or> last l \<noteq> NL then 0
      else case skip_tokens 4 l of
        None \<Rightarrow> -1
      | Some (tok, rest) \<Rightarrow>
          if tok = mountPoint then (if sublist '' shared:'' rest then 1 else 0)
          else mountinfo_lines mountPoint ls)"

definition isSharedMount :: "cstring \<Rightarrow> int sys" where
  "isSharedMount mountPoint =
     do {
       pid \<leftarrow> syscall Getpid;
       f \<leftarrow> syscall (ReadFile (path_buffer (''/proc/'' @ show_int (r_rc pid) @ ''/mountinfo'')));
       (case r_text f of
          None \<Rightarrow> yield (-1)
        | Some t \<Rightarrow> yield (mountinfo_lines mountPoint (file_lines t)))
     }"

section \<open>Tearing a container down\<close>

text \<open>
  The scan of /proc: an entry that is a number names a process; its command line, at most 1024 bytes
  with the last one overwritten, is compared up to its first NUL.
\<close>

definition NUL :: char where "NUL = CHR 0x00"

definition cmdline_matches :: "cstring \<Rightarrow> cstring \<Rightarrow> bool" where
  "cmdline_matches command buffer \<longleftrightarrow>
     (let b = take 1024 buffer in b \<noteq> [] \<and> takeWhile (\<lambda>c. c \<noteq> NUL) (butlast b) = command)"

fun scan_proc :: "cstring \<Rightarrow> cstring list \<Rightarrow> int sys" where
  "scan_proc command [] = yield 0"
| "scan_proc command (d # ds) =
     (let pid = to_i32 (fst (strtol10 d))
      in if pid = 0 then scan_proc command ds
         else do {
           f \<leftarrow> syscall (ReadFile (''/proc/'' @ show_int pid @ ''/cmdline''));
           (case r_text f of
              None \<Rightarrow> scan_proc command ds
            | Some b \<Rightarrow> if cmdline_matches command b then yield pid else scan_proc command ds)
         })"

definition shifter_find_process_by_cmdline :: "cstring \<Rightarrow> int sys" where
  "shifter_find_process_by_cmdline command =
     (if command = [] then yield (-1)
      else do {
        d \<leftarrow> syscall (ListDir ''/proc'');
        if r_rc d < 0 then yield (-1) else scan_proc command (r_names d)
      })"

definition findSshd :: "int sys" where
  "findSshd = shifter_find_process_by_cmdline ''/opt/udiImage/sbin/sshd''"

definition killSshd :: "int sys" where
  "killSshd =
     do {
       sshdPid \<leftarrow> findSshd;
       if sshdPid > 2 then do { k \<leftarrow> syscall (Kill sshdPid SIGTERM); yield 0 }
       else yield 1
     }"

text \<open>At most ten rounds; each but the first starts with a pause.\<close>

fun destruct_rounds :: "nat \<Rightarrow> bool \<Rightarrow> bool \<Rightarrow> cstring \<Rightarrow> cstring \<Rightarrow> MountList \<Rightarrow> int sys" where
  "destruct_rounds 0 first killSsh udiRoot loopMountPath mounts = yield 1"
| "destruct_rounds (Suc n) first killSsh udiRoot loopMountPath mounts =
     do {
       u \<leftarrow> (if first then yield () else do { s \<leftarrow> syscall (Usleep 300000); yield () });
       k \<leftarrow> (if killSsh then killSshd else yield 0);
       (r1, mounts1) \<leftarrow> unmountTree mounts udiRoot;
       if r1 \<noteq> 0 then destruct_rounds n False killSsh udiRoot loopMountPath mounts1
       else do {
         v1 \<leftarrow> validateUnmounted udiRoot True;
         if v1 \<noteq> 0 then destruct_rounds n False killSsh udiRoot loopMountPath mounts1
         else do {
           (r2, mounts2) \<leftarrow> unmountTree mounts1 loopMountPath;
           if r2 \<noteq> 0 then destruct_rounds n False killSsh udiRoot loopMountPath mounts2
           else do {
             v2 \<leftarrow> validateUnmounted loopMountPath False;
             if v2 \<noteq> 0 then destruct_rounds n False killSsh udiRoot loopMountPath mounts2
             else yield 0
           }
         }
       }
     }"

definition destructUDI :: "UdiRootConfig \<Rightarrow> bool \<Rightarrow> int sys" where
  "destructUDI udiConfig killSsh =
     do {
       (r, mounts) \<leftarrow> read_mounts empty_MountList;
       destruct_rounds 10 True killSsh (path_buffer (show_str (udiMountPoint udiConfig)))
         (path_buffer (show_str (loopMountPoint udiConfig))) mounts
     }"

section \<open>The container root\<close>

definition makeUdiMountPrivate :: "UdiRootConfig \<Rightarrow> int sys" where
  "makeUdiMountPrivate udiConfig =
     do {
       r \<leftarrow> syscall (Mount None (path_buffer (show_str (udiMountPoint udiConfig))) None (MS_PRIVATE OR MS_REC));
       yield (if r_rc r \<noteq> 0 then 1 else 0)
     }"

definition remountUdiRootReadonly :: "UdiRootConfig \<Rightarrow> int sys" where
  "remountUdiRootReadonly udiConfig =
     (case udiMountPoint udiConfig of
        None \<Rightarrow> yield 1
      | Some m \<Rightarrow> do {
          r \<leftarrow> syscall (Mount (Some (path_buffer m)) (path_buffer m) (rootfsType udiConfig)
                 (MS_REMOUNT OR MS_NOSUID OR MS_NODEV OR MS_RDONLY));
          yield (if r_rc r \<noteq> 0 then 1 else 0)
        })"

text \<open>/proc/filesystems: the text from the first tab of each line, trimmed, sorted at the end.\<close>

definition filesystem_names :: "cstring \<Rightarrow> cstring list" where
  "filesystem_names contents =
     sort (filter (\<lambda>n. n \<noteq> [])
       (map (\<lambda>l. shifter_trim (dropWhile (\<lambda>c. c \<noteq> TAB) l))
         (filter (\<lambda>l. TAB \<in> set l) (file_lines contents))))"

definition getSupportedFilesystems :: "cstring list option sys" where
  "getSupportedFilesystems =
     do {
       f \<leftarrow> syscall (ReadFile ''/proc/filesystems'');
       yield (map_option filesystem_names (r_text f))
     }"

definition supportsFilesystem :: "cstring list option \<Rightarrow> cstring option \<Rightarrow> int" where
  "supportsFilesystem fsTypes fsType =
     (case (fsTypes, fsType) of
        (Some ts, Some t) \<Rightarrow> if t \<in> set ts then 0 else 1
      | _ \<Rightarrow> -1)"

section \<open>Facts about unmounting\<close>

definition umounted :: "event list \<Rightarrow> cstring list" where
  "umounted es =
     concat (map (\<lambda>(c, r). case c of Umount2 p f \<Rightarrow> if r_rc r = 0 then [p] else [] | _ \<Rightarrow> []) es)"

definition is_umount_of :: "cstring list \<Rightarrow> event \<Rightarrow> bool" where
  "is_umount_of ps e \<longleftrightarrow> (\<exists>p\<in>set ps. fst e = Umount2 p (UMOUNT_NOFOLLOW OR MNT_DETACH))"

lemma umounted_simps [simp]:
  "umounted [] = []"
  "umounted (es @ es') = umounted es @ umounted es'"
  "umounted ((Umount2 p f, r) # es) = (if r_rc r = 0 then p # umounted es else umounted es)"
  by (simp_all add: umounted_def)

lemma is_umount_of_Cons:
  "is_umount_of (p # ps) (Umount2 p (UMOUNT_NOFOLLOW OR MNT_DETACH), r)"
  "is_umount_of ps e \<Longrightarrow> is_umount_of (p # ps) e"
  by (auto simp: is_umount_of_def)

text \<open>
  The loop unmounts the members of the tree from the front; on an error it has unmounted the members
  before the failing one, and it remembers exactly those.
\<close>

lemma unmount_entries_effects:
  assumes "ml_forward cache" "\<forall>p\<in>set ps. key_ok p"
  shows "effects (unmount_entries base ps cache) (\<lambda>(rc, cache') es.
     \<exists>rest. filter (in_tree base) ps = umounted es @ rest \<and> (rc = 0 \<longleftrightarrow> rest = []) \<and>
       (\<forall>e\<in>set es. is_umount_of (filter (in_tree base) ps) e) \<and>
       ml_forward cache' \<and> mounts_of cache' = mounts_of cache \<union> set (umounted es))"
  using assms
proof (induction base ps cache rule: unmount_entries.induct)
  case (1 base cache)
  then show ?case by (auto intro!: effects_yield)
next
  case (2 base p ps cache)
  show ?case
  proof (cases "in_tree base p")
    case False
    with 2 show ?thesis by simp
  next
    case True
    define cache1 where "cache1 = snd (insert_MountList cache p)"
    have c1: "ml_forward cache1" "mounts_of cache1 = insert p (mounts_of cache)"
      using mls.ins_total [of cache p] 2(3,4) by (auto simp: cache1_def)
    have IH: "effects (unmount_entries base ps cache1) (\<lambda>(rc, cache') es.
       \<exists>rest. filter (in_tree base) ps = umounted es @ rest \<and> (rc = 0 \<longleftrightarrow> rest = []) \<and>
         (\<forall>e\<in>set es. is_umount_of (filter (in_tree base) ps) e) \<and>
         ml_forward cache' \<and> mounts_of cache' = mounts_of cache1 \<union> set (umounted es))"
      if "r_rc r = 0" for r :: reply
      using 2(2) [of r] True that c1 2(4) by (simp add: cache1_def)
    show ?thesis
      using True
      by (auto intro!: effects_call_bind effects_yield effects_mono [OF IH] simp: cache1_def [symmetric] c1 2(3)
          is_umount_of_Cons)
  qed
qed

lemma in_tree_iff: "in_tree base p \<longleftrightarrow> (\<exists>tail. p = base @ tail \<and> (tail = [] \<or> hd tail = CHR ''/''))"
proof -
  have "(if CHR ''/'' \<in> set t then length (takeWhile (\<lambda>c. c \<noteq> CHR ''/'') t) = 0
         else \<not> length (base @ t) > length base) \<longleftrightarrow> t = [] \<or> hd t = CHR ''/''" for t
    by (cases t) auto
  note t = this
  show ?thesis
  proof (cases "prefix base p")
    case True
    then obtain tail where "p = base @ tail" by (auto simp: prefix_def)
    with t [of tail] show ?thesis by (simp add: in_tree_def Let_def)
  next
    case False
    then show ?thesis by (auto simp: in_tree_def)
  qed
qed

lemma append_ge: "a \<le> a @ (c :: 'a::linorder list)"
  by (induction a) simp_all

lemma rsorted_children_first:
  "sorted (rev xs) \<Longrightarrow> distinct xs \<Longrightarrow> sorted_wrt (\<lambda>a b. \<not> in_tree a b) xs"
proof (induction xs)
  case (Cons x xs)
  have "\<not> in_tree x y" if "y \<in> set xs" for y
  proof
    assume "in_tree x y"
    then have "x \<le> y" using append_ge by (auto simp: in_tree_iff)
    moreover have "y \<le> x" "x \<noteq> y" using Cons.prems that by (auto simp: sorted_append)
    ultimately show False by simp
  qed
  with Cons show ?case by (simp add: sorted_append)
qed simp

text \<open>The only case in which the reversal would touch a NULL array.\<close>

definition ml_block :: "MountList \<Rightarrow> bool" where
  "ml_block m \<longleftrightarrow> sorted_as m = MOUNT_SORT_FORWARD \<longrightarrow> 0 < capacity m"

lemma set_order_ok:
  assumes "ml_inv m" "setSort_MountList m s = Ret m'"
  shows "set_order s m = m'" "ml_inv (set_order s m)" "mounts_of (set_order s m) = mounts_of m"
    "sorted_as (set_order s m) = (if s = MOUNT_SORT_UNSORTED then sorted_as m else s)"
  using setSort_ok [OF assms] assms(2) by (simp_all add: set_order_def)

lemma foldl_remove_keeps:
  "ml_inv m \<Longrightarrow> ml_inv (foldl remove_MountList m ks) \<and> mounts_of (foldl remove_MountList m ks) = mounts_of m - set ks
     \<and> sorted_as (foldl remove_MountList m ks) = sorted_as m \<and> capacity (foldl remove_MountList m ks) = capacity m"
proof -
  have "capacity (remove_MountList m k) = capacity m" for m k
    by (simp add: remove_MountList_def split: option.split)
  then have "ml_inv m \<Longrightarrow> sorted_as (foldl remove_MountList m ks) = sorted_as m \<and>
      capacity (foldl remove_MountList m ks) = capacity m"
    by (induction ks arbitrary: m) (simp_all add: remove_ok)
  then show "ml_inv m \<Longrightarrow> ?thesis" using ml.del_all [of m ks] by simp
qed

text \<open>Setting the order back never meets the NULL array either.\<close>

lemma unmountTree_order:
  assumes "ml_inv m" "ml_block m"
  shows "\<exists>m1. setSort_MountList m MOUNT_SORT_REVERSE = Ret m1 \<and>
    (\<exists>m2. setSort_MountList (foldl remove_MountList m1 ks) (sorted_as m) = Ret m2)"
proof -
  have "sorted_as m = MOUNT_SORT_UNSORTED \<or> sorted_as m = MOUNT_SORT_REVERSE \<or> 0 < capacity m"
    using assms(2) by (cases "sorted_as m") (auto simp: ml_block_def)
  from setSort_Ret [OF this] obtain m1 where m1: "setSort_MountList m MOUNT_SORT_REVERSE = Ret m1" by blast
  have inv: "ml_inv m1" "sorted_as m1 = MOUNT_SORT_REVERSE" using setSort_ok [OF assms(1) m1] by auto
  have cap: "capacity m1 = capacity m" using m1 by (auto simp: setSort_MountList_def split: if_splits)
  have "\<exists>m2. setSort_MountList (foldl remove_MountList m1 ks) (sorted_as m) = Ret m2"
    using foldl_remove_keeps [OF inv(1), of ks] inv(2) cap assms(2)
    by (cases "sorted_as m") (auto simp: setSort_MountList_def ml_block_def)
  with m1 show ?thesis by blast
qed

definition tree_of :: "cstring \<Rightarrow> MountList \<Rightarrow> cstring set" where
  "tree_of base m = {p \<in> mounts_of m. in_tree base p}"

text \<open>
  What a run of \<open>unmountTree\<close> does: it only unmounts members of the tree, children first, each once;
  it returns 0 exactly when it unmounted all of them, and the list loses exactly what was unmounted.
\<close>

definition unmounts :: "cstring \<Rightarrow> MountList \<Rightarrow> int \<Rightarrow> MountList \<Rightarrow> event list \<Rightarrow> bool" where
  "unmounts base m rc m' es \<longleftrightarrow>
     set (umounted es) \<subseteq> tree_of base m \<and> (rc = 0 \<longleftrightarrow> set (umounted es) = tree_of base m) \<and>
     sorted_wrt (\<lambda>a b. \<not> in_tree a b) (umounted es) \<and> distinct (umounted es) \<and>
     (\<forall>e\<in>set es. \<exists>p\<in>tree_of base m. fst e = Umount2 p (UMOUNT_NOFOLLOW OR MNT_DETACH)) \<and>
     ml_inv m' \<and> ml_block m' \<and> mounts_of m' = mounts_of m - set (umounted es) \<and>
     (sorted_as m \<noteq> MOUNT_SORT_UNSORTED \<longrightarrow> sorted_as m' = sorted_as m)"

lemma unmountTree_effects:
  assumes "ml_inv m" "ml_block m" "\<forall>p\<in>mounts_of m. key_ok p" "base \<noteq> []"
  shows "effects (unmountTree m base) (\<lambda>(rc, m'). unmounts base m rc m')"
proof -
  obtain m1 where m1: "setSort_MountList m MOUNT_SORT_REVERSE = Ret m1"
    using unmountTree_order [OF assms(1,2)] by blast
  note o1 = set_order_ok [OF assms(1) m1]
  let ?ps = "mountPointList m1"
  have inv1: "ml_inv m1" "mounts_of m1 = mounts_of m" "sorted_as m1 = MOUNT_SORT_REVERSE"
    using o1 by auto
  then have d: "sorted (rev ?ps)" "distinct ?ps" by (auto simp: ml_inv_def order_ok_def)
  have keys: "\<forall>p\<in>set ?ps. key_ok p" using assms(3) inv1(2) by (simp add: mounts_of_def)
  have tset: "set (filter (in_tree base) ?ps) = tree_of base m"
    using inv1(2) by (auto simp: tree_of_def mounts_of_def)
  have td: "sorted_wrt (\<lambda>a b. \<not> in_tree a b) (filter (in_tree base) ?ps)" "distinct (filter (in_tree base) ?ps)"
    using rsorted_children_first [OF d] d(2) by (auto intro: sorted_wrt_filter)
  have ent: "effects (unmount_entries base ?ps empty_MountList) (\<lambda>(rc, cache') es.
     \<exists>rest. filter (in_tree base) ?ps = umounted es @ rest \<and> (rc = 0 \<longleftrightarrow> rest = []) \<and>
       (\<forall>e\<in>set es. is_umount_of (filter (in_tree base) ?ps) e) \<and>
       ml_forward cache' \<and> mounts_of cache' = set (umounted es))"
    using unmount_entries_effects [of empty_MountList ?ps base] keys by simp
  have fin: "ml_inv m' \<and> ml_block m' \<and> mounts_of m' = mounts_of m - set (mountPointList cache) \<and>
      (sorted_as m \<noteq> MOUNT_SORT_UNSORTED \<longrightarrow> sorted_as m' = sorted_as m)"
    if "m' = set_order (sorted_as m) (foldl remove_MountList m1 (mountPointList cache))" for m' cache
  proof -
    note f = foldl_remove_keeps [OF inv1(1), of "mountPointList cache"]
    obtain m2 where m2: "setSort_MountList (foldl remove_MountList m1 (mountPointList cache)) (sorted_as m) = Ret m2"
      using unmountTree_order [OF assms(1,2)] m1 by fastforce
    have "capacity m2 = capacity m" using m2 m1 f
      by (auto simp: setSort_MountList_def split: if_splits)
    with set_order_ok [OF _ m2] f inv1 that assms(2) show ?thesis
      by (cases "sorted_as m") (auto simp: ml_block_def)
  qed
  show ?thesis
    unfolding unmountTree_def o1(1) if_not_P [OF assms(4)]
  proof (rule effects_seq [OF ent], goal_cases)
    case (1 x n)
    obtain rc cache where x: "x = (rc, cache)" by (cases x)
    obtain rest where r: "filter (in_tree base) ?ps = umounted n @ rest" "rc = 0 \<longleftrightarrow> rest = []"
      "\<forall>e\<in>set n. is_umount_of (filter (in_tree base) ?ps) e" "mounts_of cache = set (umounted n)"
      using 1 x by auto
    have sub: "set (umounted n) \<subseteq> tree_of base m" "set (umounted n) \<union> set rest = tree_of base m"
      using r(1) tset by (metis Un_upper1 set_append)+
    have "distinct (umounted n @ rest)" "sorted_wrt (\<lambda>a b. \<not> in_tree a b) (umounted n @ rest)"
      using td r(1) by simp_all
    then have dd: "distinct (umounted n)" "sorted_wrt (\<lambda>a b. \<not> in_tree a b) (umounted n)"
      "set (umounted n) \<inter> set rest = {}" by (auto simp: sorted_wrt_append)
    then have "rc = 0 \<longleftrightarrow> set (umounted n) = tree_of base m"
      using r(2) sub by (metis Int_absorb2 Un_upper2 inf.commute set_empty2 sup.absorb_iff1 sup_bot_right)
    moreover have "\<forall>e\<in>set n. \<exists>p\<in>tree_of base m. fst e = Umount2 p (UMOUNT_NOFOLLOW OR MNT_DETACH)"
      using r(3) tset by (auto simp: is_umount_of_def)
    ultimately have "unmounts base m rc (set_order (sorted_as m) (foldl remove_MountList m1 (mountPointList cache))) n"
      using sub dd fin [OF refl, of cache] r(4) by (auto simp: unmounts_def mounts_of_def)
    then show ?case by (auto simp: x intro!: effects_yield)
  qed
qed

section \<open>Facts about bind mounts\<close>

text \<open>The target of a mount, and runs without any mount.\<close>

definition mount_target :: "event \<Rightarrow> cstring option" where
  "mount_target e = (case fst e of Mount s t f fl \<Rightarrow> Some t | _ \<Rightarrow> None)"

definition quiet :: "event list \<Rightarrow> bool" where
  "quiet es \<longleftrightarrow> (\<forall>e\<in>set es. mount_target e = None)"

lemma quiet_simps [simp]:
  "quiet []" "quiet (es @ es') \<longleftrightarrow> quiet es \<and> quiet es'"
  "quiet (e # es) \<longleftrightarrow> mount_target e = None \<and> quiet es"
  by (auto simp: quiet_def)

lemma mount_target_simps [simp]:
  "mount_target (Mount s t f fl, r) = Some t" "mount_target (Umount2 t n, r) = None"
  "mount_target (Getpid, r) = None" "mount_target (ReadFile t, r) = None"
  "mount_target (Usleep n, r) = None" "mount_target (Realpath t, r) = None"
  by (simp_all add: mount_target_def)

lemma unmounts_quiet: "unmounts base m rc m' es \<Longrightarrow> quiet es"
  by (fastforce simp: unmounts_def quiet_def mount_target_def split: syscall.splits)

lemma read_mounts_quiet: "effects (read_mounts m) (\<lambda>x es. quiet es)"
  unfolding read_mounts_def by (intro effects_call_bind effects_yield) simp

lemma validateUnmounted_quiet: "effects (validateUnmounted p s) (\<lambda>v es. quiet es)"
  unfolding validateUnmounted_def
  by (rule effects_seq [OF read_mounts_quiet]) (auto intro!: effects_yield split: prod.splits if_splits)

definition ml_ordered :: "MountList \<Rightarrow> bool" where
  "ml_ordered m \<longleftrightarrow> ml_inv m \<and> ml_block m \<and> sorted_as m = MOUNT_SORT_FORWARD \<and> (\<forall>p\<in>mounts_of m. key_ok p)"

lemma ml_orderedD:
  "ml_ordered m \<Longrightarrow> ml_inv m" "ml_ordered m \<Longrightarrow> ml_block m" "ml_ordered m \<Longrightarrow> ml_forward m"
  "ml_ordered m \<Longrightarrow> \<forall>p\<in>mounts_of m. key_ok p"
  by (auto simp: ml_ordered_def ml_forward_def)

lemma unmounts_ordered: "unmounts base m rc m' es \<Longrightarrow> ml_ordered m \<Longrightarrow> ml_ordered m' \<and> mounts_of m' \<subseteq> mounts_of m"
  by (auto simp: unmounts_def ml_ordered_def)

lemma unmount_retry_effects:
  assumes "ml_ordered m" "base \<noteq> []"
  shows "effects (unmount_retry n m base) (\<lambda>(r, m') es. quiet es \<and> ml_ordered m' \<and> mounts_of m' \<subseteq> mounts_of m)"
  using assms
proof (induction n arbitrary: m)
  case 0
  then show ?case by (auto intro!: effects_yield)
next
  case (Suc n)
  note tree = unmountTree_effects [OF ml_orderedD(1,2,4) [OF Suc.prems(1)] Suc.prems(2)]
  show ?case
    unfolding unmount_retry.simps
  proof (rule effects_seq [OF tree], goal_cases)
    case (1 x es)
    obtain r m1 where x: "x = (r, m1)" by (cases x)
    with 1 have u: "unmounts base m r m1 es" by simp
    have m1: "ml_ordered m1" "mounts_of m1 \<subseteq> mounts_of m" "quiet es"
      using unmounts_ordered [OF u Suc.prems(1)] unmounts_quiet [OF u] by auto
    show ?case
    proof (cases "r = 0")
      case True
      have "effects (State_Monad.bind (validateUnmounted base False) (\<lambda>v.
            if v = 0 then yield (0, m1)
            else State_Monad.bind (syscall (Usleep 300000)) (\<lambda>u. unmount_retry n m1 base)))
          (\<lambda>y n'. case y of (r, m') \<Rightarrow> quiet (es @ n') \<and> ml_ordered m' \<and> mounts_of m' \<subseteq> mounts_of m)"
        by (rule effects_seq [OF validateUnmounted_quiet])
           (use m1 in \<open>auto intro!: effects_yield effects_call_bind effects_mono [OF Suc.IH [OF m1(1) Suc.prems(2)]]\<close>)
      with True x show ?thesis by (simp add: case_prod_beta)
    next
      case False
      with x m1 show ?thesis by (auto intro!: effects_yield)
    qed
  qed
qed

text \<open>The three calls of a bind mount that succeeded, and the end of one that failed.\<close>

definition bind_calls :: "nat \<Rightarrow> cstring \<Rightarrow> cstring \<Rightarrow> nat \<Rightarrow> syscall list" where
  "bind_calls style from t flags =
     [Mount (Some from) t (Some ''bind'') (mount_flags from flags),
      Mount (Some from) t (Some ''bind'') (remount_flags from flags),
      Mount None t None (private_flags style from flags)]"

definition bind_done :: "nat \<Rightarrow> cstring \<Rightarrow> cstring \<Rightarrow> nat \<Rightarrow> event list \<Rightarrow> bool" where
  "bind_done style from t flags es \<longleftrightarrow>
     (\<exists>pre last3. es = pre @ last3 \<and> quiet pre \<and> map fst last3 = bind_calls style from t flags \<and>
        (\<forall>e\<in>set last3. r_rc (snd e) = 0))"

definition bind_failed :: "event list \<Rightarrow> MountList \<Rightarrow> bool" where
  "bind_failed es m' \<longleftrightarrow>
     quiet es \<or>
     (\<exists>pre t u. es = pre @ [(Umount2 t (UMOUNT_NOFOLLOW OR MNT_DETACH), u)] \<and>
        (\<forall>e\<in>set pre. mount_target e \<noteq> None \<longrightarrow> mount_target e = Some t) \<and> t \<notin> mounts_of m')"

lemma bind_failedI:
  assumes "ml_inv m" "quiet pre" "\<forall>e\<in>set ms. mount_target e = Some t"
  shows "bind_failed (pre @ ms @ [(Umount2 t (UMOUNT_NOFOLLOW OR MNT_DETACH), u)]) (remove_MountList m t)"
proof -
  have "\<forall>e\<in>set (pre @ ms). mount_target e \<noteq> None \<longrightarrow> mount_target e = Some t"
    using assms(2,3) by (auto simp: quiet_def)
  moreover have "t \<notin> mounts_of (remove_MountList m t)" using remove_ok [OF assms(1)] by simp
  ultimately show ?thesis unfolding bind_failed_def by (metis append.assoc)
qed

lemma bindMount_mounts_effects:
  assumes "ml_ordered m" "quiet pre"
  shows "effects (bindMount_mounts cfg m from t flags) (\<lambda>(rc, m') es.
     if rc = 0 then bind_done (mountPropagationStyle cfg) from t flags (pre @ es) \<and>
                    m' = snd (insert_MountList m t)
     else rc = 1 \<and> bind_failed (pre @ es) m')"
proof -
  have inv: "ml_inv m" "ml_inv (snd (insert_MountList m t))"
    using insert_inv [of m t] ml_orderedD [OF assms(1)] assms(1) by (auto simp: ml_ordered_def)
  let ?c1 = "Mount (Some from) t (Some ''bind'') (mount_flags from flags)"
  let ?c2 = "Mount (Some from) t (Some ''bind'') (remount_flags from flags)"
  let ?c3 = "Mount None t None (private_flags (mountPropagationStyle cfg) from flags)"
  let ?u = "Umount2 t (UMOUNT_NOFOLLOW OR MNT_DETACH)"
  note f = bind_failedI [OF _ assms(2)]
  have d: "bind_done (mountPropagationStyle cfg) from t flags (pre @ [(?c1, r1), (?c2, r2), (?c3, r3)])"
    if "r_rc r1 = 0" "r_rc r2 = 0" "r_rc r3 = 0" for r1 r2 r3 :: reply
    unfolding bind_done_def using that assms(2)
    by (intro exI [of _ pre] exI [of _ "[(?c1, r1), (?c2, r2), (?c3, r3)]"]) (simp add: bind_calls_def)
  have f1: "bind_failed (pre @ [(?c1, r1), (?u, u)]) (remove_MountList m t)" for r1 u
    using f [OF inv(1), of "[(?c1, r1)]" t u] by simp
  have f2: "bind_failed (pre @ [(?c1, r1), (?c2, r2), (?u, u)]) (remove_MountList (snd (insert_MountList m t)) t)"
    for r1 r2 u
    using f [OF inv(2), of "[(?c1, r1), (?c2, r2)]" t u] by simp
  have f3: "bind_failed (pre @ [(?c1, r1), (?c2, r2), (?c3, r3), (?u, u)])
      (remove_MountList (snd (insert_MountList m t)) t)" for r1 r2 r3 u
    using f [OF inv(2), of "[(?c1, r1), (?c2, r2), (?c3, r3)]" t u] by simp
  show ?thesis
    unfolding bindMount_mounts_def bindMount_unclean_def Let_def
    by (auto intro!: effects_call_bind effects_yield simp: d f1 f2 f3)
qed

definition bind_result ::
  "UdiRootConfig \<Rightarrow> cstring \<Rightarrow> cstring \<Rightarrow> nat \<Rightarrow> int \<Rightarrow> MountList \<Rightarrow> event list \<Rightarrow> bool" where
  "bind_result cfg from to flags rc m' es \<longleftrightarrow>
     (if rc = 0
      then \<exists>r t. hd es = (Realpath to, r) \<and> r_text r = Some t \<and>
             bind_done (mountPropagationStyle cfg) from t flags es \<and> (key_ok t \<longrightarrow> t \<in> mounts_of m')
      else bind_failed es m')"

lemma bindMount_effects:
  assumes "ml_ordered m" "\<forall>p\<in>mounts_of m. p \<noteq> []"
  shows "effects (shifterCore_bindMount cfg m from to flags overwrite) (\<lambda>(rc, m'). bind_result cfg from to flags rc m')"
proof -
  have q: "bind_failed es m'" if "quiet es" for es m' using that by (simp add: bind_failed_def)
  have ins: "key_ok t \<longrightarrow> t \<in> mounts_of (snd (insert_MountList k t))" if "ml_ordered k" for k t
    using mls.ins_total [OF ml_orderedD(3) [OF that], of t] by auto
  have main: "effects (bindMount_mounts cfg k from t flags) (\<lambda>y n'. (case y of (rc, m') \<Rightarrow> bind_result cfg from to flags rc m') ((Realpath to, rp) # pre @ n'))"
    if "ml_ordered k" "quiet pre" "r_text rp = Some t" for k pre rp t
    using bindMount_mounts_effects [OF that(1), of "(Realpath to, rp) # pre" cfg "from" t flags] that ins [OF that(1)]
    by (auto elim!: effects_mono simp: bind_result_def split: if_splits)
  show ?thesis
    unfolding shifterCore_bindMount_def
  proof (rule effects_call_bind, goal_cases)
    case (1 rp)
    show ?case
    proof (cases "r_text rp")
      case None
      then show ?thesis by (auto intro!: effects_yield simp: bind_result_def q)
    next
      case (Some t)
      show ?thesis
      proof (cases "find_MountList m t = None")
        case True
        with Some main [OF assms(1), of "[]" rp t] show ?thesis by simp
      next
        case False
        have "t \<in> mounts_of m" using False find_None_iff [OF ml_orderedD(1) [OF assms(1)], of t] by simp
        then have t: "t \<noteq> []" using assms(2) by blast
        have "effects (State_Monad.bind (unmount_retry BINDMOUNT_OVERWRITE_UNMOUNT_RETRY m t)
            (\<lambda>(r, mountCache1). if r \<noteq> 0 then yield (1, mountCache1)
               else bindMount_mounts cfg mountCache1 from t flags))
          (\<lambda>y n'. (case y of (rc, m') \<Rightarrow> bind_result cfg from to flags rc m') ((Realpath to, rp) # n'))"
        proof (rule effects_seq [OF unmount_retry_effects [OF assms(1) t]], goal_cases)
          case (1 x n)
          then show ?case
            using main [of "snd x" n rp t] Some
            by (cases x) (auto intro!: effects_yield simp: q bind_result_def [where rc = 1])
        qed
        with Some False show ?thesis by (auto intro!: effects_yield simp: bind_result_def q)
      qed
    qed
  qed
qed

section \<open>Facts about the tear down\<close>

text \<open>A check that answered 0 has read a mount table without the path, or without its subtree.\<close>

definition not_mounted :: "cstring \<Rightarrow> bool \<Rightarrow> MountList \<Rightarrow> bool" where
  "not_mounted path subtree m \<longleftrightarrow>
     (if subtree then findstartswith_MountList m path = None else find_MountList m path = None)"

definition seen_unmounted :: "cstring \<Rightarrow> bool \<Rightarrow> event list \<Rightarrow> bool" where
  "seen_unmounted path subtree es \<longleftrightarrow>
     (\<exists>p r m. (ReadFile p, r) \<in> set es \<and> parse_MountList (r_text r) empty_MountList = (0, m) \<and>
        not_mounted path subtree m)"

lemma seen_unmounted_mono: "seen_unmounted p s es \<Longrightarrow> set es \<subseteq> set es' \<Longrightarrow> seen_unmounted p s es'"
  unfolding seen_unmounted_def by blast

lemma validateUnmounted_effects:
  "effects (validateUnmounted path subtree) (\<lambda>v es. v = 0 \<longrightarrow> seen_unmounted path subtree es)"
proof -
  have "effects (read_mounts empty_MountList) (\<lambda>x es. \<exists>p r. (ReadFile p, r) \<in> set es \<and>
          x = parse_MountList (r_text r) empty_MountList)"
    unfolding read_mounts_def by (intro effects_call_bind effects_yield) auto
  then show ?thesis
    unfolding validateUnmounted_def
  proof (rule effects_seq, goal_cases)
    case (1 x n)
    then obtain p r where pr: "(ReadFile p, r) \<in> set n" "x = parse_MountList (r_text r) empty_MountList" by blast
    obtain rc m where x: "x = (rc, m)" by (cases x)
    have "rc = 0 \<Longrightarrow> not_mounted path subtree m \<Longrightarrow> seen_unmounted path subtree n"
      using pr x unfolding seen_unmounted_def by metis
    then show ?case
      by (auto simp: x not_mounted_def intro!: effects_yield)
  qed
qed

definition pauses :: "event list \<Rightarrow> nat" where
  "pauses es = length (filter (\<lambda>e. case fst e of Usleep n \<Rightarrow> True | _ \<Rightarrow> False) es)"

lemma pauses_simps [simp]:
  "pauses [] = 0" "pauses (es @ es') = pauses es + pauses es'"
  "pauses (e # es) = (case fst e of Usleep n \<Rightarrow> 1 | _ \<Rightarrow> 0) + pauses es"
  by (auto simp: pauses_def split: syscall.split)

lemma unmount_entries_logs: "logs (unmount_entries base ps cache)"
  by (induction ps arbitrary: cache) (auto intro!: logs_intros)

lemma unmountTree_logs [logs_intros]: "logs (unmountTree m base)"
  unfolding unmountTree_def by (intro logs_intros unmount_entries_logs)

lemma scan_proc_logs: "logs (scan_proc command ds)"
  by (induction ds) (auto intro!: logs_intros simp: Let_def)

lemma killSshd_logs [logs_intros]: "logs killSshd"
  unfolding killSshd_def findSshd_def shifter_find_process_by_cmdline_def
  by (intro logs_intros scan_proc_logs)

lemma read_mounts_logs [logs_intros]: "logs (read_mounts m)"
  unfolding read_mounts_def by (intro logs_intros)

lemma destruct_rounds_effects:
  "effects (destruct_rounds n first killSsh udi loop m) (\<lambda>rc es. rc = 0 \<longrightarrow>
     seen_unmounted udi True es \<and> seen_unmounted loop False es)"
proof (induction n arbitrary: first m)
  case 0
  then show ?case by (auto intro!: effects_yield)
next
  case (Suc n)
  have IH: "effects (destruct_rounds n False killSsh udi loop k) (\<lambda>rc n'. rc = 0 \<longrightarrow>
     seen_unmounted udi True (pre @ n') \<and> seen_unmounted loop False (pre @ n'))" for k pre
    by (rule effects_mono [OF Suc.IH]) (auto elim: seen_unmounted_mono)
  have log: "logs (if first then yield () else State_Monad.bind (syscall (Usleep 300000)) (\<lambda>s. yield ()))"
    "logs (if killSsh then killSshd else yield 0)"
    by (auto intro!: logs_intros)
  have final: "effects (State_Monad.bind (validateUnmounted loop False) (\<lambda>v2.
        if v2 \<noteq> 0 then destruct_rounds n False killSsh udi loop k else yield 0))
      (\<lambda>rc n'. rc = 0 \<longrightarrow> seen_unmounted udi True (pre @ n') \<and> seen_unmounted loop False (pre @ n'))"
    if "seen_unmounted udi True pre" for k pre
    by (rule effects_seq [OF validateUnmounted_effects])
       (use that in \<open>auto intro!: effects_yield IH [of _ "pre @ _", simplified] elim: seen_unmounted_mono\<close>)
  have second: "effects (State_Monad.bind (unmountTree k loop) (\<lambda>(r2, m2).
        if r2 \<noteq> 0 then destruct_rounds n False killSsh udi loop m2
        else State_Monad.bind (validateUnmounted loop False) (\<lambda>v2.
          if v2 \<noteq> 0 then destruct_rounds n False killSsh udi loop m2 else yield 0)))
      (\<lambda>rc n'. rc = 0 \<longrightarrow> seen_unmounted udi True (pre @ n') \<and> seen_unmounted loop False (pre @ n'))"
    if "seen_unmounted udi True pre" for k pre
  proof (rule effects_skip [OF unmountTree_logs], goal_cases)
    case (1 x es)
    have "seen_unmounted udi True (pre @ es)" using that by (rule seen_unmounted_mono) simp
    from final [OF this] IH [of _ "pre @ es"] show ?case by (cases x) simp
  qed
  have first: "effects (State_Monad.bind (validateUnmounted udi True) (\<lambda>v1.
        if v1 \<noteq> 0 then destruct_rounds n False killSsh udi loop k
        else State_Monad.bind (unmountTree k loop) (\<lambda>(r2, m2).
        if r2 \<noteq> 0 then destruct_rounds n False killSsh udi loop m2
        else State_Monad.bind (validateUnmounted loop False) (\<lambda>v2.
          if v2 \<noteq> 0 then destruct_rounds n False killSsh udi loop m2 else yield 0))))
      (\<lambda>rc n'. rc = 0 \<longrightarrow> seen_unmounted udi True (pre @ n') \<and> seen_unmounted loop False (pre @ n'))"
    for k pre
  proof (rule effects_seq [OF validateUnmounted_effects], goal_cases)
    case (1 v es)
    show ?case
    proof (cases "v = 0")
      case True
      then have "seen_unmounted udi True (pre @ es)" using 1 by (auto elim: seen_unmounted_mono)
      from second [OF this] True show ?thesis by simp
    next
      case False
      with IH [of _ "pre @ es"] show ?thesis by simp
    qed
  qed
  show ?case
    unfolding destruct_rounds.simps
  proof (rule effects_skip [OF log(1)], rule effects_skip [OF log(2)], rule effects_skip [OF unmountTree_logs], goal_cases)
    case (1 a n1 b n2 x n3)
    show ?case using first [of _ "n1 @ n2 @ n3"] IH [of _ "n1 @ n2 @ n3"] by (cases x) simp
  qed
qed

lemma destructUDI_effects:
  "effects (destructUDI cfg killSsh) (\<lambda>rc es. rc = 0 \<longrightarrow>
     seen_unmounted (path_buffer (show_str (udiMountPoint cfg))) True es \<and>
     seen_unmounted (path_buffer (show_str (loopMountPoint cfg))) False es)"
  unfolding destructUDI_def
proof (rule effects_skip [OF read_mounts_logs], goal_cases)
  case (1 x n)
  show ?case
    by (cases x) (auto intro!: effects_mono [OF destruct_rounds_effects] elim: seen_unmounted_mono)
qed

section \<open>Properties\<close>

lemma remount_flag_bits:
  "remount_flags src flags AND MS_NOSUID \<noteq> 0"
  "src \<noteq> ''/dev'' \<Longrightarrow> \<not> prefix ''/dev/'' src \<Longrightarrow> remount_flags src flags AND MS_NODEV \<noteq> 0"
  "flags AND VOLMAP_FLAG_READONLY \<noteq> 0 \<Longrightarrow> remount_flags src flags AND MS_RDONLY \<noteq> 0"
  by (simp_all add: remount_flags_def mount_flag_defs Let_def)


lemma ml_ordered_sample: "ml_ordered sample_list" "mounts_of sample_list = {''/a'', ''/c''}"
  by (simp_all add: ml_ordered_def sample_mounts ml_block_def key_ok_def) (simp_all add: sample_list_def)


text \<open>
  C18. Unmounting a tree only unmounts the base and the mounts below it (never a path that merely
  starts with the same letters), each once and children before their parents, without following
  links; it reports success exactly when it unmounted all of them, and on success and failure the
  table loses exactly the mounts that are gone and keeps its invariant and order.
\<close>

theorem unmountTree_exact:
  assumes "ml_inv m" "ml_block m" "\<forall>p\<in>mounts_of m. key_ok p" "base \<noteq> []"
    and "run_state (unmountTree m base) w = ((rc, m'), w')"
  shows "\<exists>es. w_trace w' = w_trace w @ es \<and>
    (let gone = umounted es; tree = {p \<in> mounts_of m. \<exists>tail. p = base @ tail \<and> (tail = [] \<or> hd tail = CHR ''/'')}
     in set gone \<subseteq> tree \<and> (rc = 0 \<longleftrightarrow> set gone = tree) \<and>
        distinct gone \<and> sorted_wrt (\<lambda>a b. \<not> in_tree a b) gone \<and>
        (\<forall>e\<in>set es. \<exists>p\<in>tree. fst e = Umount2 p (UMOUNT_NOFOLLOW OR MNT_DETACH)) \<and>
        mounts_of m' = mounts_of m - set gone \<and> ml_inv m' \<and>
        (sorted_as m \<noteq> MOUNT_SORT_UNSORTED \<longrightarrow> sorted_as m' = sorted_as m))"
proof -
  from effects_run [OF unmountTree_effects [OF assms(1-4)] assms(5)] obtain es where
    es: "w_trace w' = w_trace w @ es" "unmounts base m rc m' es" by auto
  have tree: "tree_of base m = {p \<in> mounts_of m. \<exists>tail. p = base @ tail \<and> (tail = [] \<or> hd tail = CHR ''/'')}"
    by (simp add: tree_of_def in_tree_iff)
  show ?thesis using es by (intro exI [of _ es]) (simp add: unmounts_def tree Let_def)
qed

lemma unmountTree_exact_witness:
  "\<exists>m' w'. run_state (unmountTree sample_list ''/a'') calm_world = ((0, m'), w') \<and> mounts_of m' = {''/c''}"
proof -
  obtain rc m' w' where r: "run_state (unmountTree sample_list ''/a'') calm_world = ((rc, m'), w')"
    by (cases "run_state (unmountTree sample_list ''/a'') calm_world") (metis surj_pair)
  have rev: "mountPointList (set_order MOUNT_SORT_REVERSE sample_list) = [''/c'', ''/a'']"
    using reverse_loop_rev [of "[''/a'', ''/c'']"]
    by (simp add: set_order_def setSort_MountList_def sample_list_def numeral_2_eq_2)
  have "rc = 0 \<and> umounted (w_trace w') = [''/a'']"
    using r by (auto simp: unmountTree_def rev in_tree_def calm_world_def calm_env_def success_def Let_def prefix_def
        split: prod.splits)
  moreover from unmountTree_exact [OF _ _ _ _ r] ml_ordered_sample obtain es where
    "w_trace w' = es" "mounts_of m' = {''/a'', ''/c''} - set (umounted es)"
    by (auto simp: ml_ordered_def calm_world_def Let_def)
  ultimately have "mounts_of m' = {''/c''}" by auto
  with r \<open>rc = 0 \<and> _\<close> show ?thesis by auto
qed

text \<open>
  C19. Tearing a container down reports success only after it has read a mount table in which no
  mount starts with the container's mount point, and one without the loop mount point.
\<close>

theorem destructUDI_success:
  assumes "run_state (destructUDI cfg killSsh) w = (0, w')"
  shows "\<exists>es. w_trace w' = w_trace w @ es \<and>
    seen_unmounted (path_buffer (show_str (udiMountPoint cfg))) True es \<and>
    seen_unmounted (path_buffer (show_str (loopMountPoint cfg))) False es"
  using effects_run [OF destructUDI_effects assms] by auto

lemma destructUDI_success_witness:
  "\<exists>w'. run_state (destructUDI empty_UdiRootConfig False) calm_world = (0, w') \<and>
     seen_unmounted ''(null)'' True (w_trace w')"
proof -
  define e where "e = empty_MountList\<lparr>sorted_as := MOUNT_SORT_REVERSE\<rparr>"
  have u1: "run_state (unmountTree empty_MountList ''(null)'') w = ((0, e), w)" for w
    by (simp add: unmountTree_def set_order_def setSort_MountList_def e_def) (simp add: empty_MountList_def)
  have u2: "run_state (unmountTree e ''(null)'') w = ((0, e), w)" for w
    by (simp add: unmountTree_def set_order_def setSort_MountList_def e_def) (simp add: empty_MountList_def)
  have p: "parse_MountList (Some []) empty_MountList = (0, empty_MountList)"
    by (simp add: parse_MountList_def)
  have r1: "\<exists>w'. run_state (read_mounts empty_MountList) w = ((0, empty_MountList), w') \<and> w_env w' = calm_env"
    if "w_env w = calm_env" for w
    using that by (simp add: read_mounts_def calm_env_def success_def p)
  have v: "\<exists>w'. run_state (validateUnmounted ''(null)'' s) w = (0, w') \<and> w_env w' = calm_env"
    if "w_env w = calm_env" for w s
    using r1 [OF that]
    by (auto simp: validateUnmounted_def findstartswith_MountList_def find_MountList_def empty_MountList_def)
  have none: "path_buffer (show_str None) = ''(null)''" by (simp add: path_buffer_def show_str_def PATH_MAX_def)
  have cw: "w_env calm_world = calm_env" "w_trace calm_world = []" by (simp_all add: calm_world_def)
  have "\<exists>w'. run_state (destruct_rounds (Suc 9) True False ''(null)'' ''(null)'' empty_MountList) w = (0, w')"
    if cw: "w_env w = calm_env" for w
  proof -
    from v [OF cw, of True] obtain w1 where w1: "run_state (validateUnmounted ''(null)'' True) w = (0, w1)"
      "w_env w1 = calm_env" by blast
    from v [OF w1(2), of False] obtain w2 where "run_state (validateUnmounted ''(null)'' False) w1 = (0, w2)" by blast
    with w1 show ?thesis unfolding destruct_rounds.simps(2) by (simp add: u1 u2)
  qed
  note rounds = this [simplified]
  obtain w1 where w1: "run_state (read_mounts empty_MountList) calm_world = ((0, empty_MountList), w1)"
    "w_env w1 = calm_env" using r1 [OF cw(1)] by blast
  obtain w' where "run_state (destruct_rounds 10 True False ''(null)'' ''(null)'' empty_MountList) w1 = (0, w')"
    using rounds [OF w1(2)] by blast
  with w1(1) have r: "run_state (destructUDI empty_UdiRootConfig False) calm_world = (0, w')"
    by (simp add: destructUDI_def empty_UdiRootConfig_def none)
  from destructUDI_success [OF r] r show ?thesis
    by (auto simp: none empty_UdiRootConfig_def cw(2))
qed

end
