(* ===== verification/ShifterEnv.thy ===== *)
theory ShifterEnv
  imports ImageData
begin

text \<open>
  src/src/shifter_core.c, the environment and the arguments of the container process: the environment
  array with its set, append, prepend and unset operations, the environment file, the order in which
  image, user, modules and site set variables, and the choice of the command.

  An environment is the list of its entries, without the NULL at the end. An \<open>exit(1)\<close> ends the
  process and is the outcome \<open>Abort\<close>.
\<close>

section \<open>The environment array\<close>

definition var_name :: "cstring \<Rightarrow> cstring" where
  "var_name var = takeWhile (\<lambda>c. c \<noteq> CHR ''='') var"

definition shifter_envsize :: "cstring list \<Rightarrow> nat" where
  "shifter_envsize env = length env"

text \<open>The index of the first entry that starts with the key and its equals sign.\<close>

fun first_with :: "cstring \<Rightarrow> cstring list \<Rightarrow> nat option" where
  "first_with key [] = None"
| "first_with key (e # es) = (if prefix key e then Some 0 else map_option Suc (first_with key es))"

definition shifter_findenv :: "cstring list \<Rightarrow> cstring \<Rightarrow> nat option" where
  "shifter_findenv env var = first_with (var_name var @ ''='') env"

text \<open>The found entry is overwritten with the last one, which becomes the NULL.\<close>

definition shifter_unsetenv :: "cstring list \<Rightarrow> cstring \<Rightarrow> cstring list" where
  "shifter_unsetenv env var =
     (case shifter_findenv env var of
        None \<Rightarrow> env
      | Some idx \<Rightarrow> if 0 < shifter_envsize env then butlast (env[idx := env ! (shifter_envsize env - 1)]) else env)"

datatype env_putenv_mode = ENV_REPLACE | ENV_PREPEND | ENV_APPEND

definition putenv_mode :: "cstring list \<Rightarrow> cstring \<Rightarrow> env_putenv_mode \<Rightarrow> int \<times> cstring list" where
  "putenv_mode env var mode =
     (case strchr_split (CHR ''='') var of
        None \<Rightarrow> (1, env)
      | Some (name, newvalue) \<Rightarrow>
          if newvalue = [] then (1, env)
          else (case shifter_findenv env var of
            Some i \<Rightarrow>
              let currvalue = (case strchr_split (CHR ''='') (env ! i) of
                    None \<Rightarrow> None
                  | Some (n, v) \<Rightarrow> if v = [] then None else Some v)
              in (case currvalue of
                    None \<Rightarrow> (0, env[i := var])
                  | Some cur \<Rightarrow>
                      (case mode of
                         ENV_REPLACE \<Rightarrow> (0, env[i := var])
                       | ENV_PREPEND \<Rightarrow> (0, env[i := var @ '':'' @ cur])
                       | ENV_APPEND \<Rightarrow> (0, env[i := env ! i @ '':'' @ newvalue])))
          | None \<Rightarrow> (0, env @ [var])))"

definition shifter_putenv :: "cstring list \<Rightarrow> cstring \<Rightarrow> int \<times> cstring list" where
  "shifter_putenv env var = putenv_mode env var ENV_REPLACE"

definition shifter_appendenv :: "cstring list \<Rightarrow> cstring \<Rightarrow> int \<times> cstring list" where
  "shifter_appendenv env var = putenv_mode env var ENV_APPEND"

definition shifter_prependenv :: "cstring list \<Rightarrow> cstring \<Rightarrow> int \<times> cstring list" where
  "shifter_prependenv env var = putenv_mode env var ENV_PREPEND"

definition shifter_copyenv :: "cstring list option \<Rightarrow> cstring list option" where
  "shifter_copyenv environ = (case environ of None \<Rightarrow> None | Some es \<Rightarrow> Some es)"

section \<open>The environment file\<close>

text \<open>
  One line: blank lines and comments are skipped. The line is trimmed in its buffer, which the
  next call of \<open>getline\<close> gets.
\<close>

definition putenv_line :: "cstring list \<Rightarrow> cstring \<Rightarrow> int \<times> cstring list" where
  "putenv_line env line =
     (let trimmed_line = shifter_trim line
      in if trimmed_line = [] then (0, env)
         else if hd trimmed_line = CHR ''#'' then (0, env)
         else if CHR ''='' \<notin> set trimmed_line then (1, env)
         else let (r, env') = shifter_putenv env trimmed_line
              in if r \<noteq> 0 then (1, env') else (0, env'))"

fun putenv_lines :: "cstring list \<Rightarrow> cstring list \<Rightarrow> int \<times> cstring list" where
  "putenv_lines env [] = (0, env)"
| "putenv_lines env (l # ls) =
     (let (r, env') = putenv_line env l in if r \<noteq> 0 then (1, env') else putenv_lines env' ls)"

text \<open>
  The -1 of \<open>getline\<close> at the end of the file is stored in a \<open>size_t\<close>, so the loop handles the buffer
  once more: the last line again, as \<open>shifter_trim\<close> left it, or whatever \<open>getline\<close> makes of the buffer
  (\<open>eofbuf\<close>). A last line without newline sets the end-of-file flag and ends the loop at once.
\<close>

definition trimmed_buffer :: "cstring \<Rightarrow> cstring" where
  "trimmed_buffer l = (if shifter_trim l = [] then l else takeWhile isspace l @ shifter_trim l)"

definition shifter_putenv_file ::
  "(cstring \<Rightarrow> cstring) \<Rightarrow> cstring option \<Rightarrow> cstring list \<Rightarrow> int \<times> cstring list" where
  "shifter_putenv_file eofbuf contents env =
     (case contents of
        None \<Rightarrow> (1, env)
      | Some inp \<Rightarrow>
          let (r, env') = putenv_lines env (file_lines inp)
          in if r \<noteq> 0 then (1, env')
             else if inp = [] \<or> ends_with_nl inp then
               putenv_line env' (eofbuf (if inp = [] then [] else trimmed_buffer (last (file_lines inp))))
             else (0, env'))"

section \<open>The environment of the container\<close>

text \<open>The settings of one module, or of the site, in the order of the code.\<close>

definition apply_site_settings ::
  "cstring list \<Rightarrow> cstring list \<Rightarrow> cstring list \<Rightarrow> cstring list \<Rightarrow> cstring list \<Rightarrow> cstring list" where
  "apply_site_settings sets appends prepends unsets env =
     (let e1 = foldl (\<lambda>e v. snd (shifter_putenv e v)) env sets;
          e2 = foldl (\<lambda>e v. snd (shifter_appendenv e v)) e1 appends;
          e3 = foldl (\<lambda>e v. snd (shifter_prependenv e v)) e2 prepends
      in foldl shifter_unsetenv e3 unsets)"

definition apply_module :: "ShifterModule \<Rightarrow> cstring list \<Rightarrow> cstring list" where
  "apply_module m = apply_site_settings (m_siteEnv m) (m_siteEnvAppend m) (m_siteEnvPrepend m) (m_siteEnvUnset m)"

text \<open>The variables the user gives: the first that is refused ends the process.\<close>

fun put_user :: "cstring list \<Rightarrow> cstring list \<Rightarrow> cstring list outcome" where
  "put_user env [] = Ret env"
| "put_user env (v # vs) =
     (let (r, env') = shifter_putenv env v in if r \<noteq> 0 then Abort else put_user env' vs)"

definition shifter_setupenv ::
  "(cstring \<Rightarrow> cstring) \<Rightarrow> (cstring \<Rightarrow> cstring option) \<Rightarrow> cstring list \<Rightarrow> ImageData \<Rightarrow> cstring option \<Rightarrow>
   cstring list option \<Rightarrow> UdiRootConfig \<Rightarrow> cstring list outcome" where
  "shifter_setupenv eofbuf readf env img envfile user_env udiConfig =
     (let e1 = foldl (\<lambda>e v. snd (shifter_putenv e v)) env (sa_items (i_env img));
          (r, e2) = (case envfile of None \<Rightarrow> (0, e1) | Some f \<Rightarrow> shifter_putenv_file eofbuf (readf f) e1)
      in if r \<noteq> 0 then Abort
         else case put_user e2 (case user_env of None \<Rightarrow> [] | Some us \<Rightarrow> us) of
           Ret e3 \<Rightarrow>
             let e4 = foldl (\<lambda>e i. apply_module (modules udiConfig ! i) e) e3 (active_modules udiConfig)
             in Ret (apply_site_settings (sa_items (siteEnv udiConfig)) (sa_items (siteEnvAppend udiConfig))
                       (sa_items (siteEnvPrepend udiConfig)) (sa_items (siteEnvUnset udiConfig)) e4)
         | _ \<Rightarrow> Abort)"

section \<open>The command\<close>

text \<open>\<open>shell\<close> is the value of SHELL in the environment of the caller.\<close>

definition calculate_args ::
  "cstring option \<Rightarrow> bool \<Rightarrow> cstring list option \<Rightarrow> cstring option \<Rightarrow> ImageData \<Rightarrow> cstring list option outcome" where
  "calculate_args shell useEntry clArgs clEntry img =
     (let none_given = (clArgs = None \<or> clArgs = Some []);
          copied = (if \<not> none_given
                    then (case dup_string_array clArgs of Ret a \<Rightarrow> Ret (Some a) | Abort \<Rightarrow> Abort | OutOfBounds \<Rightarrow> OutOfBounds)
                    else if i_cmd img \<noteq> None \<and> clEntry = None
                    then (case dup_string_array (i_cmd img) of Ret a \<Rightarrow> Ret (Some a) | Abort \<Rightarrow> Abort | OutOfBounds \<Rightarrow> OutOfBounds)
                    else Ret None)
      in case copied of
           Ret cmdArgs \<Rightarrow>
             if useEntry then
               (let entry = (case clEntry of
                       Some e \<Rightarrow> Ret (Some (make_string_array e))
                     | None \<Rightarrow>
                         if i_entryPoint img \<noteq> None \<and> i_entryPoint img \<noteq> Some []
                         then (case dup_string_array (i_entryPoint img) of Ret a \<Rightarrow> Ret (Some a) | Abort \<Rightarrow> Abort | OutOfBounds \<Rightarrow> OutOfBounds)
                         else Ret None)
                in case entry of
                     Ret (Some e) \<Rightarrow>
                       (case cmdArgs of
                          None \<Rightarrow> Ret (Some e)
                        | Some c \<Rightarrow>
                            (case merge_args (Some e) (Some c) of
                               Ret (Some m) \<Rightarrow> Ret (Some m)
                             | Ret None \<Rightarrow> Ret (Some c)
                             | Abort \<Rightarrow> Abort
                             | OutOfBounds \<Rightarrow> OutOfBounds))
                   | Ret None \<Rightarrow> Ret None
                   | Abort \<Rightarrow> Abort
                   | OutOfBounds \<Rightarrow> OutOfBounds)
             else if clArgs = None then
               Ret (Some [case shell of None \<Rightarrow> ''/bin/sh'' | Some s \<Rightarrow> s])
             else Ret cmdArgs
         | Abort \<Rightarrow> Abort
         | OutOfBounds \<Rightarrow> OutOfBounds)"

section \<open>An environment as a map\<close>

text \<open>What \<open>getenv\<close> finds: the first entry of the name.\<close>

definition setting :: "cstring \<Rightarrow> cstring \<times> cstring" where
  "setting e = (var_name e, tl (dropWhile (\<lambda>c. c \<noteq> CHR ''='') e))"

definition getvar :: "cstring list \<Rightarrow> cstring \<Rightarrow> cstring option" where
  "getvar env = map_of (map setting (filter (\<lambda>e. CHR ''='' \<in> set e) env))"

text \<open>An environment in which every entry is a setting and no name occurs twice.\<close>

definition env_ok :: "cstring list \<Rightarrow> bool" where
  "env_ok env \<longleftrightarrow> (\<forall>e\<in>set env. CHR ''='' \<in> set e) \<and> distinct (map var_name env)"

definition combine :: "env_putenv_mode \<Rightarrow> cstring option \<Rightarrow> cstring \<Rightarrow> cstring" where
  "combine mode cur v =
     (case cur of
        None \<Rightarrow> v
      | Some c \<Rightarrow>
          if c = [] then v
          else (case mode of ENV_REPLACE \<Rightarrow> v | ENV_PREPEND \<Rightarrow> v @ '':'' @ c | ENV_APPEND \<Rightarrow> c @ '':'' @ v))"

text \<open>What one setting does to the map; a text that is not a setting with a value does nothing.\<close>

definition put_step :: "env_putenv_mode \<Rightarrow> (cstring \<Rightarrow> cstring option) \<Rightarrow> cstring \<Rightarrow> (cstring \<Rightarrow> cstring option)" where
  "put_step mode m var =
     (case strchr_split (CHR ''='') var of
        None \<Rightarrow> m
      | Some (k, v) \<Rightarrow> if v = [] then m else m(k \<mapsto> combine mode (m k) v))"

definition unset_step :: "(cstring \<Rightarrow> cstring option) \<Rightarrow> cstring \<Rightarrow> (cstring \<Rightarrow> cstring option)" where
  "unset_step m var = m(var_name var := None)"

lemma until_sep:
  "c \<notin> set a \<Longrightarrow> takeWhile (\<lambda>x. x \<noteq> c) (a @ c # b) = a"
  "c \<notin> set a \<Longrightarrow> dropWhile (\<lambda>x. x \<noteq> c) (a @ c # b) = c # b"
  by (induction a) auto

lemma var_name_setting: "CHR ''='' \<notin> set k \<Longrightarrow> var_name (k @ CHR ''='' # v) = k"
  by (simp add: var_name_def until_sep)

lemma setting_eq: "CHR ''='' \<notin> set k \<Longrightarrow> setting (k @ CHR ''='' # v) = (k, v)"
  by (simp add: setting_def var_name_setting until_sep)

lemma var_name_no_eq [simp]: "CHR ''='' \<notin> set (var_name e)"
  by (auto simp: var_name_def dest: set_takeWhileD)

lemma setting_split: "CHR ''='' \<in> set e \<Longrightarrow> \<exists>v. e = var_name e @ CHR ''='' # v"
  using split_list_first [of "CHR ''=''" e] by (auto simp: var_name_def until_sep)

lemma prefix_key_iff:
  assumes "CHR ''='' \<notin> set k"
  shows "prefix (k @ ''='') e \<longleftrightarrow> CHR ''='' \<in> set e \<and> var_name e = k"
proof
  assume "prefix (k @ ''='') e"
  then obtain r where "e = k @ CHR ''='' # r" by (auto simp: prefix_def)
  then show "CHR ''='' \<in> set e \<and> var_name e = k" using var_name_setting [OF assms] by simp
next
  assume "CHR ''='' \<in> set e \<and> var_name e = k"
  then show "prefix (k @ ''='') e" using setting_split [of e] by (auto simp: prefix_def)
qed

lemma getvar_Cons:
  "getvar (e # es) = (if CHR ''='' \<in> set e then (getvar es)(var_name e \<mapsto> snd (setting e)) else getvar es)"
  by (simp add: getvar_def setting_def)

lemma getvar_Nil [simp]: "getvar [] = Map.empty"
  by (simp add: getvar_def)

lemma first_with_None:
  assumes "CHR ''='' \<notin> set k"
  shows "first_with (k @ ''='') env = None \<longleftrightarrow> getvar env k = None"
  by (induction env) (auto simp: getvar_Cons prefix_key_iff [OF assms])

lemma first_with_Some:
  assumes "CHR ''='' \<notin> set k"
  shows "first_with (k @ ''='') env = Some i \<Longrightarrow>
    i < length env \<and> (\<exists>v. env ! i = k @ CHR ''='' # v \<and> getvar env k = Some v) \<and>
    (\<forall>x. getvar (env[i := k @ CHR ''='' # x]) = (getvar env)(k \<mapsto> x))"
proof (induction env arbitrary: i)
  case (Cons e es)
  show ?case
  proof (cases "prefix (k @ ''='') e")
    case True
    then have "CHR ''='' \<in> set e" "var_name e = k" by (simp_all add: prefix_key_iff [OF assms])
    then obtain v where "e = k @ CHR ''='' # v" using setting_split by blast
    with True Cons.prems show ?thesis
      by (auto simp: getvar_Cons setting_eq [OF assms] var_name_setting [OF assms])
  next
    case False
    then obtain j where j: "i = Suc j" "first_with (k @ ''='') es = Some j" using Cons.prems by auto
    then show ?thesis using Cons.IH [OF j(2)] False
      by (auto simp: getvar_Cons prefix_key_iff [OF assms] fun_upd_twist)
  qed
qed simp

lemma getvar_append: "getvar (env @ [k @ CHR ''='' # v]) = (if getvar env k = None then (getvar env)(k \<mapsto> v) else getvar env)"
  if "CHR ''='' \<notin> set k"
  by (induction env) (auto simp: getvar_Cons setting_eq [OF that] var_name_setting [OF that])

lemma map_var_name_update:
  "i < length env \<Longrightarrow> var_name (env ! i) = var_name e \<Longrightarrow> map var_name (env[i := e]) = map var_name env"
  by (metis list_update_id map_update)

lemma env_ok_update:
  assumes "env_ok env" "i < length env" "env ! i = k @ CHR ''='' # v" "CHR ''='' \<notin> set k"
  shows "env_ok (env[i := k @ CHR ''='' # x])"
  using assms map_var_name_update [of i env "k @ CHR ''='' # x"]
  by (auto simp: env_ok_def var_name_setting dest!: set_update_subset_insert [THEN subsetD])

lemma env_ok_append:
  assumes "env_ok env" "getvar env k = None" "CHR ''='' \<notin> set k"
  shows "env_ok (env @ [k @ CHR ''='' # x])"
  using assms by (auto simp: env_ok_def var_name_setting getvar_def map_of_eq_None_iff setting_def image_iff)

lemma putenv_mode_split:
  assumes "CHR ''='' \<notin> set k" "v \<noteq> []"
  shows "\<exists>env'. putenv_mode env (k @ CHR ''='' # v) mode = (0, env') \<and>
           getvar env' = (getvar env)(k \<mapsto> combine mode (getvar env k) v) \<and> (env_ok env \<longrightarrow> env_ok env')"
proof (cases "first_with (k @ ''='') env")
  case None
  then have "getvar env k = None" using first_with_None [OF assms(1)] by simp
  then show ?thesis using None assms getvar_append [OF assms(1)] env_ok_append
    by (simp add: putenv_mode_def strchr_split_append shifter_findenv_def var_name_setting combine_def)
next
  case (Some i)
  note f = first_with_Some [OF assms(1) Some]
  then obtain cur where cur: "env ! i = k @ CHR ''='' # cur" "getvar env k = Some cur" "i < length env" by blast
  then show ?thesis using Some assms f env_ok_update [OF _ cur(3,1) assms(1)]
    by (cases mode) (auto simp: putenv_mode_def strchr_split_append shifter_findenv_def var_name_setting combine_def)
qed

lemma putenv_mode_refused:
  "\<not> (\<exists>k v. strchr_split (CHR ''='') var = Some (k, v) \<and> v \<noteq> []) \<Longrightarrow> putenv_mode env var mode = (1, env)"
  by (auto simp: putenv_mode_def split: option.split)

lemma putenv_mode_step:
  "getvar (snd (putenv_mode env var mode)) = put_step mode (getvar env) var"
  "env_ok env \<Longrightarrow> env_ok (snd (putenv_mode env var mode))"
proof -
  have "getvar (snd (putenv_mode env var mode)) = put_step mode (getvar env) var \<and>
    (env_ok env \<longrightarrow> env_ok (snd (putenv_mode env var mode)))"
  proof (cases "\<exists>k v. strchr_split (CHR ''='') var = Some (k, v) \<and> v \<noteq> []")
    case True
    then obtain k v where s: "strchr_split (CHR ''='') var = Some (k, v)" "v \<noteq> []" by blast
    then have "var = k @ CHR ''='' # v" "CHR ''='' \<notin> set k" using strchr_split_Some by blast+
    with putenv_mode_split [OF this(2) s(2), of env mode] s show ?thesis by (auto simp: put_step_def)
  next
    case False
    with putenv_mode_refused [OF False] show ?thesis by (auto simp: put_step_def split: option.split)
  qed
  then show "getvar (snd (putenv_mode env var mode)) = put_step mode (getvar env) var"
    "env_ok env \<Longrightarrow> env_ok (snd (putenv_mode env var mode))" by auto
qed

section \<open>Removal\<close>

lemma mset_swap_out:
  assumes "i < length xs"
  shows "add_mset (xs ! i) (mset (butlast (xs[i := xs ! (length xs - 1)]))) = mset xs"
proof -
  obtain ys y where xs: "xs = ys @ [y]" using assms by (cases xs rule: rev_cases) auto
  show ?thesis
  proof (cases "i < length ys")
    case True
    then have "butlast (xs[i := xs ! (length xs - 1)]) = ys[i := y]"
      by (simp add: xs list_update_append)
    moreover have "add_mset (ys ! i) (mset (ys[i := y])) = add_mset y (mset ys)"
      using True by (simp add: mset_update)
    ultimately show ?thesis using True by (simp add: xs nth_append)
  next
    case False
    then have "i = length ys" using assms xs by simp
    then show ?thesis by (simp add: xs)
  qed
qed

lemma getvar_in:
  assumes "env_ok env" "CHR ''='' \<notin> set k"
  shows "getvar env k = Some v \<longleftrightarrow> k @ CHR ''='' # v \<in> set env"
proof -
  have "distinct (map fst (map setting env))" "filter (\<lambda>e. CHR ''='' \<in> set e) env = env"
    using assms(1) by (simp_all add: env_ok_def setting_def comp_def filter_id_conv)
  then have "getvar env k = Some v \<longleftrightarrow> (k, v) \<in> setting ` set env"
    by (simp add: getvar_def del: map_map)
  also have "\<dots> \<longleftrightarrow> k @ CHR ''='' # v \<in> set env"
  proof
    assume "(k, v) \<in> setting ` set env"
    then obtain e where e: "e \<in> set env" "setting e = (k, v)" by force
    then have "CHR ''='' \<in> set e" using assms(1) by (simp add: env_ok_def)
    then obtain x where "e = var_name e @ CHR ''='' # x" using setting_split by blast
    then have "e = k @ CHR ''='' # v"
      using e(2) setting_eq [OF var_name_no_eq, of e x] by (metis prod.inject)
    then show "k @ CHR ''='' # v \<in> set env" using e(1) by simp
  next
    assume "k @ CHR ''='' # v \<in> set env"
    then show "(k, v) \<in> setting ` set env" using setting_eq [OF assms(2), of v] by force
  qed
  finally show ?thesis .
qed

lemma getvar_eq_name: "CHR ''='' \<in> set k \<Longrightarrow> getvar env k = None"
  by (induction env) (auto simp: getvar_Cons)

lemma shifter_unsetenv_step:
  assumes ok: "env_ok env"
  shows "env_ok (shifter_unsetenv env var) \<and> getvar (shifter_unsetenv env var) = unset_step (getvar env) var"
proof (cases "first_with (var_name var @ ''='') env")
  case None
  then have "getvar env (var_name var) = None" by (simp add: first_with_None)
  then show ?thesis using None ok by (simp add: shifter_unsetenv_def shifter_findenv_def unset_step_def fun_upd_idem)
next
  case (Some i)
  note f = first_with_Some [OF var_name_no_eq Some]
  then obtain cur where cur: "env ! i = var_name var @ CHR ''='' # cur" and i: "i < length env" by blast
  define env' where "env' = shifter_unsetenv env var"
  have env': "env' = butlast (env[i := env ! (length env - 1)])"
    using Some i by (auto simp: env'_def shifter_unsetenv_def shifter_findenv_def shifter_envsize_def)
  have m: "add_mset (env ! i) (mset env') = mset env"
    unfolding env' by (rule mset_swap_out [OF i])
  have "mset (map var_name env) = mset (var_name var # map var_name env')"
    using arg_cong [OF m, of "image_mset var_name"] cur by (simp add: var_name_setting)
  then have "distinct (var_name var # map var_name env')"
    using ok mset_eq_imp_distinct_iff unfolding env_ok_def by blast
  then have d: "distinct (map var_name env')" "var_name var \<notin> set (map var_name env')" by simp_all
  have se: "set env = insert (env ! i) (set env')"
    using arg_cong [OF m, of set_mset] by simp
  have ok': "env_ok env'" using d(1) se ok by (auto simp: env_ok_def)
  have "getvar env' k = unset_step (getvar env) var k" for k
  proof (cases "CHR ''='' \<in> set k")
    case True
    then show ?thesis by (simp add: getvar_eq_name unset_step_def)
  next
    case False
    have "getvar env' k = Some v \<longleftrightarrow> unset_step (getvar env) var k = Some v" for v
    proof (cases "k = var_name var")
      case True
      then have "k @ CHR ''='' # v \<notin> set env'" using d(2) var_name_setting [OF False, of v] by (metis image_eqI list.set_map)
      then show ?thesis using True getvar_in [OF ok' False] by (simp add: unset_step_def)
    next
      case neq: False
      then have "k @ CHR ''='' # v \<noteq> env ! i" using cur False by (metis var_name_no_eq var_name_setting)
      then show ?thesis using neq getvar_in [OF ok' False] getvar_in [OF ok False] se by (simp add: unset_step_def)
    qed
    then show ?thesis by (metis option.exhaust)
  qed
  then show ?thesis using ok' unfolding env'_def by auto
qed

text \<open>With a name that occurs twice, only its first entry goes.\<close>

lemma unsetenv_keeps_duplicate:
  assumes "env = pre @ (k @ CHR ''='' # v) # mid @ (k @ CHR ''='' # w) # post" "CHR ''='' \<notin> set k"
  shows "getvar (shifter_unsetenv env k) k \<noteq> None"
proof -
  have vn: "var_name k = k" using assms(2) by (auto simp: var_name_def takeWhile_eq_all_conv)
  have two: "2 \<le> length (filter (\<lambda>e. prefix (k @ ''='') e) env)"
    using assms by (simp add: prefix_key_iff var_name_setting)
  then obtain i where i: "first_with (k @ ''='') env = Some i"
    using first_with_None [OF assms(2), of env] assms
    by (cases "first_with (k @ ''='') env") (auto simp: getvar_def map_of_eq_None_iff setting_eq)
  have len: "i < length env" using first_with_Some [OF assms(2) i] by blast
  then have e: "shifter_unsetenv env k = butlast (env[i := env ! (length env - 1)])"
    using i vn by (auto simp: shifter_unsetenv_def shifter_findenv_def shifter_envsize_def)
  have "mset (filter (prefix (k @ ''='')) (shifter_unsetenv env k)) \<noteq> {#}"
  proof
    assume a: "mset (filter (prefix (k @ ''='')) (shifter_unsetenv env k)) = {#}"
    have "mset (filter (prefix (k @ ''='')) env) =
        filter_mset (prefix (k @ ''='')) (add_mset (env ! i) (mset (shifter_unsetenv env k)))"
      using mset_swap_out [OF len] e by simp
    moreover have "filter_mset (prefix (k @ ''='')) (mset (shifter_unsetenv env k)) = {#}"
      using a by (simp only: mset_filter)
    ultimately have "size (mset (filter (prefix (k @ ''='')) env)) \<le> 1"
      by (simp del: mset_filter filter_mset_eq_mempty_iff)
    then have "length (filter (prefix (k @ ''='')) env) \<le> 1" by (simp only: size_mset)
    then show False using two by simp
  qed
  then obtain x where "x \<in> set (shifter_unsetenv env k)" "prefix (k @ ''='') x"
    by (metis filter_empty_conv mset.simps(1))
  then show ?thesis
    using first_with_None [OF assms(2), of "shifter_unsetenv env k"] prefix_key_iff [OF assms(2)]
    by (force simp: getvar_def map_of_eq_None_iff setting_def)
qed

section \<open>The interface of an environment\<close>

text \<open>
  What the set up relies on: setting and removing a variable act on the map that the environment
  stands for, and keep the invariant.
\<close>

definition site_steps ::
  "cstring list \<Rightarrow> cstring list \<Rightarrow> cstring list \<Rightarrow> cstring list \<Rightarrow>
   (cstring \<Rightarrow> cstring option) \<Rightarrow> (cstring \<Rightarrow> cstring option)" where
  "site_steps sets appends prepends unsets m =
     foldl unset_step
       (foldl (put_step ENV_PREPEND)
         (foldl (put_step ENV_APPEND) (foldl (put_step ENV_REPLACE) m sets) appends) prepends) unsets"

definition module_steps :: "ShifterModule \<Rightarrow> (cstring \<Rightarrow> cstring option) \<Rightarrow> (cstring \<Rightarrow> cstring option)" where
  "module_steps m = site_steps (m_siteEnv m) (m_siteEnvAppend m) (m_siteEnvPrepend m) (m_siteEnvUnset m)"

locale env_store =
  fixes lookup :: "'e \<Rightarrow> cstring \<Rightarrow> cstring option"
    and ok :: "'e \<Rightarrow> bool"
    and put :: "env_putenv_mode \<Rightarrow> 'e \<Rightarrow> cstring \<Rightarrow> 'e"
    and unset :: "'e \<Rightarrow> cstring \<Rightarrow> 'e"
  assumes lookup_put: "ok e \<Longrightarrow> lookup (put mode e var) = put_step mode (lookup e) var"
    and put_ok: "ok e \<Longrightarrow> ok (put mode e var)"
    and lookup_unset: "ok e \<Longrightarrow> lookup (unset e var) = unset_step (lookup e) var"
    and unset_ok: "ok e \<Longrightarrow> ok (unset e var)"
begin

lemma put_all:
  "ok e \<Longrightarrow> ok (foldl (put mode) e vs) \<and> lookup (foldl (put mode) e vs) = foldl (put_step mode) (lookup e) vs"
  by (induction vs arbitrary: e) (simp_all add: lookup_put put_ok)

lemma unset_all:
  "ok e \<Longrightarrow> ok (foldl unset e vs) \<and> lookup (foldl unset e vs) = foldl unset_step (lookup e) vs"
  by (induction vs arbitrary: e) (simp_all add: lookup_unset unset_ok)

lemma site_all:
  assumes "ok e"
  shows "let e' = foldl unset (foldl (put ENV_PREPEND) (foldl (put ENV_APPEND)
             (foldl (put ENV_REPLACE) e sets) appends) prepends) unsets
         in ok e' \<and> lookup e' = site_steps sets appends prepends unsets (lookup e)"
  using assms by (simp add: site_steps_def put_all unset_all)

end

interpretation cenv: env_store getvar env_ok "\<lambda>mode e v. snd (putenv_mode e v mode)" shifter_unsetenv
  by unfold_locales (simp_all add: putenv_mode_step shifter_unsetenv_step)

lemma apply_site_settings_ok:
  "env_ok e \<Longrightarrow> env_ok (apply_site_settings ss as ps us e) \<and>
     getvar (apply_site_settings ss as ps us e) = site_steps ss as ps us (getvar e)"
  using cenv.site_all [of e ss as ps us]
  by (simp add: apply_site_settings_def Let_def shifter_putenv_def shifter_appendenv_def shifter_prependenv_def)

lemma apply_modules_ok:
  "env_ok e \<Longrightarrow> env_ok (foldl (\<lambda>e i. apply_module (ms ! i) e) e is) \<and>
     getvar (foldl (\<lambda>e i. apply_module (ms ! i) e) e is) = foldl (\<lambda>m i. module_steps (ms ! i) m) (getvar e) is"
  by (induction "is" arbitrary: e) (simp_all add: apply_module_def module_steps_def apply_site_settings_ok)

lemma unset_steps: "foldl unset_step m us k = (if k \<in> var_name ` set us then None else m k)"
  by (induction us arbitrary: m) (auto simp: unset_step_def)

lemma put_steps_other: "k \<notin> var_name ` set vs \<Longrightarrow> foldl (put_step mode) m vs k = m k"
proof (induction vs arbitrary: m)
  case (Cons v vs)
  have "put_step mode m v k = m k"
    using Cons.prems var_name_setting by (auto simp: put_step_def split: option.split dest!: strchr_split_Some)
  then show ?case using Cons by simp
qed simp

section \<open>The environment file and the user's variables\<close>

text \<open>A text that sets a variable: a name, an equals sign and a value that is not empty.\<close>

definition is_setting :: "cstring \<Rightarrow> bool" where
  "is_setting t \<longleftrightarrow> (\<exists>k v. t = k @ CHR ''='' # v \<and> CHR ''='' \<notin> set k \<and> v \<noteq> [])"

definition file_settings :: "cstring list \<Rightarrow> cstring list" where
  "file_settings ls = filter (\<lambda>t. t \<noteq> [] \<and> hd t \<noteq> CHR ''#'') (map shifter_trim ls)"

lemma is_setting_split: "is_setting t \<longleftrightarrow> (\<exists>k v. strchr_split (CHR ''='') t = Some (k, v) \<and> v \<noteq> [])"
proof
  assume "is_setting t"
  then obtain k v where "t = k @ CHR ''='' # v" "CHR ''='' \<notin> set k" "v \<noteq> []" by (auto simp: is_setting_def)
  then show "\<exists>k v. strchr_split (CHR ''='') t = Some (k, v) \<and> v \<noteq> []" using strchr_split_append by blast
next
  assume "\<exists>k v. strchr_split (CHR ''='') t = Some (k, v) \<and> v \<noteq> []"
  then show "is_setting t" using strchr_split_Some unfolding is_setting_def by blast
qed

lemma shifter_putenv_rc: "fst (shifter_putenv env t) = (if is_setting t then 0 else 1)"
proof (cases "is_setting t")
  case True
  then obtain k v where "t = k @ CHR ''='' # v" "CHR ''='' \<notin> set k" "v \<noteq> []" by (auto simp: is_setting_def)
  with putenv_mode_split [of k v env ENV_REPLACE] True show ?thesis by (auto simp: shifter_putenv_def)
next
  case False
  then show ?thesis using putenv_mode_refused by (simp add: is_setting_split shifter_putenv_def)
qed

lemma shifter_putenv_step:
  "getvar (snd (shifter_putenv env t)) = put_step ENV_REPLACE (getvar env) t"
  "env_ok env \<Longrightarrow> env_ok (snd (shifter_putenv env t))"
  by (simp_all add: shifter_putenv_def putenv_mode_step)

lemma put_step_idem: "put_step ENV_REPLACE (put_step ENV_REPLACE m t) t = put_step ENV_REPLACE m t"
  by (auto simp: put_step_def combine_def split: option.split)

text \<open>What one line does, in terms of its setting.\<close>

lemma putenv_line_result:
  "putenv_line env l =
     (if file_settings [l] = [] then (0, env)
      else (if is_setting (shifter_trim l) then 0 else 1, snd (shifter_putenv env (shifter_trim l))))"
proof -
  define t where "t = shifter_trim l"
  have fs: "file_settings [l] = [] \<longleftrightarrow> t = [] \<or> hd t = CHR ''#''"
    by (simp add: file_settings_def t_def)
  have "\<not> is_setting t" "snd (shifter_putenv env t) = env" if "CHR ''='' \<notin> set t"
    using that by (auto simp: is_setting_def shifter_putenv_def putenv_mode_def)
  moreover have "shifter_putenv env t = (if is_setting t then 0 else 1, snd (shifter_putenv env t))"
    using shifter_putenv_rc [of env t] by (metis prod.collapse)
  ultimately show ?thesis
    unfolding putenv_line_def t_def [symmetric] Let_def fs by (auto split: prod.splits if_splits)
qed

lemma putenv_lines_result:
  assumes "putenv_lines env ls = (r, env')"
  shows "(r = 0 \<longleftrightarrow> (\<forall>t\<in>set (file_settings ls). is_setting t)) \<and>
    (r = 0 \<longrightarrow> getvar env' = foldl (put_step ENV_REPLACE) (getvar env) (file_settings ls)) \<and>
    (env_ok env \<longrightarrow> env_ok env')"
  using assms
proof (induction ls arbitrary: env)
  case (Cons l ls)
  have fs: "file_settings (l # ls) = file_settings [l] @ file_settings ls" by (simp add: file_settings_def)
  have one: "file_settings [l] = [] \<or> file_settings [l] = [shifter_trim l]" by (auto simp: file_settings_def)
  show ?case
    using Cons.IH Cons.prems one fs
    by (auto simp: putenv_line_result shifter_putenv_step split: if_splits)
qed (simp add: file_settings_def)

lemma trimmed_buffer_trim [simp]: "shifter_trim (trimmed_buffer l) = shifter_trim l"
  by (auto simp: trimmed_buffer_def intro!: shifter_trim_pad [of "takeWhile isspace l" "[]" "shifter_trim l", simplified] dest: set_takeWhileD)

lemma shifter_trim_Nil: "shifter_trim [] = []"
  by (simp add: shifter_trim_def)

lemma putenv_file_result:
  assumes "shifter_putenv_file eofbuf (Some inp) env = (r, env')" "eofbuf = (\<lambda>b. b) \<or> eofbuf = (\<lambda>b. [])"
  shows "(r = 0 \<longleftrightarrow> (\<forall>t\<in>set (file_settings (file_lines inp)). is_setting t)) \<and>
    (r = 0 \<longrightarrow> getvar env' = foldl (put_step ENV_REPLACE) (getvar env) (file_settings (file_lines inp))) \<and>
    (env_ok env \<longrightarrow> env_ok env')"
proof -
  obtain r1 e1 where l: "putenv_lines env (file_lines inp) = (r1, e1)" by fastforce
  note L = putenv_lines_result [OF l]
  define b where "b = (if inp = [] then [] else trimmed_buffer (last (file_lines inp)))"
  have again: "putenv_line e1 (eofbuf b) = (0, e2) \<and> getvar e2 = getvar e1 \<and> (env_ok env \<longrightarrow> env_ok e2)"
    if "r1 = 0" "putenv_line e1 (eofbuf b) = (x, e2)" for x e2
  proof (cases "shifter_trim (eofbuf b) = [] \<or> hd (shifter_trim (eofbuf b)) = CHR ''#''")
    case True
    then show ?thesis using that L by (auto simp: putenv_line_result file_settings_def)
  next
    case False
    then have b: "inp \<noteq> []" "eofbuf b = b" "shifter_trim b = shifter_trim (last (file_lines inp))"
      using assms(2) by (auto simp: b_def shifter_trim_Nil split: if_splits)
    define t where "t = shifter_trim (last (file_lines inp))"
    have fl: "file_lines inp = butlast (file_lines inp) @ [last (file_lines inp)]" using b(1) by simp
    have fs: "file_settings (file_lines inp) = file_settings (butlast (file_lines inp)) @ [t]"
      using False b by (subst fl) (simp add: file_settings_def t_def del: append_butlast_last_id)
    then have g: "is_setting t" "getvar e1 = put_step ENV_REPLACE (getvar e1) t"
      using L that(1) put_step_idem by simp_all
    then show ?thesis using that b L False
      by (auto simp: putenv_line_result file_settings_def t_def shifter_putenv_step)
  qed
  show ?thesis
    using assms(1) l L again
    by (auto simp: shifter_putenv_file_def b_def [symmetric] Let_def split: if_splits prod.splits)
qed

lemma put_user_result:
  "put_user env us = Ret env' \<Longrightarrow>
     (\<forall>t\<in>set us. is_setting t) \<and> getvar env' = foldl (put_step ENV_REPLACE) (getvar env) us \<and>
     (env_ok env \<longrightarrow> env_ok env')"
proof (induction us arbitrary: env)
  case (Cons t us)
  then show ?case using shifter_putenv_rc [of env t] shifter_putenv_step [of env t]
    by (auto split: prod.splits if_splits)
qed simp

lemma setupenv_cases:
  assumes "shifter_setupenv eofbuf readf env img envfile user_env cfg = Ret env'"
  obtains e2 e3 where
    "(case envfile of None \<Rightarrow> (0, foldl (\<lambda>e v. snd (shifter_putenv e v)) env (sa_items (i_env img)))
       | Some f \<Rightarrow> shifter_putenv_file eofbuf (readf f) (foldl (\<lambda>e v. snd (shifter_putenv e v)) env (sa_items (i_env img)))) = (0, e2)"
    "put_user e2 (case user_env of None \<Rightarrow> [] | Some us \<Rightarrow> us) = Ret e3"
    "env' = apply_site_settings (sa_items (siteEnv cfg)) (sa_items (siteEnvAppend cfg)) (sa_items (siteEnvPrepend cfg))
              (sa_items (siteEnvUnset cfg)) (foldl (\<lambda>e i. apply_module (modules cfg ! i) e) e3 (active_modules cfg))"
  using assms by (auto simp: shifter_setupenv_def Let_def split: prod.splits if_splits outcome.splits)

text \<open>The settings of the environment file, none without one.\<close>

definition envfile_settings :: "(cstring \<Rightarrow> cstring option) \<Rightarrow> cstring option \<Rightarrow> cstring list" where
  "envfile_settings readf envfile =
     (case envfile of None \<Rightarrow> []
      | Some f \<Rightarrow> (case readf f of None \<Rightarrow> [] | Some inp \<Rightarrow> file_settings (file_lines inp)))"

lemma setupenv_map:
  assumes "env_ok env" "shifter_setupenv eofbuf readf env img envfile user_env cfg = Ret env'"
    and "eofbuf = (\<lambda>b. b) \<or> eofbuf = (\<lambda>b. [])"
  shows "env_ok env' \<and>
    (\<forall>t\<in>set (envfile_settings readf envfile) \<union> set (case user_env of None \<Rightarrow> [] | Some us \<Rightarrow> us). is_setting t) \<and>
    getvar env' =
      site_steps (sa_items (siteEnv cfg)) (sa_items (siteEnvAppend cfg)) (sa_items (siteEnvPrepend cfg)) (sa_items (siteEnvUnset cfg))
        (foldl (\<lambda>m i. module_steps (modules cfg ! i) m)
          (foldl (put_step ENV_REPLACE) (getvar env)
             (sa_items (i_env img) @ envfile_settings readf envfile @ (case user_env of None \<Rightarrow> [] | Some us \<Rightarrow> us)))
          (active_modules cfg))"
proof -
  let ?e1 = "foldl (\<lambda>e v. snd (shifter_putenv e v)) env (sa_items (i_env img))"
  let ?us = "case user_env of None \<Rightarrow> [] | Some us \<Rightarrow> us"
  from setupenv_cases [OF assms(2)] obtain e2 e3 where
    f: "(case envfile of None \<Rightarrow> (0, ?e1) | Some f \<Rightarrow> shifter_putenv_file eofbuf (readf f) ?e1) = (0, e2)" and
    u: "put_user e2 ?us = Ret e3" and
    e': "env' = apply_site_settings (sa_items (siteEnv cfg)) (sa_items (siteEnvAppend cfg)) (sa_items (siteEnvPrepend cfg))
              (sa_items (siteEnvUnset cfg)) (foldl (\<lambda>e i. apply_module (modules cfg ! i) e) e3 (active_modules cfg))" by blast
  have e1: "env_ok ?e1" "getvar ?e1 = foldl (put_step ENV_REPLACE) (getvar env) (sa_items (i_env img))"
    using cenv.put_all [OF assms(1), of ENV_REPLACE "sa_items (i_env img)"] by (simp_all add: shifter_putenv_def)
  have e2: "env_ok e2 \<and> (\<forall>t\<in>set (envfile_settings readf envfile). is_setting t) \<and>
      getvar e2 = foldl (put_step ENV_REPLACE) (getvar ?e1) (envfile_settings readf envfile)"
  proof (cases envfile)
    case None
    then show ?thesis using f e1 by (simp add: envfile_settings_def)
  next
    case (Some fname)
    then obtain inp where "readf fname = Some inp" using f by (cases "readf fname") (auto simp: shifter_putenv_file_def)
    then show ?thesis using f Some putenv_file_result [of eofbuf inp ?e1 0 e2] assms(3) e1(1)
      by (simp add: envfile_settings_def)
  qed
  note e3 = put_user_result [OF u]
  show ?thesis
    using apply_site_settings_ok apply_modules_ok e1 e2 e3 unfolding e' by auto
qed

section \<open>Properties\<close>

text \<open>
  C25. The environment of the container is built in layers, each of which acts on the map of variables:
  the caller's environment, then the image, the environment file and the user's options (later ones
  replace), then each active module and last the site (set, append, prepend, unset). An environment
  file or user option that is not a setting ends the process, so when the set up returns all were.
\<close>

theorem setupenv_layers:
  assumes "env_ok env" "shifter_setupenv eofbuf readf env img envfile user_env cfg = Ret env'"
    and "eofbuf = (\<lambda>b. b) \<or> eofbuf = (\<lambda>b. [])"
  shows "env_ok env' \<and>
    (\<forall>t\<in>set (envfile_settings readf envfile) \<union> set (case user_env of None \<Rightarrow> [] | Some us \<Rightarrow> us). is_setting t) \<and>
    getvar env' =
      site_steps (sa_items (siteEnv cfg)) (sa_items (siteEnvAppend cfg)) (sa_items (siteEnvPrepend cfg)) (sa_items (siteEnvUnset cfg))
        (foldl (\<lambda>m i. module_steps (modules cfg ! i) m)
          (foldl (put_step ENV_REPLACE) (getvar env)
             (sa_items (i_env img) @ envfile_settings readf envfile @ (case user_env of None \<Rightarrow> [] | Some us \<Rightarrow> us)))
          (active_modules cfg))"
  by (rule setupenv_map [OF assms])

definition sample_env_config :: UdiRootConfig where
  "sample_env_config = empty_UdiRootConfig
     \<lparr>siteEnv := \<lparr>sa_items = [''SITE=x''], sa_capacity = 16\<rparr>,
      siteEnvAppend := \<lparr>sa_items = [''PATH=/site''], sa_capacity = 16\<rparr>,
      siteEnvUnset := \<lparr>sa_items = [''LD_PRELOAD''], sa_capacity = 16\<rparr>\<rparr>"

definition sample_env :: "cstring list" where
  "sample_env = [''LD_PRELOAD=a.so'', ''PATH=/bin'']"

lemma sample_setup:
  "shifter_setupenv (\<lambda>b. b) (\<lambda>f. None) sample_env empty_ImageData None (Some [''A=1'', ''SITE=u'']) sample_env_config
     = Ret [''SITE=x'', ''PATH=/bin:/site'', ''A=1'']"
  "env_ok sample_env"
  by (simp_all add: shifter_setupenv_def sample_env_def sample_env_config_def empty_UdiRootConfig_def empty_ImageData_def
      sa_empty_def apply_site_settings_def shifter_putenv_def shifter_appendenv_def shifter_unsetenv_def shifter_envsize_def
      putenv_mode_def strchr_split_def shifter_findenv_def var_name_def env_ok_def)

lemma setupenv_layers_witness:
  "getvar [''SITE=x'', ''PATH=/bin:/site'', ''A=1''] =
     site_steps [''SITE=x''] [''PATH=/site''] [] [''LD_PRELOAD'']
       (foldl (put_step ENV_REPLACE) (getvar sample_env) [''A=1'', ''SITE=u''])"
  using setupenv_layers [OF sample_setup(2,1)]
  by (simp add: sample_env_config_def empty_UdiRootConfig_def empty_ImageData_def sa_empty_def envfile_settings_def)

text \<open>
  The site has the last word: whatever the image, the environment file, the user and the modules
  set, a variable the site unsets is in no entry of the result, and a variable the site sets last
  (and neither appends to, prepends to nor unsets) has exactly the site's value.
\<close>

theorem site_environment_wins:
  assumes "env_ok env" "shifter_setupenv eofbuf readf env img envfile user_env cfg = Ret env'"
    and "eofbuf = (\<lambda>b. b) \<or> eofbuf = (\<lambda>b. [])"
  shows "(\<forall>u\<in>set (sa_items (siteEnvUnset cfg)). \<forall>v. var_name u @ CHR ''='' # v \<notin> set env') \<and>
    (\<forall>pre k v post. sa_items (siteEnv cfg) = pre @ (k @ CHR ''='' # v) # post \<and> CHR ''='' \<notin> set k \<and> v \<noteq> [] \<and>
       k \<notin> var_name ` (set post \<union> set (sa_items (siteEnvAppend cfg)) \<union> set (sa_items (siteEnvPrepend cfg)) \<union>
                        set (sa_items (siteEnvUnset cfg))) \<longrightarrow>
       k @ CHR ''='' # v \<in> set env')"
proof -
  from setupenv_map [OF assms] obtain m where
    ok: "env_ok env'" and g: "getvar env' = site_steps (sa_items (siteEnv cfg)) (sa_items (siteEnvAppend cfg))
      (sa_items (siteEnvPrepend cfg)) (sa_items (siteEnvUnset cfg)) m" by blast
  have "\<forall>v. var_name u @ CHR ''='' # v \<notin> set env'" if "u \<in> set (sa_items (siteEnvUnset cfg))" for u
    using that g getvar_in [OF ok var_name_no_eq, of u] by (simp add: site_steps_def unset_steps)
  moreover have "k @ CHR ''='' # v \<in> set env'"
    if "sa_items (siteEnv cfg) = pre @ (k @ CHR ''='' # v) # post" "CHR ''='' \<notin> set k" "v \<noteq> []"
      "k \<notin> var_name ` (set post \<union> set (sa_items (siteEnvAppend cfg)) \<union> set (sa_items (siteEnvPrepend cfg)) \<union>
         set (sa_items (siteEnvUnset cfg)))" for pre k v post
  proof -
    have "put_step ENV_REPLACE n (k @ CHR ''='' # v) k = Some v" for n
      using that(2,3) by (simp add: put_step_def strchr_split_append combine_def split: option.split)
    then have "getvar env' k = Some v"
      using that(1,4) g by (simp add: site_steps_def unset_steps put_steps_other image_Un)
    then show ?thesis using getvar_in [OF ok that(2)] by simp
  qed
  ultimately show ?thesis by blast
qed

lemma site_environment_wins_witness:
  "\<exists>env'. shifter_setupenv (\<lambda>b. b) (\<lambda>f. None) sample_env empty_ImageData None (Some [''A=1'', ''SITE=u'']) sample_env_config = Ret env' \<and>
     ''SITE=x'' \<in> set env' \<and> ''LD_PRELOAD=a.so'' \<notin> set env'"
proof -
  note w = site_environment_wins [OF sample_setup(2,1)]
  have "''SITE'' @ CHR ''='' # ''x'' \<in> set [''SITE=x'', ''PATH=/bin:/site'', ''A=1'']"
    by (rule w [THEN conjunct2, rule_format, of "[]" _ _ "[]"])
       (simp_all add: sample_env_config_def empty_UdiRootConfig_def sa_empty_def var_name_def)
  moreover have "var_name ''LD_PRELOAD'' @ CHR ''='' # ''a.so'' \<notin> set [''SITE=x'', ''PATH=/bin:/site'', ''A=1'']"
    by (rule w [THEN conjunct1, rule_format]) (simp_all add: sample_env_config_def)
  ultimately show ?thesis using sample_setup(1) by (simp add: var_name_def)
qed

text \<open>
  An environment file is accepted exactly when each of its lines is blank, a comment or a setting
  with a value; it then sets its variables in order, later lines replacing earlier ones. The second
  look at the buffer at the end of the file changes nothing.
\<close>

theorem putenv_file_settings:
  assumes "shifter_putenv_file eofbuf (Some inp) env = (r, env')" "eofbuf = (\<lambda>b. b) \<or> eofbuf = (\<lambda>b. [])"
  shows "(r = 0 \<longleftrightarrow> (\<forall>l\<in>set (file_lines inp).
             shifter_trim l = [] \<or> hd (shifter_trim l) = CHR ''#'' \<or> is_setting (shifter_trim l))) \<and>
    (r = 0 \<longrightarrow> getvar env' = foldl (put_step ENV_REPLACE) (getvar env) (file_settings (file_lines inp)))"
  using putenv_file_result [OF assms] by (auto simp: file_settings_def)

lemma putenv_file_settings_witness:
  "getvar (snd (shifter_putenv_file (\<lambda>b. b) (Some (''#c'' @ [NL] @ '' A=1'' @ [NL])) [])) = [''A'' \<mapsto> ''1'']"
proof -
  obtain r e where f: "shifter_putenv_file (\<lambda>b. b) (Some (''#c'' @ [NL] @ '' A=1'' @ [NL])) [] = (r, e)" by fastforce
  have l: "file_lines (''#c'' @ [NL] @ '' A=1'' @ [NL]) = [''#c'' @ [NL], '' A=1'' @ [NL]]"
    by (simp add: special_char_defs)
  have t: "shifter_trim (''#c'' @ [NL]) = ''#c''" "shifter_trim ('' A=1'' @ [NL]) = ''A=1''"
    by (simp_all add: shifter_trim_def special_char_defs char_class_defs)
  have i: "is_setting ''A=1''" by (simp add: is_setting_split strchr_split_def)
  have "r = 0" "getvar e = foldl (put_step ENV_REPLACE) (getvar []) (file_settings [''#c'' @ [NL], '' A=1'' @ [NL]])"
    using putenv_file_settings [OF f] l t i by auto
  then have "getvar e = foldl (put_step ENV_REPLACE) Map.empty [''A=1'']"
    using t by (simp add: file_settings_def)
  also have "\<dots> = [''A'' \<mapsto> ''1'']" by (simp add: put_step_def strchr_split_def combine_def)
  finally show ?thesis using f by simp
qed

text \<open>
  The command of the container: with an entry point (the one given, else the image's) it is the
  entry point followed by the arguments given or, without any and without an entry point given, the
  image's command; without an entry point it is the arguments given, or the shell. The only failure
  for arrays of normal size is an entry point wanted but missing.
\<close>

theorem calculate_args_docker:
  assumes "\<forall>a. clArgs = Some a \<longrightarrow> length a \<le> 1000" "\<forall>a. i_cmd img = Some a \<longrightarrow> length a \<le> 1000"
    and "\<forall>a. i_entryPoint img = Some a \<longrightarrow> length a \<le> 1000"
  shows "calculate_args shell useEntry clArgs clEntry img =
    (let given = (case clArgs of None \<Rightarrow> [] | Some a \<Rightarrow> a);
         cmd = (if given \<noteq> [] then given
                else if clEntry = None then (case i_cmd img of None \<Rightarrow> [] | Some c \<Rightarrow> c) else []);
         entry = (case clEntry of Some e \<Rightarrow> [e] | None \<Rightarrow> (case i_entryPoint img of None \<Rightarrow> [] | Some e \<Rightarrow> e))
     in if useEntry then Ret (if entry = [] then None else Some (entry @ cmd))
        else if clArgs = None then Ret (Some [case shell of None \<Rightarrow> ''/bin/sh'' | Some s \<Rightarrow> s])
        else if given = [] \<and> (i_cmd img = None \<or> clEntry \<noteq> None) then Ret None
        else Ret (Some cmd))"
  using assms
  by (cases clArgs; cases "i_cmd img"; cases clEntry; cases "i_entryPoint img")
     (auto simp: calculate_args_def dup_string_array_def make_string_array_def merge_args_result Let_def)

lemma calculate_args_docker_witness:
  "calculate_args None True (Some [''-l'']) None (empty_ImageData\<lparr>i_entryPoint := Some [''ls'']\<rparr>) = Ret (Some [''ls'', ''-l''])"
  using calculate_args_docker [of "Some [''-l'']" "empty_ImageData\<lparr>i_entryPoint := Some [''ls'']\<rparr>" None True None]
  by (simp add: empty_ImageData_def)

end
