(* ===== verification/PathList.thy ===== *)
theory PathList
  imports CoreMount
begin

text \<open>
  src/src/PathList.c: paths as chains of components with a root that \<open>..\<close> and symbolic links cannot
  leave, and \<open>shifter_realpath\<close> (src/src/shifter_core.c), which resolves a path inside the container.

  The child pointers of a path form a list, which is what the model keeps; a pointer to a component is
  its index. Parent pointers usually lead to the previous component (\<open>Linked\<close>, NULL for the first),
  but two operations leave others behind: one makes a component its own parent (\<open>Itself\<close>), one leaves
  the pointer to a component that has been freed (\<open>Freed\<close>). The root is marked at its component; a
  path whose root pointer is set but marks no component has a dangling root. A use of freed memory
  or of a NULL pointer is the outcome \<open>OutOfBounds\<close>.
\<close>

section \<open>Data\<close>

datatype parent_ptr = Linked | Itself | Freed

record PathComponent =
  pc_item :: cstring
  pc_root :: bool
  pc_parent :: parent_ptr

text \<open>\<open>pl_terminal\<close> is False when the terminal pointer of a path that is not empty is NULL.\<close>

record PathList =
  pl_comps :: "PathComponent list"
  pl_relroot :: bool
  pl_absolute :: bool
  pl_terminal :: bool

definition plain :: "cstring \<Rightarrow> PathComponent" where
  "plain i = \<lparr>pc_item = i, pc_root = False, pc_parent = Linked\<rparr>"

definition pl_items :: "PathList \<Rightarrow> cstring list" where
  "pl_items p = map pc_item (pl_comps p)"

fun set_first_parent :: "parent_ptr \<Rightarrow> PathComponent list \<Rightarrow> PathComponent list" where
  "set_first_parent q [] = []"
| "set_first_parent q (c # cs) = c\<lparr>pc_parent := q\<rparr> # cs"

lemma length_set_first_parent [simp]: "length (set_first_parent q cs) = length cs"
  by (cases cs) simp_all

section \<open>Operations\<close>

text \<open>
  The components in front of the current one, and the current one with its children. When the first
  component goes, its child keeps the pointer to it. A \<open>..\<close> that is its own parent is freed twice; one
  that follows a component that is its own parent leaves the root's child pointer dangling.
\<close>

fun resolve_from :: "PathComponent list \<Rightarrow> PathComponent list \<Rightarrow> PathComponent list outcome" where
  "resolve_from front [] = Ret front"
| "resolve_from front (cur # rest) =
     (if pc_item cur \<noteq> ''..'' then resolve_from (front @ [cur]) rest
      else if front = [] then resolve_from [] (set_first_parent Freed rest)
      else if pc_parent cur \<noteq> Linked then OutOfBounds
      else if pc_root (last front) then resolve_from front (set_first_parent Linked rest)
      else if length front = 1 then resolve_from [] (set_first_parent Linked rest)
      else if pc_parent (last front) \<noteq> Linked then OutOfBounds
      else resolve_from (butlast front) (set_first_parent Linked rest))"

definition pathList_resolve :: "PathList \<Rightarrow> PathList outcome" where
  "pathList_resolve p =
     (if \<not> pl_absolute p then Ret p
      else case resolve_from [] (pl_comps p) of
        Ret cs \<Rightarrow> Ret (p\<lparr>pl_comps := cs\<rparr>)
      | Abort \<Rightarrow> Abort
      | OutOfBounds \<Rightarrow> OutOfBounds)"

text \<open>A fresh chain is resolved without a fault, see \<open>resolve_fresh\<close>.\<close>

definition pathList_init :: "cstring \<Rightarrow> PathList option" where
  "pathList_init path =
     (if path = [] then None
      else
        let items = filter (\<lambda>t. t \<noteq> ''.'') (strtok_all (\<lambda>c. c = CHR ''/'') path)
        in case pathList_resolve \<lparr>pl_comps = map plain items, pl_relroot = False,
                                  pl_absolute = (hd path = CHR ''/''), pl_terminal = True\<rparr> of
             Ret p \<Rightarrow> Some p
           | _ \<Rightarrow> None)"

definition pathList_matchPartial :: "PathList \<Rightarrow> PathList \<Rightarrow> nat option outcome" where
  "pathList_matchPartial fullpath partial =
     (let n = length (pl_comps partial); full = pl_comps fullpath
      in if pl_absolute fullpath \<noteq> pl_absolute partial then Ret None
         else if take n (pl_items fullpath) \<noteq> pl_items partial then Ret None
         else if length full = n then Ret (if n = 0 \<or> \<not> pl_terminal fullpath then None else Some (n - 1))
         else (case pc_parent (full ! n) of
                 Linked \<Rightarrow> Ret (if n = 0 then None else Some (n - 1))
               | Itself \<Rightarrow> Ret (Some n)
               | Freed \<Rightarrow> OutOfBounds))"

definition pathList_setRoot :: "PathList \<Rightarrow> cstring \<Rightarrow> (int \<times> PathList) outcome" where
  "pathList_setRoot path relroot =
     (case pathList_init relroot of
        None \<Rightarrow> Ret (-1, path)
      | Some rp \<Rightarrow>
          if \<not> pl_absolute rp then Ret (-1, path)
          else if pl_comps rp = [] then
            Ret (0, path\<lparr>pl_relroot := False, pl_comps := map (\<lambda>c. c\<lparr>pc_root := False\<rparr>) (pl_comps path)\<rparr>)
          else (case pathList_matchPartial path rp of
            Ret None \<Rightarrow> Ret (-1, path)
          | Ret (Some i) \<Rightarrow>
              Ret (0, path\<lparr>pl_relroot := True,
                           pl_comps := (map (\<lambda>c. c\<lparr>pc_root := False\<rparr>) (pl_comps path))
                                         [i := (pl_comps path ! i)\<lparr>pc_root := True\<rparr>]\<rparr>)
          | Abort \<Rightarrow> Abort
          | OutOfBounds \<Rightarrow> OutOfBounds))"

text \<open>Appending a path without components sets the terminal pointer to NULL.\<close>

definition pathList_append :: "PathList \<Rightarrow> cstring \<Rightarrow> (int \<times> PathList) outcome" where
  "pathList_append base path =
     (case pathList_init path of
        None \<Rightarrow> Ret (-1, base)
      | Some newpath \<Rightarrow>
          let cs = (if pl_comps base \<noteq> [] \<and> pl_terminal base
                    then pl_comps base @ set_first_parent Linked (pl_comps newpath)
                    else pl_comps newpath)
          in case pathList_resolve (base\<lparr>pl_comps := cs, pl_terminal := (pl_comps newpath \<noteq> [])\<rparr>) of
               Ret p \<Rightarrow> Ret (0, p)
             | Abort \<Rightarrow> Abort
             | OutOfBounds \<Rightarrow> OutOfBounds)"

definition pathList_duplicate :: "PathList \<Rightarrow> PathList" where
  "pathList_duplicate src =
     \<lparr>pl_comps = map (\<lambda>c. \<lparr>pc_item = pc_item c, pc_root = (pl_relroot src \<and> pc_root c), pc_parent = Linked\<rparr>) (pl_comps src),
      pl_relroot = (pl_relroot src \<and> (\<exists>c\<in>set (pl_comps src). pc_root c)),
      pl_absolute = pl_absolute src, pl_terminal = True\<rparr>"

text \<open>The component itself stays, what follows is freed; the root pointer is not looked at.\<close>

definition pathList_duplicatePartial :: "PathList \<Rightarrow> nat \<Rightarrow> PathList option" where
  "pathList_duplicatePartial origpath tohere =
     (if tohere < length (pl_comps origpath)
      then Some ((pathList_duplicate origpath)\<lparr>pl_comps := take (tohere + 1) (pl_comps (pathList_duplicate origpath))\<rparr>)
      else None)"

definition pathList_trimLast :: "PathList \<Rightarrow> PathList outcome" where
  "pathList_trimLast path =
     (if pl_comps path = [] \<or> \<not> pl_terminal path then Ret path
      else if pc_parent (last (pl_comps path)) \<noteq> Linked then OutOfBounds
      else Ret (path\<lparr>pl_comps := butlast (pl_comps path)\<rparr>))"

text \<open>
  The target of a link replaces what follows its parent: the root for an absolute target, the last
  component otherwise. A target without components leaves a NULL child, which the code then writes to.
\<close>

definition pathList_symlinkResolve :: "PathList \<Rightarrow> cstring \<Rightarrow> PathList option outcome" where
  "pathList_symlinkResolve base target =
     (let newpath = pathList_duplicate base; cs = pl_comps newpath
      in case pathList_init target of
        None \<Rightarrow> Ret None
      | Some symlink \<Rightarrow>
          if \<not> pl_absolute newpath then Ret None
          else
            let parent = (if pl_absolute symlink
                          then (if pl_relroot newpath then Some (length (takeWhile (\<lambda>c. \<not> pc_root c) cs)) else None)
                          else (if cs = [] then None else Some (length cs - 1)));
                placed = (case parent of
                    None \<Rightarrow> Ret (newpath\<lparr>pl_comps := pl_comps symlink, pl_relroot := False\<rparr>)
                  | Some i \<Rightarrow>
                      if pl_comps symlink = [] then OutOfBounds
                      else Ret (newpath\<lparr>pl_comps := take (i + 1) cs @
                             set_first_parent (if pc_root (cs ! i) then Itself else Linked) (pl_comps symlink)\<rparr>))
            in case placed of
                 Ret p \<Rightarrow> (case pathList_resolve p of Ret q \<Rightarrow> Ret (Some q) | Abort \<Rightarrow> Abort | OutOfBounds \<Rightarrow> OutOfBounds)
               | Abort \<Rightarrow> Abort
               | OutOfBounds \<Rightarrow> OutOfBounds)"

fun common_from :: "PathComponent list \<Rightarrow> PathComponent list \<Rightarrow> PathComponent list option" where
  "common_from (a # as) (b # bs) =
     (if pc_item a \<noteq> pc_item b then Some []
      else if pc_root a \<noteq> pc_root b then None
      else map_option (\<lambda>cs. \<lparr>pc_item = pc_item a, pc_root = pc_root a, pc_parent = Linked\<rparr> # cs) (common_from as bs))"
| "common_from _ _ = Some []"

definition pathList_commonPath :: "PathList \<Rightarrow> PathList \<Rightarrow> PathList option" where
  "pathList_commonPath a b =
     (if pl_absolute a \<noteq> pl_absolute b \<or> pl_relroot a \<noteq> pl_relroot b then None
      else case common_from (pl_comps a) (pl_comps b) of
        None \<Rightarrow> None
      | Some cs \<Rightarrow> Some \<lparr>pl_comps = cs, pl_relroot = (\<exists>c\<in>set cs. pc_root c),
                          pl_absolute = pl_absolute a, pl_terminal = True\<rparr>)"

text \<open>The index of the first copy, and the longer path.\<close>

definition pathList_appendComponents :: "PathList \<Rightarrow> PathList \<Rightarrow> nat \<Rightarrow> (nat \<times> PathList) option" where
  "pathList_appendComponents dest src cmp =
     (if cmp < length (pl_comps src)
      then Some (length (pl_comps dest),
                 dest\<lparr>pl_comps := pl_comps dest @ map plain (drop cmp (pl_items src))\<rparr>)
      else None)"

fun string_comps :: "bool \<Rightarrow> nat \<Rightarrow> cstring list \<Rightarrow> cstring option" where
  "string_comps absolute used [] = Some []"
| "string_comps absolute used (i # is) =
     (if PATH_MAX \<le> used + length i + 2 then None
      else let s = (if absolute then ''/'' else []) @ i
           in map_option (\<lambda>r. s @ r) (string_comps absolute (used + length s) is))"

definition pathList_stringPartial :: "PathList \<Rightarrow> nat option \<Rightarrow> cstring option" where
  "pathList_stringPartial path pos =
     (if pl_comps path = [] then Some (if pl_absolute path then ''/'' else [])
      else case pos of
        None \<Rightarrow> None
      | Some i \<Rightarrow> string_comps (pl_absolute path) 0 (take (i + 1) (pl_items path)))"

definition pathList_string :: "PathList \<Rightarrow> cstring option" where
  "pathList_string path =
     pathList_stringPartial path (if pl_terminal path then Some (length (pl_comps path) - 1) else None)"

section \<open>Substituting a symbolic link\<close>

text \<open>
  The components that the link path shares with the path of the link have been checked; the result
  is the first one that has not, or the last common one when there is none.
\<close>

definition substitute_into ::
  "PathList \<Rightarrow> nat \<Rightarrow> PathList \<Rightarrow> PathList \<Rightarrow> nat option \<Rightarrow> (PathList \<times> nat) option outcome" where
  "substitute_into path link linkPath commonPath matched =
     (let perfectMatch = (case matched of None \<Rightarrow> False | Some u \<Rightarrow> \<not> u + 1 < length (pl_comps linkPath));
          start = (case matched of None \<Rightarrow> 0 | Some u \<Rightarrow> u + 1);
          added = (if perfectMatch
                   then (if pl_comps commonPath = [] then OutOfBounds else Ret (Some (length (pl_comps commonPath) - 1, commonPath)))
                   else Ret (pathList_appendComponents commonPath linkPath start))
      in case added of
           Ret None \<Rightarrow> Ret None
         | Ret (Some (unchecked, cp)) \<Rightarrow>
             let cp' = (if link + 1 < length (pl_comps path)
                        then (case pathList_appendComponents cp path (link + 1) of None \<Rightarrow> cp | Some (i, c) \<Rightarrow> c)
                        else cp);
                 un = (if perfectMatch \<and> unchecked + 1 < length (pl_comps cp') then unchecked + 1 else unchecked)
             in Ret (Some (path\<lparr>pl_comps := pl_comps cp', pl_terminal := True, pl_relroot := pl_relroot cp'\<rparr>, un))
         | Abort \<Rightarrow> Abort
         | OutOfBounds \<Rightarrow> OutOfBounds)"

definition pathList_symlinkSubstitute :: "PathList \<Rightarrow> nat \<Rightarrow> cstring \<Rightarrow> (PathList \<times> nat) option outcome" where
  "pathList_symlinkSubstitute path link linkVal =
     (case pathList_duplicatePartial path link of
        None \<Rightarrow> Ret None
      | Some origLinkPath \<Rightarrow>
          (case pathList_trimLast (pathList_duplicate origLinkPath) of
             Ret linkParent \<Rightarrow>
               (case pathList_symlinkResolve linkParent linkVal of
                  Ret None \<Rightarrow> Ret None
                | Ret (Some linkPath) \<Rightarrow>
                    (case pathList_commonPath origLinkPath linkPath of
                       None \<Rightarrow> Ret None
                     | Some commonPath \<Rightarrow>
                         (case pathList_matchPartial linkPath commonPath of
                            Ret matched \<Rightarrow> substitute_into path link linkPath commonPath matched
                          | Abort \<Rightarrow> Abort
                          | OutOfBounds \<Rightarrow> OutOfBounds))
                | Abort \<Rightarrow> Abort
                | OutOfBounds \<Rightarrow> OutOfBounds)
           | Abort \<Rightarrow> Abort
           | OutOfBounds \<Rightarrow> OutOfBounds))"

section \<open>The real path inside the container\<close>

text \<open>
  The loop over the components. It need not end (a link can lead back to itself), so it takes fuel:
  None is a loop that has not ended after that many rounds.
\<close>

fun realpath_loop :: "nat \<Rightarrow> PathList \<Rightarrow> nat option \<Rightarrow> PathList option outcome option sys" where
  "realpath_loop fuel searchPath None = yield (Some (Ret (Some searchPath)))"
| "realpath_loop 0 searchPath (Some p) = yield None"
| "realpath_loop (Suc n) searchPath (Some p) =
     (case pathList_stringPartial searchPath (Some p) of
        None \<Rightarrow> yield (Some (Ret None))
      | Some currPath \<Rightarrow> do {
          st \<leftarrow> syscall (Lstat currPath);
          if r_rc st \<noteq> 0 then yield (Some (Ret None))
          else if st_kind (r_stat st) = KSymlink then do {
            l \<leftarrow> syscall (Readlink currPath);
            (case r_text l of
               None \<Rightarrow> yield (Some (Ret None))
             | Some buffer \<Rightarrow>
                 if PATH_MAX \<le> length buffer then yield (Some (Ret None))
                 else (case pathList_symlinkSubstitute searchPath p buffer of
                         Ret None \<Rightarrow> yield (Some (Ret None))
                       | Ret (Some (sp, q)) \<Rightarrow> realpath_loop n sp (Some q)
                       | Abort \<Rightarrow> yield (Some Abort)
                       | OutOfBounds \<Rightarrow> yield (Some OutOfBounds)))
          }
          else realpath_loop n searchPath (if p + 1 < length (pl_comps searchPath) then Some (p + 1) else None)
        })"

text \<open>The path to search: the mount point as root, with the requested path appended.\<close>

definition realpath_search :: "cstring \<Rightarrow> cstring \<Rightarrow> PathList option outcome" where
  "realpath_search mount src_path =
     (case pathList_init mount of
        None \<Rightarrow> Ret None
      | Some base \<Rightarrow>
          (case pathList_setRoot base mount of
             Ret (rc, rooted) \<Rightarrow>
               if rc \<noteq> 0 then Ret None
               else (case pathList_append (pathList_duplicate rooted) src_path of
                       Ret (rc', sp) \<Rightarrow> Ret (if rc' \<noteq> 0 \<or> \<not> pl_relroot sp then None else Some sp)
                     | Abort \<Rightarrow> Abort
                     | OutOfBounds \<Rightarrow> OutOfBounds)
           | Abort \<Rightarrow> Abort
           | OutOfBounds \<Rightarrow> OutOfBounds))"

definition shifter_realpath :: "nat \<Rightarrow> cstring \<Rightarrow> UdiRootConfig \<Rightarrow> cstring option outcome option sys" where
  "shifter_realpath fuel src_path config =
     (case udiMountPoint config of
        None \<Rightarrow> yield (Some (Ret None))
      | Some mount \<Rightarrow>
          (case realpath_search mount src_path of
             Ret None \<Rightarrow> yield (Some (Ret None))
           | Ret (Some searchPath) \<Rightarrow> do {
               r \<leftarrow> realpath_loop fuel searchPath (if pl_comps searchPath = [] then None else Some 0);
               yield (case r of
                   None \<Rightarrow> None
                 | Some (Ret None) \<Rightarrow> Some (Ret None)
                 | Some (Ret (Some sp)) \<Rightarrow> Some (Ret (pathList_string sp))
                 | Some Abort \<Rightarrow> Some Abort
                 | Some OutOfBounds \<Rightarrow> Some OutOfBounds)
             }
           | Abort \<Rightarrow> yield (Some Abort)
           | OutOfBounds \<Rightarrow> yield (Some OutOfBounds)))"

section \<open>Resolution and its reference\<close>

text \<open>The reference: an entry drops the one before it when it is \<open>..\<close>, and is added otherwise.\<close>

definition step_entry :: "cstring list \<Rightarrow> cstring \<Rightarrow> cstring list" where
  "step_entry acc c = (if c = ''..'' then butlast acc else acc @ [c])"

lemma step_entry_cases: "step_entry acc ''..'' = butlast acc" "c \<noteq> ''..'' \<Longrightarrow> step_entry acc c = acc @ [c]"
  by (simp_all add: step_entry_def)

definition normal_entries :: "cstring list \<Rightarrow> cstring list" where
  "normal_entries = foldl step_entry []"

definition path_entries :: "cstring \<Rightarrow> cstring list" where
  "path_entries path = filter (\<lambda>t. t \<noteq> ''.'') (strtok_all (\<lambda>c. c = CHR ''/'') path)"

lemma no_dotdot_steps: "''..'' \<notin> set ys \<Longrightarrow> foldl step_entry acc ys = acc @ ys"
  by (induction ys arbitrary: acc) (auto simp: step_entry_def)

lemma steps_no_dotdot: "''..'' \<notin> set acc \<Longrightarrow> ''..'' \<notin> set (foldl step_entry acc ys)"
  by (induction ys arbitrary: acc) (auto simp: step_entry_def dest: in_set_butlastD)

lemma steps_subset: "set (foldl step_entry acc ys) \<subseteq> set acc \<union> set ys"
proof (induction ys arbitrary: acc)
  case (Cons y ys)
  have "set (step_entry acc y) \<subseteq> set acc \<union> {y}" by (auto simp: step_entry_def dest: in_set_butlastD)
  with Cons.IH [of "step_entry acc y"] show ?case by auto
qed simp

text \<open>A chain below a root: the components of the root, its last one marked, and further ones.\<close>

definition root_comp :: "cstring \<Rightarrow> PathComponent" where
  "root_comp i = \<lparr>pc_item = i, pc_root = True, pc_parent = Linked\<rparr>"

definition chain :: "cstring list \<Rightarrow> cstring list \<Rightarrow> PathComponent list" where
  "chain R xs = map plain (butlast R) @ root_comp (last R) # map plain xs"

definition rooted :: "cstring list \<Rightarrow> cstring list \<Rightarrow> bool \<Rightarrow> PathList" where
  "rooted R xs t = \<lparr>pl_comps = chain R xs, pl_relroot = True, pl_absolute = True, pl_terminal = t\<rparr>"

lemma plain_sel [simp]: "pc_item (plain i) = i" "pc_root (plain i) = False" "pc_parent (plain i) = Linked"
  by (simp_all add: plain_def)

lemma root_comp_sel [simp]: "pc_item (root_comp i) = i" "pc_root (root_comp i) = True" "pc_parent (root_comp i) = Linked"
  by (simp_all add: root_comp_def)

lemma plain_items [simp]: "map (\<lambda>c. pc_item c) (map plain xs) = xs" "pc_item \<circ> plain = (\<lambda>x. x)" "pc_root \<circ> plain = (\<lambda>x. False)"
  by (auto simp: comp_def)

lemma length_chain [simp]: "R \<noteq> [] \<Longrightarrow> length (chain R xs) = length R + length xs"
  by (simp add: chain_def)

lemma chain_items [simp]: "R \<noteq> [] \<Longrightarrow> map pc_item (chain R xs) = R @ xs"
  by (simp add: chain_def)

lemma chain_not_Nil [simp]: "chain R xs \<noteq> []"
  by (simp add: chain_def)

lemma chain_snoc: "chain R (xs @ [x]) = chain R xs @ [plain x]"
  by (simp add: chain_def)

lemma chain_append: "chain R (xs @ ys) = chain R xs @ map plain ys"
  by (simp add: chain_def)

lemma last_chain: "last (chain R xs) = (if xs = [] then root_comp (last R) else plain (last xs))"
  by (simp add: chain_def last_map)

lemma butlast_chain: "xs \<noteq> [] \<Longrightarrow> butlast (chain R xs) = chain R (butlast xs)"
  by (simp add: chain_def butlast_append map_butlast)

lemma chain_split: "chain R xs = chain R [] @ map plain xs"
  using chain_append [of R "[]" xs] by simp

lemma take_chain: "R \<noteq> [] \<Longrightarrow> take (length R + n) (chain R xs) = chain R (take n xs)"
  by (subst (1 2) chain_split) (simp add: take_map)

lemma nth_chain:
  assumes "R \<noteq> []"
  shows "i < length xs \<Longrightarrow> chain R xs ! (length R + i) = plain (xs ! i)"
    and "chain R xs ! (length R - 1) = root_comp (last R)"
  using assms by (subst chain_split, simp add: nth_append) (simp add: chain_def nth_append)

lemma chain_roots: "takeWhile (\<lambda>c. \<not> pc_root c) (chain R xs) = map plain (butlast R)"
  by (simp add: chain_def takeWhile_append)

lemma set_first_parent_plain [simp]: "set_first_parent Linked (map plain xs) = map plain xs"
  by (cases xs) (simp_all add: plain_def)

lemma chain_linked: "map (\<lambda>c. \<lparr>pc_item = pc_item c, pc_root = pc_root c, pc_parent = Linked\<rparr>) (chain R xs) = chain R xs"
  by (simp add: chain_def plain_def root_comp_def)

lemma resolve_chain:
  "R \<noteq> [] \<Longrightarrow> resolve_from (chain R acc) (map plain ys) = Ret (chain R (foldl step_entry acc ys))"
proof (induction ys arbitrary: acc)
  case (Cons y ys)
  show ?case
  proof (cases "y = ''..''")
    case True
    show ?thesis
    proof (cases "acc = []")
      case True
      then show ?thesis using Cons \<open>y = ''..''\<close> by (simp add: last_chain step_entry_def)
    next
      case False
      then have "length (chain R acc) \<noteq> 1" using Cons.prems by (cases R; cases acc) auto
      then show ?thesis using Cons False \<open>y = ''..''\<close> by (simp add: last_chain step_entry_def butlast_chain)
    qed
  next
    case False
    then show ?thesis using Cons by (simp add: step_entry_def chain_snoc [symmetric])
  qed
qed simp

text \<open>Without a root mark the first components go as well; no fault is possible in a fresh chain.\<close>

lemma in_tl: "c \<in> set (tl xs) \<Longrightarrow> c \<in> set xs"
  by (cases xs) auto

lemma plain_tl: "c \<in> set (tl (map plain xs)) \<Longrightarrow> pc_parent c = Linked"
  by (drule in_tl) auto

lemma resolve_free:
  assumes "\<forall>c\<in>set cs. \<not> pc_root c" "\<forall>c\<in>set (tl cs). pc_parent c = Linked"
    and "\<forall>c\<in>set front. \<not> pc_root c" "\<forall>c\<in>set (tl front). pc_parent c = Linked" "front \<noteq> [] \<longrightarrow> (\<forall>c\<in>set cs. pc_parent c = Linked)"
  shows "\<exists>ds. resolve_from front cs = Ret ds \<and> map pc_item ds = foldl step_entry (map pc_item front) (map pc_item cs) \<and>
    (\<forall>c\<in>set ds. \<not> pc_root c) \<and> (\<forall>c\<in>set (tl ds). pc_parent c = Linked)"
  using assms
proof (induction front cs rule: resolve_from.induct)
  case (2 front cur rest)
  show ?case
  proof (cases "pc_item cur = ''..''")
    case False
    have "\<exists>ds. resolve_from (front @ [cur]) rest = Ret ds \<and>
        map pc_item ds = foldl step_entry (map pc_item (front @ [cur])) (map pc_item rest) \<and>
        (\<forall>c\<in>set ds. \<not> pc_root c) \<and> (\<forall>c\<in>set (tl ds). pc_parent c = Linked)"
      by (rule "2.IH") (use False "2.prems" in \<open>auto simp: tl_append dest: in_tl split: list.splits\<close>)
    with False show ?thesis by (auto simp: step_entry_cases)
  next
    case True
    have tl: "set_first_parent q rest = (case rest of [] \<Rightarrow> [] | c # cs \<Rightarrow> c\<lparr>pc_parent := q\<rparr> # cs)" for q
      by (cases rest) simp_all
    have items: "map pc_item (set_first_parent q rest) = map pc_item rest" for q by (cases rest) simp_all
    have roots: "\<forall>c\<in>set (set_first_parent q rest). \<not> pc_root c" for q using "2.prems"(1) by (cases rest) auto
    have tls: "\<forall>c\<in>set (tl (set_first_parent q rest)). pc_parent c = Linked" for q using "2.prems"(2) by (cases rest) auto
    have lk: "\<forall>c\<in>set (set_first_parent Linked rest). pc_parent c = Linked" using "2.prems"(2) by (cases rest) auto
    show ?thesis
    proof (cases "front = []")
      case f: True
      have "\<exists>ds. resolve_from [] (set_first_parent Freed rest) = Ret ds \<and>
          map pc_item ds = foldl step_entry (map pc_item ([] :: PathComponent list)) (map pc_item (set_first_parent Freed rest)) \<and>
          (\<forall>c\<in>set ds. \<not> pc_root c) \<and> (\<forall>c\<in>set (tl ds). pc_parent c = Linked)"
        by (rule "2.IH") (use True f roots tls in auto)
      with True f items show ?thesis by (auto simp: step_entry_cases)
    next
      case ne: False
      then have cl: "pc_parent cur = Linked" and nr: "\<not> pc_root (last front)" using "2.prems" by auto
      show ?thesis
      proof (cases "length front = 1")
        case one: True
        have "\<exists>ds. resolve_from [] (set_first_parent Linked rest) = Ret ds \<and>
            map pc_item ds = foldl step_entry (map pc_item ([] :: PathComponent list)) (map pc_item (set_first_parent Linked rest)) \<and>
            (\<forall>c\<in>set ds. \<not> pc_root c) \<and> (\<forall>c\<in>set (tl ds). pc_parent c = Linked)"
          by (rule "2.IH") (use True ne cl nr one roots tls in auto)
        moreover have "butlast (map pc_item front) = []" using one by (cases front) auto
        ultimately show ?thesis using True ne cl nr one items by (auto simp: step_entry_cases)
      next
        case more: False
        then obtain a b fs where fr: "front = a # b # fs" using ne by (cases front; cases "tl front") auto
        then have "last front \<in> set (tl front)" by simp
        then have pl: "pc_parent (last front) = Linked" using "2.prems"(4) by blast
        have "\<exists>ds. resolve_from (butlast front) (set_first_parent Linked rest) = Ret ds \<and>
            map pc_item ds = foldl step_entry (map pc_item (butlast front)) (map pc_item (set_first_parent Linked rest)) \<and>
            (\<forall>c\<in>set ds. \<not> pc_root c) \<and> (\<forall>c\<in>set (tl ds). pc_parent c = Linked)"
          by (rule "2.IH")
             (use True ne cl nr more pl roots tls lk "2.prems" in \<open>auto dest: in_set_butlastD simp: butlast_tl [symmetric]\<close>)
        with True ne cl nr more pl items show ?thesis by (auto simp: step_entry_cases map_butlast)
      qed
    qed
  qed
qed auto

lemma resolve_fresh:
  "\<exists>ds. resolve_from [] (map plain xs) = Ret ds \<and> map pc_item ds = normal_entries xs \<and>
     (\<forall>c\<in>set ds. \<not> pc_root c) \<and> (\<forall>c\<in>set (tl ds). pc_parent c = Linked)"
proof -
  have "\<forall>c\<in>set (tl (map plain xs)). pc_parent c = Linked" by (cases xs) auto
  then show ?thesis using resolve_free [of "map plain xs" "[]"] by (auto simp: normal_entries_def)
qed

lemma pathList_init_Some:
  assumes "path \<noteq> []"
  shows "\<exists>p. pathList_init path = Some p \<and>
    pl_items p = (if hd path = CHR ''/'' then normal_entries (path_entries path) else path_entries path) \<and>
    pl_absolute p = (hd path = CHR ''/'') \<and> \<not> pl_relroot p \<and> pl_terminal p \<and>
    (\<forall>c\<in>set (pl_comps p). \<not> pc_root c) \<and> (\<forall>c\<in>set (tl (pl_comps p)). pc_parent c = Linked) \<and>
    (hd path \<noteq> CHR ''/'' \<longrightarrow> pl_comps p = map plain (path_entries path))"
  using resolve_fresh [of "path_entries path"] assms
  by (auto simp: pathList_init_def pathList_resolve_def path_entries_def pl_items_def dest: plain_tl)

lemma pathList_init_None [simp]: "pathList_init [] = None"
  by (simp add: pathList_init_def)

lemma comps_eq_plain:
  "\<forall>c\<in>set cs. \<not> pc_root c \<Longrightarrow> \<forall>c\<in>set (tl cs). pc_parent c = Linked \<Longrightarrow>
     set_first_parent q cs = set_first_parent q (map plain (map pc_item cs))"
  by (cases cs) (auto simp: plain_def intro!: nth_equalityI)

section \<open>Links below a root\<close>

text \<open>A path below a root whose first component may be its own parent.\<close>

definition linked_path :: "cstring list \<Rightarrow> parent_ptr \<Rightarrow> cstring list \<Rightarrow> PathList" where
  "linked_path R q ws =
     \<lparr>pl_comps = chain R [] @ set_first_parent q (map plain ws), pl_relroot = True, pl_absolute = True, pl_terminal = True\<rparr>"

fun common_prefix :: "cstring list \<Rightarrow> cstring list \<Rightarrow> cstring list" where
  "common_prefix (x # xs) (y # ys) = (if x = y then x # common_prefix xs ys else [])"
| "common_prefix _ _ = []"

lemma common_prefix_take: "common_prefix xs ys = take (length (common_prefix xs ys)) ys"
  by (induction xs ys rule: common_prefix.induct) auto

lemma common_prefix_length: "length (common_prefix xs ys) \<le> length ys"
  by (induction xs ys rule: common_prefix.induct) auto

lemma common_prefix_Nil: "common_prefix xs ys = [] \<longleftrightarrow> xs = [] \<or> ys = [] \<or> hd xs \<noteq> hd ys"
  by (cases "(xs, ys)" rule: common_prefix.cases) auto

lemma linked_path_Linked [simp]: "linked_path R Linked ws = rooted R ws True"
  using chain_split [of R ws] by (simp add: linked_path_def rooted_def)

lemma linked_path_sel [simp]:
  "pl_relroot (linked_path R q ws)" "pl_absolute (linked_path R q ws)" "pl_terminal (linked_path R q ws)"
  by (simp_all add: linked_path_def)

lemma map_set_first_parent: "map pc_item (set_first_parent q cs) = map pc_item cs"
  by (cases cs) simp_all

lemma linked_path_items [simp]: "R \<noteq> [] \<Longrightarrow> pl_items (linked_path R q ws) = R @ ws"
  by (simp add: pl_items_def linked_path_def map_set_first_parent)

lemma linked_path_length [simp]: "R \<noteq> [] \<Longrightarrow> length (pl_comps (linked_path R q ws)) = length R + length ws"
  by (simp add: linked_path_def)

lemma rooted_sel [simp]:
  "pl_comps (rooted R xs t) = chain R xs" "pl_relroot (rooted R xs t)" "pl_absolute (rooted R xs t)" "pl_terminal (rooted R xs t) = t"
  by (simp_all add: rooted_def)

lemma rooted_update: "(rooted R xs t)\<lparr>pl_comps := cs\<rparr> =
    \<lparr>pl_comps = cs, pl_relroot = True, pl_absolute = True, pl_terminal = t\<rparr>"
  by (simp add: rooted_def)

lemma rooted_update2: "(rooted R xs t)\<lparr>pl_comps := cs, pl_terminal := u\<rparr> =
    \<lparr>pl_comps = cs, pl_relroot = True, pl_absolute = True, pl_terminal = u\<rparr>"
  by (simp add: rooted_def)

lemma chain_any_root [simp]: "\<exists>c\<in>set (chain R xs). pc_root c"
  by (simp add: chain_def)

lemma duplicate_rooted [simp]: "pathList_duplicate (rooted R xs t) = rooted R xs True"
  using chain_linked [of R xs] chain_any_root [of R xs] by (simp add: pathList_duplicate_def rooted_def)

lemma resolve_skip:
  "\<forall>c\<in>set as. pc_item c \<noteq> ''..'' \<Longrightarrow> resolve_from front (as @ bs) = resolve_from (front @ as) bs"
  by (induction as arbitrary: front) auto

lemma chain_no_dotdot:
  assumes "R \<noteq> []" "''..'' \<notin> set R" "''..'' \<notin> set xs"
  shows "\<forall>c\<in>set (chain R xs). pc_item c \<noteq> ''..''"
proof -
  have "''..'' \<notin> set (map pc_item (chain R xs))" using assms by simp
  then show ?thesis by (metis image_eqI list.set_map)
qed

lemma resolve_itself:
  assumes "R \<noteq> []"
  shows "resolve_from (chain R [] @ (plain v)\<lparr>pc_parent := Itself\<rparr> # map plain acc) (map plain ys) = Ret cs \<Longrightarrow>
    cs = chain R [] @ (plain v)\<lparr>pc_parent := Itself\<rparr> # map plain (foldl step_entry acc ys)"
proof (induction ys arbitrary: acc)
  case (Cons y ys)
  let ?f = "chain R [] @ (plain v)\<lparr>pc_parent := Itself\<rparr> # map plain acc"
  have len: "length ?f \<noteq> 1" "?f \<noteq> []" using assms by (cases R; simp)+
  show ?case
  proof (cases "y = ''..''")
    case True
    have "acc \<noteq> []" using Cons.prems True len by (cases acc) auto
    then have l: "last ?f = plain (last acc)" "butlast ?f = chain R [] @ (plain v)\<lparr>pc_parent := Itself\<rparr> # map plain (butlast acc)"
      by (simp_all add: last_map butlast_append map_butlast)
    then show ?thesis using Cons.IH [of "butlast acc"] Cons.prems True len
      by (simp add: step_entry_cases)
  next
    case False
    then show ?thesis using Cons.IH [of "acc @ [y]"] Cons.prems by (simp add: step_entry_cases)
  qed
qed simp

text \<open>Where the link is taken from, and what its target leads to.\<close>

lemma symlinkResolve_relative:
  assumes "R \<noteq> []" "''..'' \<notin> set R" "''..'' \<notin> set ys" "ys \<noteq> []"
    and "target \<noteq> []" "hd target \<noteq> CHR ''/''" "path_entries target \<noteq> []"
  shows "pathList_symlinkResolve (rooted R ys t) target = Ret (Some (rooted R (foldl step_entry ys (path_entries target)) True))"
proof -
  from pathList_init_Some [OF assms(5)] assms(6) obtain p where
    p: "pathList_init target = Some p" "\<not> pl_absolute p" "pl_comps p = map plain (path_entries target)" by auto
  have nr: "chain R ys ! (length R + length ys - 1) = plain (last ys)"
  proof -
    have "length R + length ys - 1 = length R + (length ys - 1)" using assms(4) by (cases ys) simp_all
    then show ?thesis using nth_chain(1) [OF assms(1), of "length ys - 1" ys] assms(4) by (simp add: last_conv_nth)
  qed
  have "resolve_from [] (chain R ys @ map plain (path_entries target)) = Ret (chain R (foldl step_entry ys (path_entries target)))"
    using resolve_skip [OF chain_no_dotdot [OF assms(1-3)], of "[]"] resolve_chain [OF assms(1)] by simp
  then show ?thesis
    using p nr assms(1,4,7)
    by (simp add: pathList_symlinkResolve_def Let_def pathList_resolve_def rooted_update rooted_def [symmetric])
qed

lemma symlinkResolve_at_root:
  assumes "R \<noteq> []" "''..'' \<notin> set R" "''..'' \<notin> set ys" "ys = [] \<or> hd target = CHR ''/''"
    and "pathList_symlinkResolve (rooted R ys t) target = Ret (Some lp)"
  shows "\<exists>ws. lp = linked_path R Itself ws \<and> ws \<noteq> [] \<and> ''..'' \<notin> set ws \<and>
    (hd target = CHR ''/'' \<longrightarrow> ws = normal_entries (path_entries target))"
proof -
  have ne: "target \<noteq> []" using assms(5) by (auto simp: pathList_symlinkResolve_def Let_def)
  from pathList_init_Some [OF this] obtain p where
    p: "pathList_init target = Some p" "pl_absolute p = (hd target = CHR ''/'')"
      "\<forall>c\<in>set (pl_comps p). \<not> pc_root c" "\<forall>c\<in>set (tl (pl_comps p)). pc_parent c = Linked"
      "pl_items p = (if hd target = CHR ''/'' then normal_entries (path_entries target) else path_entries target)" by auto
  define vs where "vs = pl_items p"
  have first: "set_first_parent Itself (pl_comps p) = set_first_parent Itself (map plain vs)"
    using comps_eq_plain [OF p(3,4)] by (simp add: vs_def pl_items_def)
  have i: "length R + length ys - 1 = length R - 1" if "ys = []" using that by simp
  have ne2: "pl_comps p \<noteq> []" using assms(4,5) p(1,2) assms(1)
    by (auto simp: pathList_symlinkResolve_def Let_def chain_roots split: if_splits)
  have tk: "take (length R) (chain R ys) = chain R []" using take_chain [OF assms(1), of 0 ys] by simp
  have "pathList_resolve \<lparr>pl_comps = chain R [] @ set_first_parent Itself (map plain vs), pl_relroot = True,
      pl_absolute = True, pl_terminal = True\<rparr> = Ret lp"
  proof -
    have "length (takeWhile (\<lambda>c. \<not> pc_root c) (chain R ys)) = length R - 1" using assms(1) by (simp add: chain_roots)
    moreover have "Suc (length R - 1) = length R" using assms(1) by simp
    moreover have "chain R ys ! (length R - 1) = root_comp (last R)" using nth_chain(2) [OF assms(1)] .
    ultimately show ?thesis
      using assms(1,4,5) p(1,2) first ne2 tk
      by (auto simp: pathList_symlinkResolve_def Let_def rooted_update split: outcome.splits)
  qed
  then obtain cs where cs: "resolve_from [] (chain R [] @ set_first_parent Itself (map plain vs)) = Ret cs"
    "lp = \<lparr>pl_comps = cs, pl_relroot = True, pl_absolute = True, pl_terminal = True\<rparr>"
    by (auto simp: pathList_resolve_def split: outcome.splits)
  have "vs \<noteq> []" using ne2 by (simp add: vs_def pl_items_def)
  then obtain v vs' where v: "vs = v # vs'" by (cases vs) simp_all
  have r: "resolve_from (chain R []) ((plain v)\<lparr>pc_parent := Itself\<rparr> # map plain vs') = Ret cs"
    using cs(1) resolve_skip [OF chain_no_dotdot [OF assms(1,2), of "[]"], of "[]"] v by simp
  have nd: "v \<noteq> ''..''" using r by (auto split: if_splits)
  then have "cs = chain R [] @ (plain v)\<lparr>pc_parent := Itself\<rparr> # map plain (foldl step_entry [] vs')"
    using r resolve_itself [OF assms(1), of v "[]" vs' cs] by simp
  then have lp: "lp = linked_path R Itself (v # foldl step_entry [] vs')"
    using cs(2) by (simp add: linked_path_def)
  moreover have "''..'' \<notin> set (v # foldl step_entry [] vs')" using nd steps_no_dotdot [of "[]" vs'] by simp
  moreover have "v # foldl step_entry [] vs' = normal_entries (path_entries target)" if "hd target = CHR ''/''"
  proof -
    have "v # vs' = normal_entries (path_entries target)" using that p(5) v by (simp add: vs_def)
    moreover from this have "''..'' \<notin> set (v # vs')" using steps_no_dotdot [of "[]"] by (metis empty_iff list.set(1) normal_entries_def)
    then have "''..'' \<notin> set vs'" by simp
    ultimately show ?thesis using no_dotdot_steps [of vs' "[]"] by simp
  qed
  ultimately show ?thesis by blast
qed

text \<open>In both cases the target leads to a path below the root.\<close>

lemma symlinkResolve_below:
  assumes "R \<noteq> []" "''..'' \<notin> set R" "''..'' \<notin> set ys"
    and "pathList_symlinkResolve (rooted R ys t) target = Ret (Some lp)"
  shows "\<exists>q ws. lp = linked_path R q ws \<and> ''..'' \<notin> set ws \<and> q \<noteq> Freed"
proof (cases "ys = [] \<or> hd target = CHR ''/''")
  case True
  then show ?thesis using symlinkResolve_at_root [OF assms(1-3) True assms(4)] by blast
next
  case False
  have ne: "target \<noteq> []" using assms(4) by (auto simp: pathList_symlinkResolve_def Let_def)
  from pathList_init_Some [OF this] False obtain p where
    p: "pathList_init target = Some p" "\<not> pl_absolute p" "pl_comps p = map plain (path_entries target)" by auto
  then have "path_entries target \<noteq> []" using False assms(4)
    by (auto simp: pathList_symlinkResolve_def Let_def)
  from symlinkResolve_relative [OF assms(1-3) _ ne _ this] False assms(4)
  have "lp = rooted R (foldl step_entry ys (path_entries target)) True" by simp
  then show ?thesis using steps_no_dotdot [OF assms(3)] linked_path_Linked [of R] by (metis parent_ptr.distinct(3))
qed

section \<open>Substitution below a root\<close>

lemma duplicatePartial_rooted:
  assumes "R \<noteq> []" "i < length xs"
  shows "pathList_duplicatePartial (rooted R xs t) (length R + i) = Some (rooted R (take (i + 1) xs) True)"
  using assms take_chain [OF assms(1), of "i + 1" xs]
  by (simp add: pathList_duplicatePartial_def rooted_update rooted_def [symmetric])

lemma trimLast_rooted:
  assumes "xs \<noteq> []"
  shows "pathList_trimLast (rooted R xs True) = Ret (rooted R (butlast xs) True)"
  using assms by (simp add: pathList_trimLast_def last_chain rooted_update butlast_chain rooted_def [symmetric])

lemma common_from_plain: "common_from (map plain as) (set_first_parent q (map plain ws)) = Some (map plain (common_prefix as ws))"
proof -
  have plain: "common_from (map plain as) (map plain ws) = Some (map plain (common_prefix as ws))" for as ws
    by (induction as ws rule: common_prefix.induct) (simp_all add: plain_def)
  show ?thesis using plain [of as ws] by (cases ws; cases as) (auto simp: plain_def)
qed

lemma common_from_same:
  "\<forall>c\<in>set cs. pc_parent c = Linked \<Longrightarrow> common_from (cs @ as) (cs @ bs) = map_option ((@) cs) (common_from as bs)"
proof (induction cs)
  case Nil
  then show ?case by (cases "common_from as bs") simp_all
next
  case (Cons c cs)
  then show ?case by (cases "common_from as bs") simp_all
qed

lemma commonPath_rooted:
  "pathList_commonPath (rooted R as True) (linked_path R q ws) = Some (rooted R (common_prefix as ws) True)"
proof -
  have "\<forall>c\<in>set (chain R []). pc_parent c = Linked" by (auto simp: chain_def)
  from common_from_same [OF this, of "map plain as" "set_first_parent q (map plain ws)"]
  have "common_from (chain R as) (pl_comps (linked_path R q ws)) = Some (chain R (common_prefix as ws))"
    using common_from_plain [of as q ws] chain_split [of R as] chain_split [of R "common_prefix as ws"]
    by (simp add: linked_path_def)
  then show ?thesis by (simp add: pathList_commonPath_def rooted_def [symmetric])
qed

lemma linked_path_nth:
  assumes "R \<noteq> []" "k < length ws"
  shows "pc_parent (pl_comps (linked_path R q ws) ! (length R + k)) = (if k = 0 then q else Linked)"
proof -
  obtain w ws' where "ws = w # ws'" using assms(2) by (cases ws) auto
  then show ?thesis using assms by (cases k) (auto simp: linked_path_def nth_append)
qed

lemma matchPartial_rooted:
  assumes "R \<noteq> []" "c = take (length c) ws" "q \<noteq> Freed"
  shows "pathList_matchPartial (linked_path R q ws) (rooted R c True) =
    Ret (Some (if c = [] \<and> ws \<noteq> [] \<and> q = Itself then length R else length R + length c - 1))"
proof -
  have len: "length c \<le> length ws" using arg_cong [OF assms(2), of length] by simp
  have items: "pl_items (rooted R c True) = R @ c" "take (length R + length c) (pl_items (linked_path R q ws)) = R @ c"
    using assms(1,2) by (simp_all add: pl_items_def rooted_def linked_path_items [unfolded pl_items_def])
  show ?thesis
  proof (cases "length ws = length c")
    case True
    then have "c = ws" using assms(2) by simp
    then show ?thesis using assms(1) items by (auto simp: pathList_matchPartial_def Let_def)
  next
    case False
    then have lt: "length c < length ws" using len by simp
    then have par: "pc_parent (pl_comps (linked_path R q ws) ! (length R + length c)) = (if length c = 0 then q else Linked)"
      by (rule linked_path_nth [OF assms(1)])
    have ne: "length (pl_comps (linked_path R q ws)) \<noteq> length R + length c" "ws \<noteq> []" using lt assms(1) by auto
    show ?thesis
    proof (cases "q = Itself \<and> c = []")
      case True
      with par have "pc_parent (pl_comps (linked_path R q ws) ! length R) = Itself" by simp
      then show ?thesis using True items ne assms(1) by (simp add: pathList_matchPartial_def Let_def)
    next
      case other: False
      with par assms(3) have "pc_parent (pl_comps (linked_path R q ws) ! (length R + length c)) = Linked"
        by (cases q) auto
      then show ?thesis using other items ne assms(1) by (auto simp: pathList_matchPartial_def Let_def)
    qed
  qed
qed

lemma append_rooted:
  assumes "R \<noteq> []" "n < length (pl_items src)"
  shows "pathList_appendComponents (rooted R c True) src n =
    Some (length R + length c, rooted R (c @ drop n (pl_items src)) True)"
  using assms by (simp add: pathList_appendComponents_def rooted_update pl_items_def chain_append rooted_def [symmetric])

text \<open>
  What the substitution makes of a link below the root: the path of the target, less its first
  component when that is its own parent and shares nothing with the link, and then what follows the link.
\<close>

definition target_entries :: "parent_ptr \<Rightarrow> cstring list \<Rightarrow> cstring list \<Rightarrow> cstring list" where
  "target_entries q link_entries ws = (if q = Itself \<and> common_prefix link_entries ws = [] then tl ws else ws)"

lemma rooted_items: "R \<noteq> [] \<Longrightarrow> pl_items (rooted R xs t) = R @ xs"
  by (simp add: pl_items_def)

lemma substitute_into_rooted:
  assumes "R \<noteq> []" "i < length xs" "q \<noteq> Freed"
  defines "a \<equiv> take (i + 1) xs"
  shows "\<exists>pos. substitute_into (rooted R xs t) (length R + i) (linked_path R q ws) (rooted R (common_prefix a ws) True)
      (Some (if common_prefix a ws = [] \<and> ws \<noteq> [] \<and> q = Itself then length R else length R + length (common_prefix a ws) - 1)) =
    Ret (Some (rooted R (target_entries q a ws @ drop (i + 1) xs) True, pos)) \<and>
    pos < length R + length (target_entries q a ws @ drop (i + 1) xs)"
proof -
  define c where "c = common_prefix a ws"
  define u where "u = (if c = [] \<and> ws \<noteq> [] \<and> q = Itself then length R else length R + length c - 1)"
  define T where "T = target_entries q a ws"
  have ct: "c = take (length c) ws" "length c \<le> length ws"
    unfolding c_def by (rule common_prefix_take, rule common_prefix_length)
  have len: "length (pl_comps (linked_path R q ws)) = length R + length ws" using assms(1) by simp
  have tail: "pathList_appendComponents (rooted R z True) (rooted R xs t) (Suc (length R + i)) =
      Some (length R + length z, rooted R (z @ drop (Suc i) xs) True)" if "Suc i < length xs" for z
    using that assms(1) append_rooted [OF assms(1), of "Suc (length R + i)" "rooted R xs t" z]
    by (simp add: rooted_items)
  have fin: "(rooted R xs t)\<lparr>pl_comps := chain R z, pl_terminal := True, pl_relroot := True\<rparr> = rooted R z True" for z
    by (simp add: rooted_def)
  have len2: "length (pl_comps (rooted R xs t)) = length R + length xs" using assms(1) by simp
  show ?thesis
  proof (cases "u + 1 < length R + length ws")
    case True
    have "pathList_appendComponents (rooted R c True) (linked_path R q ws) (u + 1) =
        Some (length R + length c, rooted R T True)"
    proof -
      have "c @ drop (u + 1) (R @ ws) = T"
      proof (cases "c = [] \<and> ws \<noteq> [] \<and> q = Itself")
        case True
        then show ?thesis by (simp add: u_def T_def target_entries_def c_def drop_Suc)
      next
        case False
        then have T: "T = ws" by (auto simp: T_def target_entries_def c_def)
        have "u + 1 = length R + length c" using False assms(1) by (auto simp: u_def)
        then show ?thesis using ct(1) T by (simp, metis append_take_drop_id)
      qed
      then show ?thesis
        using append_rooted [OF assms(1), of "u + 1" "linked_path R q ws" c] True assms(1) by simp
    qed
    moreover have "length c < length T"
    proof (cases "c = [] \<and> ws \<noteq> [] \<and> q = Itself")
      case itself: True
      then have "T = tl ws" "1 < length ws" using True by (auto simp: u_def T_def target_entries_def c_def)
      then show ?thesis using itself by simp
    next
      case False
      then have "T = ws" "length c < length ws" using True assms(1) by (auto simp: u_def T_def target_entries_def c_def)
      then show ?thesis by simp
    qed
    ultimately show ?thesis
      unfolding c_def [symmetric] u_def [symmetric] T_def [symmetric] substitute_into_def Let_def len2 len
      using True tail [of T] fin [simplified] assms(1)
      by (cases "Suc i < length xs") simp_all
  next
    case False
    have cT: "c = T"
    proof (cases "c = [] \<and> ws \<noteq> [] \<and> q = Itself")
      case True
      then have "length ws = 1" using False by (cases ws) (auto simp: u_def)
      then show ?thesis using True by (cases ws) (auto simp: T_def target_entries_def c_def)
    next
      case f: False
      then have "length ws \<le> length c" using False assms(1) by (auto simp: u_def)
      then have "c = ws" using ct(1) by (metis take_all)
      then show ?thesis using f by (auto simp: T_def target_entries_def c_def)
    qed
    have ne: "c \<noteq> [] \<Longrightarrow> length (chain R c) - 1 < length R + length c" using assms(1) by (cases R) auto
    show ?thesis
      unfolding c_def [symmetric] u_def [symmetric] T_def [symmetric] substitute_into_def Let_def len2 len cT [symmetric]
      using False tail [of c] fin [simplified] assms(1)
      by (cases "Suc i < length xs") simp_all
  qed
qed

lemma substitute_rooted:
  assumes "R \<noteq> []" "''..'' \<notin> set R" "''..'' \<notin> set xs" "i < length xs"
  shows "case pathList_symlinkResolve (rooted R (take i xs) True) target of
      Ret None \<Rightarrow> pathList_symlinkSubstitute (rooted R xs t) (length R + i) target = Ret None
    | Ret (Some lp) \<Rightarrow> (\<exists>q ws pos. lp = linked_path R q ws \<and> ''..'' \<notin> set ws \<and>
        pathList_symlinkSubstitute (rooted R xs t) (length R + i) target =
          Ret (Some (rooted R (target_entries q (take (i + 1) xs) ws @ drop (i + 1) xs) True, pos)) \<and>
        pos < length R + length (target_entries q (take (i + 1) xs) ws @ drop (i + 1) xs))
    | Abort \<Rightarrow> pathList_symlinkSubstitute (rooted R xs t) (length R + i) target = Abort
    | OutOfBounds \<Rightarrow> pathList_symlinkSubstitute (rooted R xs t) (length R + i) target = OutOfBounds"
proof -
  have dp: "pathList_duplicatePartial (rooted R xs t) (length R + i) = Some (rooted R (take (i + 1) xs) True)"
    by (rule duplicatePartial_rooted [OF assms(1,4)])
  have "butlast (take (i + 1) xs) = take i xs" using assms(4) by (simp add: butlast_take)
  moreover have ne: "take (i + 1) xs \<noteq> []" using assms(4) by auto
  ultimately have tr: "pathList_trimLast (rooted R (take (i + 1) xs) True) = Ret (rooted R (take i xs) True)"
    using trimLast_rooted [OF ne] by simp
  note S = pathList_symlinkSubstitute_def dp [simplified] tr [simplified]
  show ?thesis
  proof (cases "pathList_symlinkResolve (rooted R (take i xs) True) target")
    case (Ret x)
    show ?thesis
    proof (cases x)
      case None
      then show ?thesis using Ret None by (simp add: S)
    next
      case (Some lp)
      have "''..'' \<notin> set (take i xs)" using assms(3) by (auto dest: in_set_takeD)
      from symlinkResolve_below [OF assms(1,2) this] Ret Some obtain q ws where
        lp: "lp = linked_path R q ws" "''..'' \<notin> set ws" "q \<noteq> Freed" by blast
      let ?c = "common_prefix (take (i + 1) xs) ws"
      have m: "pathList_matchPartial (linked_path R q ws) (rooted R ?c True) =
          Ret (Some (if ?c = [] \<and> ws \<noteq> [] \<and> q = Itself then length R else length R + length ?c - 1))"
        by (rule matchPartial_rooted [OF assms(1) common_prefix_take lp(3)])
      have eq: "pathList_symlinkSubstitute (rooted R xs t) (length R + i) target =
          substitute_into (rooted R xs t) (length R + i) (linked_path R q ws) (rooted R ?c True)
            (Some (if ?c = [] \<and> ws \<noteq> [] \<and> q = Itself then length R else length R + length ?c - 1))"
        using Ret Some lp(1) m by (simp add: S commonPath_rooted)
      from substitute_into_rooted [OF assms(1,4) lp(3), of t ws] obtain pos where
        "pathList_symlinkSubstitute (rooted R xs t) (length R + i) target =
          Ret (Some (rooted R (target_entries q (take (i + 1) xs) ws @ drop (i + 1) xs) True, pos))"
        "pos < length R + length (target_entries q (take (i + 1) xs) ws @ drop (i + 1) xs)"
        unfolding eq by blast
      then show ?thesis unfolding Ret Some outcome.case option.case using lp(1,2) by blast
    qed
  qed (simp_all add: S)
qed

lemma linked_path_inject:
  assumes "linked_path R q ws = linked_path R q' ws'" "R \<noteq> []"
  shows "ws = ws' \<and> (ws = [] \<or> q = q')"
proof -
  have ws: "ws = ws'" using arg_cong [OF assms(1), of pl_items] by (simp add: assms(2))
  moreover have "q = q'" if "ws \<noteq> []"
    using arg_cong [OF assms(1), of "\<lambda>p. pc_parent (pl_comps p ! (length R + 0))"] that ws
      linked_path_nth [OF assms(2), of 0 ws] by simp
  ultimately show ?thesis by blast
qed

lemma symlinkResolve_root_absolute:
  assumes "R \<noteq> []" "''..'' \<notin> set R" "hd target = CHR ''/''" "target \<noteq> []" "normal_entries (path_entries target) = v # vs"
  shows "pathList_symlinkResolve (rooted R [] True) target = Ret (Some (linked_path R Itself (v # vs)))"
proof -
  from pathList_init_Some [OF assms(4)] assms(3,5) obtain p where
    p: "pathList_init target = Some p" "pl_absolute p" "\<forall>c\<in>set (pl_comps p). \<not> pc_root c"
      "\<forall>c\<in>set (tl (pl_comps p)). pc_parent c = Linked" "pl_items p = v # vs" by auto
  have first: "set_first_parent Itself (pl_comps p) = set_first_parent Itself (map plain (v # vs))" "pl_comps p \<noteq> []"
    using comps_eq_plain [OF p(3,4), of Itself] p(5) by (auto simp: pl_items_def)
  have nd: "''..'' \<notin> set (v # vs)" using steps_no_dotdot [of "[]" "path_entries target"] assms(5) by (simp add: normal_entries_def)
  have "\<forall>c\<in>set (chain R [] @ set_first_parent Itself (map plain (v # vs))). pc_item c \<noteq> ''..''"
    using chain_no_dotdot [OF assms(1,2), of "[]"] nd by auto
  from resolve_skip [OF this, of "[]" "[]"]
  have "resolve_from [] (chain R [] @ set_first_parent Itself (map plain (v # vs))) = Ret (chain R [] @ set_first_parent Itself (map plain (v # vs)))"
    by simp
  moreover have "take (length R) (chain R []) = chain R []" "Suc (length R - 1) = length R"
    "chain R [] ! (length R - 1) = root_comp (last R)"
    using take_chain [OF assms(1), of 0 "[]"] nth_chain(2) [OF assms(1)] assms(1) by simp_all
  ultimately show ?thesis
    using p(1,2) first assms(1)
    by (simp add: pathList_symlinkResolve_def Let_def pathList_resolve_def rooted_update linked_path_def chain_roots)
qed

section \<open>Links at or above the root\<close>

lemma pathList_resolve_relroot: "pathList_resolve p = Ret q \<Longrightarrow> pl_relroot q = pl_relroot p"
  by (auto simp: pathList_resolve_def split: if_splits outcome.splits)

lemma symlinkResolve_unrooted:
  assumes "pathList_symlinkResolve base target = Ret (Some lp)" "\<forall>c\<in>set (pl_comps base). \<not> pc_root c"
  shows "\<not> pl_relroot lp"
  using assms
  by (auto simp: pathList_symlinkResolve_def Let_def pathList_duplicate_def
      split: option.splits if_splits outcome.splits dest!: pathList_resolve_relroot)

lemma take_before_root: "k < length R \<Longrightarrow> take k (chain R xs) = map plain (take k R)"
proof -
  assume k: "k < length R"
  then have "k \<le> length (map plain (butlast R))" by simp
  then have "take k (chain R xs) = take k (map plain (butlast R))" by (simp add: chain_def)
  then show ?thesis using k by (simp add: take_map take_butlast)
qed

lemma substitute_at_root:
  assumes "R \<noteq> []" "p < length R"
  shows "pathList_symlinkSubstitute (rooted R xs t) p target \<noteq> Ret (Some r)"
proof
  assume a: "pathList_symlinkSubstitute (rooted R xs t) p target = Ret (Some r)"
  define orig where "orig = (rooted R xs True)\<lparr>pl_comps := take (p + 1) (chain R xs)\<rparr>"
  have dp: "pathList_duplicatePartial (rooted R xs t) p = Some orig"
    using assms by (simp add: pathList_duplicatePartial_def orig_def)
  have o: "pl_relroot orig" "pl_comps orig = take (p + 1) (chain R xs)" by (simp_all add: orig_def)
  from a dp obtain linkParent lp where
    tr: "pathList_trimLast (pathList_duplicate orig) = Ret linkParent" and
    sy: "pathList_symlinkResolve linkParent target = Ret (Some lp)" and
    co: "pathList_commonPath orig lp \<noteq> None"
    by (auto simp: pathList_symlinkSubstitute_def split: outcome.splits option.splits)
  have "take (p + 1) (chain R xs) \<noteq> []" using assms by simp
  then have "map pc_root (pl_comps linkParent) = map pc_root (butlast (take (p + 1) (chain R xs)))"
    using tr o by (auto simp: pathList_trimLast_def pathList_duplicate_def map_butlast [symmetric] comp_def split: if_splits)
  also have "butlast (take (p + 1) (chain R xs)) = map plain (take p R)"
    using assms take_before_root [OF assms(2), of xs] by (simp add: butlast_take)
  finally have eq: "map pc_root (pl_comps linkParent) = map pc_root (map plain (take p R))" .
  have "\<forall>c\<in>set (pl_comps linkParent). \<not> pc_root c"
  proof
    fix c
    assume "c \<in> set (pl_comps linkParent)"
    then have "pc_root c \<in> set (map pc_root (pl_comps linkParent))" by simp
    then have "pc_root c \<in> set (map pc_root (map plain (take p R)))" unfolding eq .
    then show "\<not> pc_root c" by auto
  qed
  from symlinkResolve_unrooted [OF sy this] co o show False by (simp add: pathList_commonPath_def)
qed

section \<open>Texts of paths\<close>

definition path_text :: "cstring list \<Rightarrow> cstring" where
  "path_text es = concat (map (\<lambda>e. CHR ''/'' # e) es)"

lemma path_text_simps [simp]: "path_text [] = []" "path_text (e # es) = CHR ''/'' # e @ path_text es"
  "path_text (as @ bs) = path_text as @ path_text bs"
  by (simp_all add: path_text_def)

lemma string_comps_text: "string_comps True used es = Some s \<Longrightarrow> s = path_text es"
  by (induction es arbitrary: used s) (auto simp: Let_def split: if_splits)

lemma string_comps_fits: "used + length (path_text es) + 1 < PATH_MAX \<Longrightarrow> string_comps True used es = Some (path_text es)"
  by (induction es arbitrary: used) (auto simp: Let_def)

lemma path_text_take: "length (path_text (take k es)) \<le> length (path_text es)"
  by (metis append_take_drop_id le_add1 length_append path_text_simps(3))

lemma stringPartial_rooted:
  "R \<noteq> [] \<Longrightarrow> pathList_stringPartial (rooted R xs t) (Some p) = string_comps True 0 (take (p + 1) (R @ xs))"
  by (simp add: pathList_stringPartial_def rooted_items)

lemma pathList_string_rooted:
  "R \<noteq> [] \<Longrightarrow> pathList_string (rooted R xs t) = (if t then string_comps True 0 (R @ xs) else None)"
proof -
  assume R: "R \<noteq> []"
  then have "Suc (length R + length xs - 1) = length (R @ xs)" by (cases R) auto
  then show ?thesis using R by (simp add: pathList_string_def stringPartial_rooted) (simp add: pathList_stringPartial_def)
qed

text \<open>The entries of a path: not empty, without a slash, not a dot.\<close>

definition entry_ok :: "cstring \<Rightarrow> bool" where
  "entry_ok e \<longleftrightarrow> e \<noteq> [] \<and> CHR ''/'' \<notin> set e \<and> e \<noteq> ''.''"

lemma path_entries_ok: "e \<in> set (path_entries path) \<Longrightarrow> entry_ok e"
  using strtok_all_token by (fastforce simp: path_entries_def entry_ok_def)

lemma normal_entries_set: "set (normal_entries es) \<subseteq> set es" "''..'' \<notin> set (normal_entries es)"
  using steps_subset [of "[]" es] steps_no_dotdot [of "[]" es] by (simp_all add: normal_entries_def)

lemma normal_entries_id: "''..'' \<notin> set es \<Longrightarrow> normal_entries es = es"
  using no_dotdot_steps [of es "[]"] by (simp add: normal_entries_def)

lemma path_entries_text:
  assumes "\<forall>e\<in>set es. entry_ok e"
  shows "path_entries (path_text es) = es"
proof -
  have "filter (\<lambda>t. t \<noteq> []) (split_on (\<lambda>c. c = CHR ''/'') (path_text es)) = es"
    using assms
  proof (induction es)
    case (Cons e es)
    show ?case
    proof (cases es)
      case Nil
      have "e \<noteq> []" "\<forall>c\<in>set e. \<not> c = CHR ''/''" using Cons.prems by (auto simp: entry_ok_def)
      then show ?thesis using Nil split_on_none [of e "\<lambda>c. c = CHR ''/''"] by simp
    next
      case (Cons f fs)
      then obtain r where r: "path_text es = CHR ''/'' # r" by simp
      have "split_on (\<lambda>c. c = CHR ''/'') (e @ CHR ''/'' # r) = e # split_on (\<lambda>c. c = CHR ''/'') r"
        by (rule split_on_append) (use \<open>\<forall>e\<in>set (e # es). entry_ok e\<close> in \<open>auto simp: entry_ok_def\<close>)
      then show ?thesis using Cons.IH Cons.prems r by (auto simp: entry_ok_def)
    qed
  qed simp
  then show ?thesis using assms by (auto simp: path_entries_def strtok_all_def filter_id_conv entry_ok_def)
qed

section \<open>The search\<close>

lemma setRoot_self:
  assumes "pathList_init mount = Some base"
  shows "pathList_setRoot base mount =
    (if hd mount \<noteq> CHR ''/'' then Ret (-1, base)
     else if pl_items base = [] then Ret (0, base)
     else Ret (0, base\<lparr>pl_relroot := True,
                        pl_comps := (pl_comps base)[length (pl_comps base) - 1 := (last (pl_comps base))\<lparr>pc_root := True\<rparr>]\<rparr>))"
proof -
  have "mount \<noteq> []" using assms by auto
  from pathList_init_Some [OF this] assms have b: "pl_absolute base = (hd mount = CHR ''/'')" "\<not> pl_relroot base" "pl_terminal base"
    "\<forall>c\<in>set (pl_comps base). \<not> pc_root c" by auto
  have clear: "map (\<lambda>c. c\<lparr>pc_root := False\<rparr>) (pl_comps base) = pl_comps base"
    using b(4) by (intro map_idI) auto
  have "pathList_matchPartial base base = Ret (Some (length (pl_comps base) - 1))" if "pl_comps base \<noteq> []"
    using that b(3) by (simp add: pathList_matchPartial_def Let_def pl_items_def)
  then show ?thesis
    using assms b clear by (auto simp: pathList_setRoot_def pl_items_def last_conv_nth)
qed

lemma rooted_duplicate:
  assumes "cs \<noteq> []" "\<forall>c\<in>set cs. \<not> pc_root c"
  shows "pathList_duplicate \<lparr>pl_comps = cs[length cs - 1 := (last cs)\<lparr>pc_root := True\<rparr>], pl_relroot = True,
      pl_absolute = True, pl_terminal = True\<rparr> = rooted (map pc_item cs) [] True"
proof -
  obtain as b where cs: "cs = as @ [b]" using assms(1) by (cases cs rule: rev_cases) auto
  have "map (\<lambda>c. \<lparr>pc_item = pc_item c, pc_root = pc_root c, pc_parent = Linked\<rparr>) as = map plain (map pc_item as)"
    using assms(2) cs by (auto simp: plain_def)
  then show ?thesis by (simp add: pathList_duplicate_def rooted_def chain_def cs root_comp_def)
qed

lemma append_rooted_path:
  assumes "R \<noteq> []" "''..'' \<notin> set R" "src \<noteq> []"
  shows "\<exists>t. pathList_append (rooted R [] True) src = Ret (0, rooted R (normal_entries (path_entries src)) t) \<and>
    (normal_entries (path_entries src) \<noteq> [] \<longrightarrow> t)"
proof -
  from pathList_init_Some [OF assms(3)] obtain np where
    np: "pathList_init src = Some np" "\<forall>c\<in>set (pl_comps np). \<not> pc_root c" "\<forall>c\<in>set (tl (pl_comps np)). pc_parent c = Linked"
      "pl_items np = (if hd src = CHR ''/'' then normal_entries (path_entries src) else path_entries src)" by auto
  have cs: "set_first_parent Linked (pl_comps np) = map plain (pl_items np)"
    using comps_eq_plain [OF np(2,3), of Linked] by (simp add: pl_items_def del: map_map)
  have n: "foldl step_entry [] (pl_items np) = normal_entries (path_entries src)"
    using np(4) normal_entries_id [OF normal_entries_set(2)] by (simp add: normal_entries_def)
  have "resolve_from [] (chain R [] @ map plain (pl_items np)) = Ret (chain R (normal_entries (path_entries src)))"
    using resolve_skip [OF chain_no_dotdot [OF assms(1,2), of "[]"], of "[]"] resolve_chain [OF assms(1), of "[]"] n by simp
  then have "pathList_append (rooted R [] True) src =
      Ret (0, rooted R (normal_entries (path_entries src)) (pl_comps np \<noteq> []))"
    using np(1) cs by (simp add: pathList_append_def Let_def pathList_resolve_def rooted_update2 rooted_def [symmetric])
  moreover have "normal_entries (path_entries src) \<noteq> [] \<longrightarrow> pl_comps np \<noteq> []"
    using n by (auto simp: pl_items_def)
  ultimately show ?thesis by blast
qed

lemma realpath_search_eq:
  assumes "hd mount = CHR ''/''" "mount \<noteq> []" "normal_entries (path_entries mount) \<noteq> []" "src \<noteq> []"
  shows "\<exists>t. realpath_search mount src =
      Ret (Some (rooted (normal_entries (path_entries mount)) (normal_entries (path_entries src)) t)) \<and>
    (normal_entries (path_entries src) \<noteq> [] \<longrightarrow> t)"
proof -
  define R where "R = normal_entries (path_entries mount)"
  from pathList_init_Some [OF assms(2)] assms(1) obtain base where
    b: "pathList_init mount = Some base" "pl_items base = R" "pl_absolute base" "\<not> pl_relroot base" "pl_terminal base"
      "\<forall>c\<in>set (pl_comps base). \<not> pc_root c" by (auto simp: R_def)
  have ne: "pl_comps base \<noteq> []" using assms(3) b(2) by (auto simp: R_def pl_items_def)
  have "pathList_setRoot base mount = Ret (0, \<lparr>pl_comps = (pl_comps base)[length (pl_comps base) - 1 := (last (pl_comps base))\<lparr>pc_root := True\<rparr>],
      pl_relroot = True, pl_absolute = True, pl_terminal = True\<rparr>)"
    using setRoot_self [OF b(1)] assms(1,3) b by (cases base) (simp add: R_def [symmetric])
  moreover have "R \<noteq> []" "''..'' \<notin> set R" using assms(3) normal_entries_set(2) by (simp_all add: R_def)
  from append_rooted_path [OF this assms(4)] obtain t where
    "pathList_append (rooted R [] True) src = Ret (0, rooted R (normal_entries (path_entries src)) t)"
    "normal_entries (path_entries src) \<noteq> [] \<longrightarrow> t" by blast
  ultimately show ?thesis
    using b(1,2) rooted_duplicate [OF ne b(6)] by (auto simp: realpath_search_def R_def [symmetric] pl_items_def)
qed

lemma realpath_search_rooted:
  assumes "realpath_search mount src = Ret (Some sp)"
  shows "hd mount = CHR ''/'' \<and> normal_entries (path_entries mount) \<noteq> [] \<and>
    (\<exists>t. sp = rooted (normal_entries (path_entries mount)) (normal_entries (path_entries src)) t)"
proof -
  have ne: "mount \<noteq> []" using assms by (auto simp: realpath_search_def)
  from pathList_init_Some [OF this] obtain base where
    b: "pathList_init mount = Some base" "\<not> pl_relroot base" by auto
  have hd: "hd mount = CHR ''/''"
  proof (rule ccontr)
    assume "hd mount \<noteq> CHR ''/''"
    then have "pathList_setRoot base mount = Ret (-1, base)" using setRoot_self [OF b(1)] by simp
    then show False using assms b(1) by (simp add: realpath_search_def)
  qed
  have src: "src \<noteq> []"
  proof
    assume "src = []"
    then have "pathList_append q src = Ret (-1, q)" for q by (simp add: pathList_append_def)
    then show False using assms b(1) by (auto simp: realpath_search_def split: outcome.splits if_splits)
  qed
  have "pl_items base \<noteq> []"
  proof
    assume "pl_items base = []"
    then have "pathList_setRoot base mount = Ret (0, base)" using setRoot_self [OF b(1)] hd by simp
    then obtain rc where "pathList_append (pathList_duplicate base) src = Ret (rc, sp)" "pl_relroot sp"
      using assms b(1) by (auto simp: realpath_search_def split: outcome.splits if_splits)
    then show False using b(2)
      by (auto simp: pathList_append_def pathList_duplicate_def Let_def split: option.splits outcome.splits dest!: pathList_resolve_relroot)
  qed
  moreover have "pl_items base = normal_entries (path_entries mount)"
    using pathList_init_Some [OF ne] b(1) hd by auto
  ultimately show ?thesis using realpath_search_eq [OF hd ne _ src] assms hd by auto
qed

section \<open>The loop\<close>

text \<open>Every path the loop looks at starts with the root and has no \<open>..\<close> below it.\<close>

definition looks_below :: "cstring list \<Rightarrow> event \<Rightarrow> bool" where
  "looks_below R ev \<longleftrightarrow> (\<exists>k zs. ''..'' \<notin> set zs \<and>
     (fst ev = Lstat (path_text (take k (R @ zs))) \<or> fst ev = Readlink (path_text (take k (R @ zs)))))"

definition loop_result :: "cstring list \<Rightarrow> PathList option outcome option \<Rightarrow> event list \<Rightarrow> bool" where
  "loop_result R x es \<longleftrightarrow> (\<forall>ev\<in>set es. looks_below R ev) \<and>
     (\<forall>sp. x = Some (Ret (Some sp)) \<longrightarrow> (\<exists>zs t. sp = rooted R zs t \<and> ''..'' \<notin> set zs))"

lemma target_entries_set: "set (target_entries q as ws) \<subseteq> set ws"
  by (auto simp: target_entries_def dest: in_tl)

lemma substitute_below:
  assumes "R \<noteq> []" "''..'' \<notin> set R" "''..'' \<notin> set xs" "p < length R + length xs"
    and "pathList_symlinkSubstitute (rooted R xs t) p target = Ret (Some (sp, pos))"
  shows "\<exists>zs. sp = rooted R zs True \<and> ''..'' \<notin> set zs \<and> pos < length R + length zs"
proof -
  have "\<not> p < length R" using substitute_at_root [OF assms(1), of p xs t target] assms(5) by auto
  then obtain i where p: "p = length R + i" "i < length xs" using assms(4) by (metis add_less_cancel_left le_Suc_ex not_less)
  have tail: "''..'' \<notin> set (drop (i + 1) xs)" using assms(3) by (auto dest: in_set_dropD)
  from substitute_rooted [OF assms(1-3) p(2), where target = target and t = t] assms(5) p(1) obtain q ws where
    "''..'' \<notin> set ws" "sp = rooted R (target_entries q (take (i + 1) xs) ws @ drop (i + 1) xs) True"
    "pos < length R + length (target_entries q (take (i + 1) xs) ws @ drop (i + 1) xs)"
    by (auto split: outcome.splits option.splits)
  then show ?thesis using target_entries_set [of q "take (i + 1) xs" ws] tail
    by (intro exI [of _ "target_entries q (take (i + 1) xs) ws @ drop (i + 1) xs"]) auto
qed

lemma realpath_loop_effects:
  assumes "R \<noteq> []" "''..'' \<notin> set R"
  shows "''..'' \<notin> set xs \<Longrightarrow> (\<forall>p. pos = Some p \<longrightarrow> p < length R + length xs) \<Longrightarrow>
    effects (realpath_loop fuel (rooted R xs t) pos) (loop_result R)"
proof (induction fuel arbitrary: xs t pos)
  case 0
  then show ?case by (cases pos) (auto simp: loop_result_def intro!: effects_yield)
next
  case (Suc n)
  show ?case
  proof (cases pos)
    case None
    then show ?thesis using Suc.prems by (auto simp: loop_result_def intro!: effects_yield)
  next
    case (Some p)
    have p: "p < length R + length xs" using Suc.prems(2) Some by simp
    have fail: "effects (yield (Some (Ret None))) (\<lambda>x es. loop_result R x (as @ es))"
      "effects (yield (Some Abort)) (\<lambda>x es. loop_result R x (as @ es))"
      "effects (yield (Some OutOfBounds)) (\<lambda>x es. loop_result R x (as @ es))" if "\<forall>ev\<in>set as. looks_below R ev" for as
      using that by (auto simp: loop_result_def intro!: effects_yield)
    have cont: "effects (realpath_loop n (rooted R ys u) q) (\<lambda>x es. loop_result R x (as @ es))"
      if "\<forall>ev\<in>set as. looks_below R ev" "''..'' \<notin> set ys" "\<forall>r. q = Some r \<longrightarrow> r < length R + length ys" for as ys u q
      by (rule effects_mono [OF Suc.IH [OF that(2,3)]]) (use that(1) in \<open>auto simp: loop_result_def\<close>)
    show ?thesis
    proof (cases "pathList_stringPartial (rooted R xs t) (Some p)")
      case None
      then show ?thesis using Some fail [of "[]"] by simp
    next
      case (Some cur)
      then have cur: "cur = path_text (take (p + 1) (R @ xs))"
        using assms(1) string_comps_text [of 0 "take (p + 1) (R @ xs)" cur]
        by (simp add: stringPartial_rooted del: take_append)
      have l: "looks_below R (Lstat cur, r)" "looks_below R (Readlink cur, r)" for r
        using Suc.prems(1) unfolding looks_below_def cur by (intro exI [of _ "p + 1"] exI [of _ xs], simp)+
      have sub: "effects (case pathList_symlinkSubstitute (rooted R xs t) p b of
             Ret None \<Rightarrow> yield (Some (Ret None))
           | Ret (Some (sp, q)) \<Rightarrow> realpath_loop n sp (Some q)
           | Abort \<Rightarrow> yield (Some Abort)
           | OutOfBounds \<Rightarrow> yield (Some OutOfBounds)) (\<lambda>x es. loop_result R x ([(Lstat cur, r), (Readlink cur, r')] @ es))" for b r r'
      proof (cases "pathList_symlinkSubstitute (rooted R xs t) p b")
        case (Ret y)
        show ?thesis
        proof (cases y)
          case None
          then show ?thesis using Ret fail(1) [of "[(Lstat cur, r), (Readlink cur, r')]"] l by simp
        next
          case (Some z)
          obtain sp q where z: "z = (sp, q)" by fastforce
          with substitute_below [OF assms Suc.prems(1) p] Ret Some obtain zs where
            zs: "sp = rooted R zs True" "''..'' \<notin> set zs" "q < length R + length zs" by blast
          have "effects (realpath_loop n (rooted R zs True) (Some q)) (\<lambda>x es. loop_result R x ([(Lstat cur, r), (Readlink cur, r')] @ es))"
            by (rule cont) (use l zs in auto)
          then show ?thesis using Ret Some z zs(1) by simp
        qed
      next
        case Abort
        then show ?thesis using fail(2) [of "[(Lstat cur, r), (Readlink cur, r')]"] l by simp
      next
        case OutOfBounds
        then show ?thesis using fail(3) [of "[(Lstat cur, r), (Readlink cur, r')]"] l by simp
      qed
      have go_on: "effects (realpath_loop n (rooted R xs t) (if p + 1 < length (pl_comps (rooted R xs t)) then Some (p + 1) else None))
          (\<lambda>x es. loop_result R x ([(Lstat cur, r)] @ es))" for r
        by (rule cont) (use l Suc.prems assms(1) in auto)
      have ro: "effects (yield (Some (Ret None))) (\<lambda>x es. loop_result R x ([(Lstat cur, r)] @ es))"
        "effects (yield (Some (Ret None))) (\<lambda>x es. loop_result R x ([(Lstat cur, r), (Readlink cur, r')] @ es))" for r r'
        using fail(1) [of "[(Lstat cur, r)]"] fail(1) [of "[(Lstat cur, r), (Readlink cur, r')]"] l by auto
      show ?thesis
        unfolding \<open>pos = Some p\<close> realpath_loop.simps Some option.case
      proof (rule effects_call_bind, goal_cases)
        case (1 r)
        show ?case
        proof (cases "r_rc r \<noteq> 0 \<or> st_kind (r_stat r) \<noteq> KSymlink")
          case True
          then show ?thesis using ro(1) [of r] go_on [of r] by auto
        next
          case False
          have "effects (syscall (Readlink cur) \<bind> (\<lambda>l. case r_text l of None \<Rightarrow> yield (Some (Ret None))
             | Some buffer \<Rightarrow> if PATH_MAX \<le> length buffer then yield (Some (Ret None))
                 else (case pathList_symlinkSubstitute (rooted R xs t) p buffer of
                         Ret None \<Rightarrow> yield (Some (Ret None))
                       | Ret (Some (sp, q)) \<Rightarrow> realpath_loop n sp (Some q)
                       | Abort \<Rightarrow> yield (Some Abort)
                       | OutOfBounds \<Rightarrow> yield (Some OutOfBounds)))) (\<lambda>x es. loop_result R x ((Lstat cur, r) # es))"
          proof (rule effects_call_bind, goal_cases)
            case (1 r')
            then show ?case using ro(2) [of r r'] sub [of _ r r'] by (cases "r_text r'") auto
          qed
          then show ?thesis using False by simp
        qed
      qed
    qed
  qed
qed

section \<open>A run without links\<close>

text \<open>An environment in which every path exists and none is a symbolic link.\<close>

definition no_links :: "world \<Rightarrow> bool" where
  "no_links w \<longleftrightarrow> (\<forall>tr p. r_rc (w_env w tr (Lstat p)) = 0 \<and> st_kind (r_stat (w_env w tr (Lstat p))) \<noteq> KSymlink)"

lemma realpath_loop_plain:
  assumes "R \<noteq> []" "length (path_text (R @ xs)) + 1 < PATH_MAX"
  shows "no_links w \<Longrightarrow> p < length R + length xs \<Longrightarrow> length R + length xs - p \<le> fuel \<Longrightarrow>
    \<exists>w'. run_state (realpath_loop fuel (rooted R xs t) (Some p)) w = (Some (Ret (Some (rooted R xs t))), w')"
proof (induction fuel arbitrary: p w)
  case (Suc n)
  define w1 where "w1 = w\<lparr>w_trace := w_trace w @ [(Lstat (path_text (take (p + 1) (R @ xs))), w_env w (w_trace w) (Lstat (path_text (take (p + 1) (R @ xs)))))]\<rparr>"
  have "length (path_text (take (p + 1) (R @ xs))) + 1 < PATH_MAX"
    using path_text_take [of "p + 1" "R @ xs"] assms(2) by linarith
  then have str: "pathList_stringPartial (rooted R xs t) (Some p) = Some (path_text (take (p + 1) (R @ xs)))"
    using string_comps_fits [of 0 "take (p + 1) (R @ xs)"] assms(1) by (simp add: stringPartial_rooted del: take_append)
  have nl: "no_links w1" using Suc.prems(1) by (simp add: w1_def no_links_def)
  have step: "run_state (realpath_loop (Suc n) (rooted R xs t) (Some p)) w =
      run_state (realpath_loop n (rooted R xs t) (if p + 1 < length R + length xs then Some (p + 1) else None)) w1"
    using Suc.prems(1) str assms(1)
    by (simp add: run_bind no_links_def w1_def del: take_append path_text_simps(3))
  show ?case
  proof (cases "p + 1 < length R + length xs")
    case True
    then show ?thesis using Suc.IH [OF nl, of "p + 1"] Suc.prems(3) step by simp
  next
    case False
    then show ?thesis using step by simp
  qed
qed simp

section \<open>Properties\<close>

text \<open>
  C14. A path is resolved inside the container: whatever the file system answers, even when it changes
  between two calls, a path that is returned is the mount point followed by entries none of which is
  \<open>..\<close>, and every path that is looked at on the way starts in the same manner.
\<close>

theorem realpath_stays_inside:
  assumes "udiMountPoint cfg = Some mount" "run_state (shifter_realpath fuel src cfg) w = (r, w')"
  shows "\<exists>es. w_trace w' = w_trace w @ es \<and>
    (let R = normal_entries (path_entries mount)
     in (\<forall>ev\<in>set es. looks_below R ev) \<and>
        (\<forall>s. r = Some (Ret (Some s)) \<longrightarrow> R \<noteq> [] \<and> (\<exists>zs. s = path_text (R @ zs) \<and> ''..'' \<notin> set zs)))"
proof -
  define R where "R = normal_entries (path_entries mount)"
  let ?Q = "\<lambda>x es. (\<forall>ev\<in>set es. looks_below R ev) \<and>
        (\<forall>s. x = Some (Ret (Some s)) \<longrightarrow> R \<noteq> [] \<and> (\<exists>zs. s = path_text (R @ zs) \<and> ''..'' \<notin> set zs))"
  have "effects (shifter_realpath fuel src cfg) ?Q"
  proof (cases "realpath_search mount src")
    case (Ret y)
    show ?thesis
    proof (cases y)
      case None
      then show ?thesis using Ret assms(1) by (auto simp: shifter_realpath_def)
    next
      case (Some sp)
      with realpath_search_rooted [of mount src sp] Ret obtain t where
        R: "R \<noteq> []" and sp: "sp = rooted R (normal_entries (path_entries src)) t" by (auto simp: R_def)
      have nd: "''..'' \<notin> set R" "''..'' \<notin> set (normal_entries (path_entries src))"
        using normal_entries_set(2) by (simp_all add: R_def)
      have "effects (realpath_loop fuel sp (if pl_comps sp = [] then None else Some 0)) (loop_result R)"
        unfolding sp by (rule realpath_loop_effects [OF R nd]) (use R in auto)
      then have "effects (realpath_loop fuel sp (if pl_comps sp = [] then None else Some 0) \<bind> (\<lambda>r. yield (case r of
                   None \<Rightarrow> None
                 | Some (Ret None) \<Rightarrow> Some (Ret None)
                 | Some (Ret (Some sp)) \<Rightarrow> Some (Ret (pathList_string sp))
                 | Some Abort \<Rightarrow> Some Abort
                 | Some OutOfBounds \<Rightarrow> Some OutOfBounds))) ?Q"
      proof (rule effects_seq, goal_cases)
        case (1 x n)
        then show ?case using R
          by (auto simp: loop_result_def pathList_string_rooted split: option.splits outcome.splits if_splits
              intro!: effects_yield dest: string_comps_text)
             (metis path_text_simps(3) string_comps_text)
      qed
      then show ?thesis using Ret Some assms(1) by (simp add: shifter_realpath_def)
    qed
  qed (use assms(1) in \<open>auto simp: shifter_realpath_def\<close>)
  from effects_run [OF this assms(2)] show ?thesis by (auto simp: R_def Let_def)
qed

text \<open>
  C37. Without symbolic links the resolution ends and is exact: with one round for each component it
  returns the mount point followed by the normal form of the request, so that no \<open>..\<close> of the
  request leaves the mount point.
\<close>

theorem realpath_plain:
  assumes "udiMountPoint cfg = Some mount" "mount \<noteq> []" "hd mount = CHR ''/''"
    and "R = normal_entries (path_entries mount)" "R \<noteq> []"
    and "xs = normal_entries (path_entries src)" "xs \<noteq> []"
    and "length (path_text (R @ xs)) + 1 < PATH_MAX" "no_links w" "length R + length xs \<le> fuel"
  shows "\<exists>w'. run_state (shifter_realpath fuel src cfg) w = (Some (Ret (Some (path_text (R @ xs)))), w')"
proof -
  have "src \<noteq> []" using assms(6,7) by (auto simp: path_entries_def strtok_all_def normal_entries_def)
  from realpath_search_eq [OF assms(3,2) _ this] assms(4-7)
  have s: "realpath_search mount src = Ret (Some (rooted R xs True))" by auto
  from realpath_loop_plain [OF assms(5,8,9), of 0 fuel True] assms(5,10) obtain w' where
    "run_state (realpath_loop fuel (rooted R xs True) (Some 0)) w = (Some (Ret (Some (rooted R xs True))), w')" by auto
  moreover have "pathList_string (rooted R xs True) = Some (path_text (R @ xs))"
    using assms(5,8) string_comps_fits [of 0 "R @ xs"] by (simp add: pathList_string_rooted)
  ultimately show ?thesis using assms(1) s by (simp add: shifter_realpath_def run_bind)
qed

text \<open>
  C36. The list of a path is its normal form: an absolute path is read as the entries that the reference
  leaves (a \<open>..\<close> drops the entry before it), its text reads back to the same list, and the text is the
  same as that of the normal form.
\<close>

theorem pathList_normal_form:
  assumes "path \<noteq> []" "hd path = CHR ''/''" "es = normal_entries (path_entries path)" "length (path_text es) + 1 < PATH_MAX"
  shows "\<exists>p q. pathList_init path = Some p \<and> pl_items p = es \<and>
    pathList_string p = Some (if es = [] then ''/'' else path_text es) \<and>
    (es \<noteq> [] \<longrightarrow> pathList_init (path_text es) = Some q \<and> pl_items q = es)"
proof -
  from pathList_init_Some [OF assms(1)] assms(2,3) obtain p where
    p: "pathList_init path = Some p" "pl_items p = es" "pl_absolute p" "pl_terminal p" by auto
  have nil: "pl_comps p = [] \<longleftrightarrow> es = []" "length (pl_comps p) = length es" using p(2) by (auto simp: pl_items_def)
  have "pathList_string p = Some (if es = [] then ''/'' else path_text es)"
    using p nil string_comps_fits [of 0 es] assms(4)
    by (auto simp: pathList_string_def pathList_stringPartial_def)
  moreover have "\<exists>q. es \<noteq> [] \<longrightarrow> pathList_init (path_text es) = Some q \<and> pl_items q = es"
  proof (cases "es = []")
    case False
    have ok: "\<forall>e\<in>set es. entry_ok e" using normal_entries_set(1) path_entries_ok assms(3) by blast
    have "path_text es \<noteq> []" "hd (path_text es) = CHR ''/''" using False by (cases es; simp)+
    from pathList_init_Some [OF this(1)] this(2) show ?thesis
      using path_entries_text [OF ok] normal_entries_id [of es] normal_entries_set(2) [of "path_entries path"] assms(3) by auto
  qed simp
  ultimately show ?thesis using p by blast
qed

text \<open>
  A relative link below the root is replaced correctly, as long as its directory is not the root
  itself: the new path is the directory of the link, followed by the entries of the target, with each
  \<open>..\<close> resolved and stopped at the root, followed by what came after the link.
\<close>

theorem relative_link_substituted:
  assumes "R \<noteq> []" "''..'' \<notin> set R" "''..'' \<notin> set xs" "i < length xs" "i \<noteq> 0"
    and "target \<noteq> []" "hd target \<noteq> CHR ''/''" "path_entries target \<noteq> []"
  shows "\<exists>pos. pathList_symlinkSubstitute (rooted R xs t) (length R + i) target =
    Ret (Some (rooted R (foldl step_entry (take i xs) (path_entries target) @ drop (i + 1) xs) True, pos))"
proof -
  have nd: "''..'' \<notin> set (take i xs)" using assms(3) by (auto dest: in_set_takeD)
  have ne: "take i xs \<noteq> []" using assms(4,5) by auto
  define ws where "ws = foldl step_entry (take i xs) (path_entries target)"
  have r: "pathList_symlinkResolve (rooted R (take i xs) True) target = Ret (Some (linked_path R Linked ws))"
    using symlinkResolve_relative [OF assms(1,2) nd ne assms(6-8), of True] by (simp add: ws_def)
  from substitute_rooted [OF assms(1-4), where target = target and t = t] r obtain q ws' pos where
    e: "linked_path R Linked ws = linked_path R q ws'"
      "pathList_symlinkSubstitute (rooted R xs t) (length R + i) target =
        Ret (Some (rooted R (target_entries q (take (i + 1) xs) ws' @ drop (i + 1) xs) True, pos))" by auto
  from linked_path_inject [OF e(1) assms(1)] have "ws' = ws" "ws = [] \<or> q = Linked" by auto
  then show ?thesis using e(2) by (auto simp: target_entries_def ws_def)
qed

text \<open>
  Links directly in the root are mishandled, because the first component of their target is made its
  own parent: an absolute target that does not start with the name of the link loses its first entry, a
  relative target that starts with \<open>..\<close> is freed twice, and a target without entries makes the
  code write through a NULL pointer.
\<close>

theorem link_in_root_mishandled:
  assumes "R \<noteq> []" "''..'' \<notin> set R" "''..'' \<notin> set (x # xs)"
    and "\<forall>e\<in>set (v # vs). entry_ok e \<and> e \<noteq> ''..''" "x \<noteq> v"
  shows "(\<exists>pos. pathList_symlinkSubstitute (rooted R (x # xs) t) (length R) (path_text (v # vs)) =
           Ret (Some (rooted R (vs @ xs) True, pos))) \<and>
    pathList_symlinkSubstitute (rooted R (x # xs) t) (length R) ''../y'' = OutOfBounds \<and>
    pathList_symlinkSubstitute (rooted R (x # xs) t) (length R) ''/'' = OutOfBounds"
proof -
  have ok: "path_entries (path_text (v # vs)) = v # vs" by (rule path_entries_text) (use assms(4) in blast)
  then have n: "normal_entries (path_entries (path_text (v # vs))) = v # vs"
    using normal_entries_id [of "v # vs"] assms(4) by auto
  note S = substitute_rooted [OF assms(1-3), of 0, simplified, where t = t]
  have "\<exists>pos. pathList_symlinkSubstitute (rooted R (x # xs) t) (length R) (path_text (v # vs)) =
           Ret (Some (rooted R (vs @ xs) True, pos))"
  proof -
    have "pathList_symlinkResolve (rooted R [] True) (path_text (v # vs)) = Ret (Some (linked_path R Itself (v # vs)))"
      by (rule symlinkResolve_root_absolute [OF assms(1,2) _ _ n]) simp_all
    with S [of "path_text (v # vs)"] obtain q ws pos where
      e: "linked_path R Itself (v # vs) = linked_path R q ws"
        "pathList_symlinkSubstitute (rooted R (x # xs) t) (length R) (path_text (v # vs)) =
          Ret (Some (rooted R (target_entries q [x] ws @ xs) True, pos))" by auto
    from linked_path_inject [OF e(1) assms(1)] have "q = Itself" "ws = v # vs" by auto
    then show ?thesis using e(2) assms(5) by (simp add: target_entries_def)
  qed
  moreover have "pathList_symlinkSubstitute (rooted R (x # xs) t) (length R) ''../y'' = OutOfBounds"
  proof -
    have p: "pathList_init ''../y'' = Some \<lparr>pl_comps = map plain [''..'', ''y''], pl_relroot = False, pl_absolute = False, pl_terminal = True\<rparr>"
      by (simp add: pathList_init_def pathList_resolve_def strtok_all_def)
    have "resolve_from [] (chain R [] @ [(plain ''..'')\<lparr>pc_parent := Itself\<rparr>, plain ''y'']) = OutOfBounds"
      using resolve_skip [OF chain_no_dotdot [OF assms(1,2), of "[]"], of "[]"] by simp
    moreover have "take (length R) (chain R []) = chain R []" "chain R [] ! (length R - 1) = root_comp (last R)"
      "Suc (length R - Suc 0) = length R"
      using take_chain [OF assms(1), of 0 "[]"] nth_chain(2) [OF assms(1)] assms(1) by simp_all
    ultimately have "pathList_symlinkResolve (rooted R [] True) ''../y'' = OutOfBounds"
      using assms(1) by (simp add: pathList_symlinkResolve_def p Let_def pathList_resolve_def rooted_update)
    then show ?thesis using S [of "''../y''"] by simp
  qed
  moreover have "pathList_symlinkSubstitute (rooted R (x # xs) t) (length R) ''/'' = OutOfBounds"
  proof -
    have "pathList_init ''/'' = Some \<lparr>pl_comps = [], pl_relroot = False, pl_absolute = True, pl_terminal = True\<rparr>"
      by (simp add: pathList_init_def pathList_resolve_def strtok_all_def)
    then have "pathList_symlinkResolve (rooted R [] True) ''/'' = OutOfBounds"
      by (simp add: pathList_symlinkResolve_def Let_def)
    then show ?thesis using S [of "''/''"] by simp
  qed
  ultimately show ?thesis by blast
qed

definition lib_link_world :: "world \<Rightarrow> bool" where
  "lib_link_world w \<longleftrightarrow>
     (\<forall>tr. r_rc (w_env w tr (Lstat ''/m'')) = 0 \<and> st_kind (r_stat (w_env w tr (Lstat ''/m''))) = KDirectory \<and>
           r_rc (w_env w tr (Lstat ''/m/lib'')) = 0 \<and> st_kind (r_stat (w_env w tr (Lstat ''/m/lib''))) = KSymlink \<and>
           r_text (w_env w tr (Readlink ''/m/lib'')) = Some ''/usr/lib'')"

lemma lib_link_back:
  "\<exists>q. pathList_symlinkSubstitute (rooted [''m''] [''lib''] True) 1 ''/usr/lib'' = Ret (Some (rooted [''m''] [''lib''] True, q)) \<and> q < 2"
proof -
  have t: "path_text [''usr'', ''lib''] = ''/usr/lib''" by simp
  have "normal_entries (path_entries ''/usr/lib'') = [''usr'', ''lib'']"
    by (simp add: path_entries_def strtok_all_def normal_entries_def step_entry_def)
  then have r: "pathList_symlinkResolve (rooted [''m''] [] True) ''/usr/lib'' = Ret (Some (linked_path [''m''] Itself [''usr'', ''lib'']))"
    by (intro symlinkResolve_root_absolute) simp_all
  from substitute_rooted [where R = "[''m'']" and xs = "[''lib'']" and i = 0 and target = "''/usr/lib''" and t = True] r obtain q ws pos where
    e: "linked_path [''m''] Itself [''usr'', ''lib''] = linked_path [''m''] q ws"
      "pathList_symlinkSubstitute (rooted [''m''] [''lib''] True) 1 ''/usr/lib'' =
        Ret (Some (rooted [''m''] (target_entries q [''lib''] ws) True, pos))"
      "pos < 1 + length (target_entries q [''lib''] ws)" by auto
  from linked_path_inject [OF e(1)] have "target_entries q [''lib''] ws = [''lib'']" by (auto simp: target_entries_def)
  then show ?thesis using e(2,3) by auto
qed

lemma lib_link_loop:
  "lib_link_world w \<Longrightarrow> p < 2 \<Longrightarrow> fst (run_state (realpath_loop fuel (rooted [''m''] [''lib''] True) (Some p)) w) = None"
proof (induction fuel arbitrary: p w)
  case (Suc n)
  have keep: "lib_link_world (w\<lparr>w_trace := tr\<rparr>)" for tr using Suc.prems(1) by (simp add: lib_link_world_def)
  from lib_link_back obtain q where
    q: "pathList_symlinkSubstitute (rooted [''m''] [''lib''] True) (Suc 0) ''/usr/lib'' = Ret (Some (rooted [''m''] [''lib''] True, q))" "q < 2"
    by auto
  have str: "pathList_stringPartial (rooted [''m''] [''lib''] True) (Some 0) = Some ''/m''"
    "pathList_stringPartial (rooted [''m''] [''lib''] True) (Some (Suc 0)) = Some ''/m/lib''"
    by (simp_all add: stringPartial_rooted PATH_MAX_def)
  have env: "r_rc (w_env w tr (Lstat ''/m'')) = 0" "st_kind (r_stat (w_env w tr (Lstat ''/m''))) = KDirectory"
    "r_rc (w_env w tr (Lstat ''/m/lib'')) = 0" "st_kind (r_stat (w_env w tr (Lstat ''/m/lib''))) = KSymlink"
    "r_text (w_env w tr (Readlink ''/m/lib'')) = Some ''/usr/lib''" for tr
    using Suc.prems(1) by (simp_all add: lib_link_world_def)
  consider "p = 0" | "p = Suc 0" using Suc.prems(2) by linarith
  then show ?case
  proof cases
    case 1
    then show ?thesis using str(1) env(1,2) Suc.IH [OF keep, of 1] by (simp add: run_bind)
  next
    case 2
    then show ?thesis using str(2) env(3-5) q(1) Suc.IH [OF keep q(2)] by (simp add: run_bind PATH_MAX_def)
  qed
qed simp


section \<open>Instances\<close>

definition mount_config :: UdiRootConfig where
  "mount_config = empty_UdiRootConfig\<lparr>udiMountPoint := Some ''/m''\<rparr>"

lemma mount_config_mount [simp]: "udiMountPoint mount_config = Some ''/m''"
  by (simp add: mount_config_def)

lemma sample_entries:
  "normal_entries (path_entries ''/m'') = [''m'']" "normal_entries (path_entries ''a/../b'') = [''b'']"
  "normal_entries (path_entries ''/a/./b'') = [''a'', ''b'']" "path_entries ''../c'' = [''..'', ''c'']"
  by (simp_all add: path_entries_def strtok_all_def normal_entries_def step_entry_def)

lemma realpath_plain_witness:
  "\<exists>w'. run_state (shifter_realpath 2 ''a/../b'' mount_config) calm_world = (Some (Ret (Some ''/m/b'')), w')"
proof -
  have "no_links calm_world" by (simp add: no_links_def calm_world_def calm_env_def success_def no_stat_def)
  then show ?thesis
    using realpath_plain [of mount_config "''/m''" "[''m'']" "[''b'']" "''a/../b''" calm_world 2] sample_entries
    by (simp add: PATH_MAX_def)
qed

lemma realpath_stays_inside_witness:
  "\<exists>w' zs. run_state (shifter_realpath 2 ''a/../b'' mount_config) calm_world = (Some (Ret (Some ''/m/b'')), w') \<and>
     ''/m/b'' = path_text (''m'' # zs) \<and> ''..'' \<notin> set zs"
proof -
  have nl: "no_links calm_world" by (simp add: no_links_def calm_world_def calm_env_def success_def no_stat_def)
  have s: "realpath_search ''/m'' ''a/../b'' = Ret (Some (rooted [''m''] [''b''] True))"
    using realpath_search_eq [of "''/m''" "''a/../b''"] sample_entries by auto
  from realpath_loop_plain [of "[''m'']" "[''b'']" calm_world 0 2 True] nl obtain w' where
    "run_state (realpath_loop 2 (rooted [''m''] [''b''] True) (Some 0)) calm_world = (Some (Ret (Some (rooted [''m''] [''b''] True))), w')"
    by (auto simp: PATH_MAX_def)
  then have r: "run_state (shifter_realpath 2 ''a/../b'' mount_config) calm_world = (Some (Ret (Some ''/m/b'')), w')"
    using s by (simp add: shifter_realpath_def run_bind pathList_string_rooted PATH_MAX_def)
  from realpath_stays_inside [OF mount_config_mount r] show ?thesis
    using r sample_entries(1) by (auto simp: Let_def)
qed

lemma pathList_normal_form_witness:
  "\<exists>p. pathList_init ''/a/./b'' = Some p \<and> pathList_string p = Some ''/a/b''"
  using pathList_normal_form [of "''/a/./b''" "[''a'', ''b'']"] sample_entries by (auto simp: PATH_MAX_def)

lemma relative_link_substituted_witness:
  "\<exists>pos. pathList_symlinkSubstitute (rooted [''m''] [''a'', ''l'', ''z''] True) 2 ''../c'' =
     Ret (Some (rooted [''m''] [''c'', ''z''] True, pos))"
  using relative_link_substituted [of "[''m'']" "[''a'', ''l'', ''z'']" 1 "''../c''" True] sample_entries
  by (simp add: step_entry_def numeral_2_eq_2)

lemma link_in_root_mishandled_witness:
  "pathList_symlinkSubstitute (rooted [''m''] [''l''] True) 1 ''../y'' = OutOfBounds \<and>
   (\<exists>pos. pathList_symlinkSubstitute (rooted [''m''] [''l''] True) 1 ''/a/b'' = Ret (Some (rooted [''m''] [''b''] True, pos)))"
  using link_in_root_mishandled [of "[''m'']" "''l''" "[]" "''a''" "[''b'']" True] by (simp add: entry_ok_def)


end
