(* ===== verification/Accounts.thy ===== *)
theory Accounts
  imports CoreMount
begin

text \<open>
  src/src/shifter_core.c, the part about users and privileges: the lookup of users and of their
  groups, the filter of the container's group file and the capability bounding set. \<open>junk\<close> is what
  an array on the stack or a fresh block holds before the program writes to it.
\<close>

section \<open>Users\<close>

definition first_user :: "(passwd \<Rightarrow> bool) \<Rightarrow> reply \<Rightarrow> passwd option" where
  "first_user sel r = (case r_users r of None \<Rightarrow> None | Some us \<Rightarrow> find sel us)"

definition passwd_file :: "UdiRootConfig \<Rightarrow> cstring" where
  "passwd_file config = path_buffer (show_str (etcPath config) @ ''/passwd'')"

definition shifter_getpwuid :: "nat \<Rightarrow> UdiRootConfig \<Rightarrow> passwd option sys" where
  "shifter_getpwuid tgtuid config =
     (if allowLibcPwdCalls config then do {
        r \<leftarrow> syscall (Getpwuid tgtuid);
        yield (first_user (\<lambda>pw. True) r)
      } else do {
        r \<leftarrow> syscall (ReadPasswd (passwd_file config));
        yield (first_user (\<lambda>pw. pw_uid pw = tgtuid) r)
      })"

definition shifter_getpwnam :: "cstring \<Rightarrow> UdiRootConfig \<Rightarrow> passwd option sys" where
  "shifter_getpwnam tgtnam config =
     (if allowLibcPwdCalls config then do {
        r \<leftarrow> syscall (Getpwnam tgtnam);
        yield (first_user (\<lambda>pw. True) r)
      } else do {
        r \<leftarrow> syscall (ReadPasswd (passwd_file config));
        yield (first_user (\<lambda>pw. pw_name pw = tgtnam) r)
      })"

section \<open>Groups of a user\<close>

text \<open>
  The first call only asks for the number of groups. It fails because the buffer has no room; a call
  that succeeds although there are groups leaves no list at all.
\<close>

definition fill_groups :: "nat \<Rightarrow> nat list \<Rightarrow> nat list" where
  "fill_groups grp gs = (if gs = [] then [grp] else map (\<lambda>g. if g = 0 then grp else g) gs)"

definition shifter_getgrouplist :: "cstring option \<Rightarrow> nat \<Rightarrow> nat list option sys" where
  "shifter_getgrouplist user grp =
     (case user of
        None \<Rightarrow> yield None
      | Some u \<Rightarrow>
          if grp = 0 \<or> u = ''root'' then yield None
          else do {
            q \<leftarrow> syscall (Getgrouplist u grp 0);
            (let n = length (r_ids q)
             in if r_rc q < 0 \<and> n > 0 then
                  if n > 512 then yield None
                  else do {
                    r \<leftarrow> syscall (Getgrouplist u grp n);
                    yield (if r_rc r < 0 then None else Some (fill_groups grp (take n (r_ids r))))
                  }
                else if n = 0 then yield (Some (fill_groups grp []))
                else yield None)
          })"

section \<open>The group file of the container\<close>

definition group_sep :: "char \<Rightarrow> bool" where
  "group_sep c \<longleftrightarrow> c = CHR '':'' \<or> c = CHR '',''"

text \<open>
  The loop over the tokens of a line, with the group's name, its id and whether the user is in it;
  it stops early when it has found both.
\<close>

fun scan_group ::
  "cstring \<Rightarrow> nat \<Rightarrow> cstring list \<Rightarrow> cstring option \<Rightarrow> nat \<Rightarrow> bool \<Rightarrow> cstring option \<times> nat \<times> bool" where
  "scan_group user counter [] name gid found = (name, gid, found)"
| "scan_group user counter (t # ts) name gid found =
     (let name' = (if counter = 0 then Some t else name);
          gid' = (if counter = 2 then strtoul10 t mod 2 ^ 32 else gid);
          found' = (if counter = 0 \<or> 2 < counter then found \<or> t = user else found)
      in if found' \<and> gid' \<noteq> 0 then (name', gid', found')
         else scan_group user (Suc counter) ts name' gid' found')"

definition group_entry :: "cstring \<Rightarrow> nat \<Rightarrow> cstring \<Rightarrow> cstring" where
  "group_entry name gid member = name @ '':x:'' @ show_int (to_i32 (int gid)) @ '':'' @ member @ [NL]"

definition filter_line :: "cstring \<Rightarrow> nat \<Rightarrow> cstring \<Rightarrow> nat \<Rightarrow> cstring \<times> nat" where
  "filter_line user maxGroups line foundGroups =
     (case scan_group user 0 (strtok_all group_sep (shifter_trim line)) None 0 False of
        (Some name, gid, found) \<Rightarrow>
          if gid = 0 then ([], foundGroups)
          else if found \<and> foundGroups < maxGroups then (group_entry name gid user, Suc foundGroups)
          else (group_entry name gid [], foundGroups)
      | (None, gid, found) \<Rightarrow> ([], foundGroups))"

fun filter_lines :: "cstring \<Rightarrow> nat \<Rightarrow> cstring list \<Rightarrow> nat \<Rightarrow> cstring" where
  "filter_lines user maxGroups [] foundGroups = []"
| "filter_lines user maxGroups (l # ls) foundGroups =
     (case filter_line user maxGroups l foundGroups of
        (out, foundGroups') \<Rightarrow> out @ filter_lines user maxGroups ls foundGroups')"

text \<open>
  The loop tests for the end of the file before it reads, and the -1 of \<open>getline\<close> is not 0 as a
  \<open>size_t\<close>. So the buffer is processed once more after the last complete line, the way \<open>strtok_r\<close> has
  left it: cut behind the first token.
\<close>

definition cut_buffer :: "cstring \<Rightarrow> cstring" where
  "cut_buffer line =
     (let lead = takeWhile isspace line;
          body = shifter_trim line;
          seps = takeWhile group_sep body
      in lead @ seps @ takeWhile (\<lambda>c. \<not> group_sep c) (drop (length seps) body))"

definition group_lines :: "cstring \<Rightarrow> cstring \<Rightarrow> cstring list" where
  "group_lines junk contents =
     (let ls = file_lines contents
      in if ls = [] then [junk]
         else if last (last ls) = NL then ls @ [cut_buffer (last ls)] else ls)"

definition filterEtcGroup :: "cstring \<Rightarrow> cstring \<Rightarrow> cstring \<Rightarrow> cstring \<Rightarrow> nat \<Rightarrow> int sys" where
  "filterEtcGroup junk group_dest_fname group_source_fname user maxGroups =
     (if group_dest_fname = [] \<or> group_source_fname = [] \<or> user = [] then yield 1
      else do {
        i \<leftarrow> syscall (ReadFile group_source_fname);
        f \<leftarrow> syscall (CreateFile group_dest_fname);
        (case r_text i of
           None \<Rightarrow> yield 1
         | Some contents \<Rightarrow>
             if r_rc f \<noteq> 0 then yield 1
             else do {
               w \<leftarrow> syscall (AppendFile group_dest_fname
                      (filter_lines user maxGroups (group_lines junk contents) 0));
               yield 0
             })
      })"

section \<open>Capabilities\<close>

definition PR_CAPBSET_READ :: nat where "PR_CAPBSET_READ = 23"
definition PR_CAPBSET_DROP :: nat where "PR_CAPBSET_DROP = 24"
definition EINVAL :: nat where "EINVAL = 22"
definition R_OK :: nat where "R_OK = 4"

definition cap_last_file :: cstring where
  "cap_last_file = ''/proc/sys/kernel/cap_last_cap''"

fun probe_capabilities :: "nat list \<Rightarrow> nat option sys" where
  "probe_capabilities [] = yield None"
| "probe_capabilities (idxCap # idxs) =
     do {
       r \<leftarrow> syscall (Prctl PR_CAPBSET_READ idxCap);
       if r_rc r < 0 then yield (if 0 < idxCap \<and> r_errno r = EINVAL then Some (idxCap - 1) else None)
       else probe_capabilities idxs
     }"

text \<open>
  \<open>capLast\<close> is \<open>CAP_LAST_CAP\<close> of the headers the program was compiled with. The array that the file
  is read into is not terminated, so the number is read from its bytes and what follows them.
\<close>

definition shifter_get_max_capability :: "nat \<Rightarrow> cstring \<Rightarrow> nat option sys" where
  "shifter_get_max_capability capLast junk =
     do {
       a \<leftarrow> syscall (Access cap_last_file R_OK);
       if r_rc a = 0 then do {
         f \<leftarrow> syscall (ReadFile cap_last_file);
         (case r_text f of
            None \<Rightarrow> yield None
          | Some buffer \<Rightarrow>
              if 0 < length buffer \<and> length buffer < 100
              then yield (Some (max capLast (strtoul10 (buffer @ junk))))
              else yield None)
       }
       else probe_capabilities [0..<100]
     }"

fun drop_capabilities :: "nat list \<Rightarrow> int \<Rightarrow> int sys" where
  "drop_capabilities [] ret = yield ret"
| "drop_capabilities (idx # idxs) ret =
     do {
       r \<leftarrow> syscall (Prctl PR_CAPBSET_DROP idx);
       drop_capabilities idxs (if r_rc r \<noteq> 0 then 1 else ret)
     }"

definition shifter_set_capability_boundingset_null :: "nat \<Rightarrow> cstring \<Rightarrow> int sys" where
  "shifter_set_capability_boundingset_null capLast junk =
     do {
       p \<leftarrow> shifter_get_max_capability capLast junk;
       (case p of
          None \<Rightarrow> yield 1
        | Some possibleMaxCap \<Rightarrow>
            let maxCap = max capLast possibleMaxCap
            in if 100 \<le> maxCap then yield 1 else drop_capabilities [0..<Suc maxCap] 0)
     }"

section \<open>The groups the program assumes\<close>

lemma fill_groups_rooted: "grp \<noteq> 0 \<Longrightarrow> fill_groups grp gs \<noteq> [] \<and> 0 \<notin> set (fill_groups grp gs)"
  by (auto simp: fill_groups_def)

text \<open>
  The list of groups that a process of the container gets is never empty and never contains the
  group of root, has at most 512 entries, and there is none for the user root or the group 0.
\<close>

theorem groups_without_root:
  "effects (shifter_getgrouplist user grp) (\<lambda>gl es.
     case gl of
       None \<Rightarrow> True
     | Some gs \<Rightarrow> user \<noteq> None \<and> user \<noteq> Some ''root'' \<and> grp \<noteq> 0 \<and> gs \<noteq> [] \<and> 0 \<notin> set gs \<and> length gs \<le> 512)"
proof -
  have len: "length (fill_groups grp (take n gs)) \<le> 512" if "\<not> 512 < n" for n gs
  proof -
    have "length (take n gs) \<le> 512" using that by simp
    then show ?thesis unfolding fill_groups_def by (simp only: length_map list.size split: if_split) simp
  qed
  have one: "length (fill_groups grp []) \<le> 512" by (simp add: fill_groups_def)
  show ?thesis
    unfolding shifter_getgrouplist_def
    by (auto intro!: effects_yield effects_call_bind split: option.split
        simp: Let_def fill_groups_rooted one len)
qed

section \<open>The filtered group file\<close>

text \<open>A group file whose fields are all filled in, and what the container gets for it.\<close>

type_synonym group_row = "cstring \<times> cstring \<times> nat \<times> cstring list"

definition plain_field :: "cstring \<Rightarrow> bool" where
  "plain_field s \<longleftrightarrow> s \<noteq> [] \<and> (\<forall>c\<in>set s. \<not> group_sep c \<and> \<not> isspace c)"

definition group_row_ok :: "group_row \<Rightarrow> bool" where
  "group_row_ok row =
     (case row of (n, p, g, ms) \<Rightarrow>
        plain_field n \<and> plain_field p \<and> 0 < g \<and> g < 2 ^ 31 \<and> (\<forall>m\<in>set ms. plain_field m))"

definition group_text :: "group_row \<Rightarrow> cstring" where
  "group_text row = (case row of (n, p, g, ms) \<Rightarrow> join_with '':'' [n, p, show_nat g, join_with '','' ms])"

definition group_file :: "group_row list \<Rightarrow> cstring" where
  "group_file rows = concat (map (\<lambda>row. group_text row @ [NL]) rows)"

fun stub_rows :: "cstring \<Rightarrow> nat \<Rightarrow> group_row list \<Rightarrow> cstring" where
  "stub_rows user k [] = []"
| "stub_rows user k ((n, p, g, ms) # rows) =
     (if (n = user \<or> user \<in> set ms) \<and> 0 < k
      then n @ '':x:'' @ show_nat g @ '':'' @ user @ [NL] @ stub_rows user (k - 1) rows
      else n @ '':x:'' @ show_nat g @ '':'' @ [NL] @ stub_rows user k rows)"

lemma strtok_all_field:
  "plain_field a \<Longrightarrow> group_sep x \<Longrightarrow> strtok_all group_sep (a @ x # b) = a # strtok_all group_sep b"
  by (simp add: strtok_all_def split_on_append plain_field_def)

lemma strtok_all_last: "plain_field a \<Longrightarrow> strtok_all group_sep a = [a]"
  by (intro strtok_all_none) (simp_all add: plain_field_def)

lemma group_sep_marks: "group_sep (CHR '':'')" "group_sep (CHR '','')"
  by (simp_all add: group_sep_def)

lemma strtok_all_members:
  "\<forall>m\<in>set ms. plain_field m \<Longrightarrow> strtok_all group_sep (join_with '','' ms) = ms"
proof (induction ms rule: induct_list012)
  case 1
  show ?case by (simp add: strtok_all_def)
next
  case (2 x)
  then show ?case by (simp add: strtok_all_last)
next
  case (3 x y zs)
  then show ?case by (simp add: strtok_all_field group_sep_marks)
qed

lemma plain_number: "plain_field (show_nat g)"
  using show_nat_digits [of g] digit_not_space
  by (fastforce simp: plain_field_def group_sep_def isdigit_def code_def)

lemma group_tokens:
  assumes "group_row_ok (n, p, g, ms)"
  shows "strtok_all group_sep (group_text (n, p, g, ms)) = n # p # show_nat g # ms"
  using assms
  by (simp add: group_row_ok_def group_text_def strtok_all_field strtok_all_members plain_number group_sep_marks)

lemma join_not_space:
  "\<forall>m\<in>set ms. plain_field m \<Longrightarrow> c \<in> set (join_with '','' ms) \<Longrightarrow> \<not> isspace c"
  by (induction ms rule: induct_list012)
     (auto simp: plain_field_def isspace_def code_def)

lemma no_space_trimmed: "\<forall>c\<in>set s. \<not> isspace c \<Longrightarrow> trimmed s"
  by (cases "s = []") (auto simp: trimmed_def)

lemma group_text_not_space:
  assumes "group_row_ok row"
  shows "\<forall>c\<in>set (group_text row). \<not> isspace c"
proof -
  obtain n p g ms where row: "row = (n, p, g, ms)" by (cases row)
  have colon: "\<not> isspace (CHR '':'')" by (simp add: isspace_def code_def)
  show ?thesis
    using assms plain_number [of g] join_not_space [of ms] colon
    by (auto simp: row group_row_ok_def group_text_def plain_field_def)
qed

lemma NL_space: "isspace NL"
  by (simp add: isspace_def code_def NL_def)

lemma trim_group_line:
  assumes "group_row_ok row"
  shows "shifter_trim (group_text row @ [NL]) = group_text row"
  using shifter_trim_pad [of "[]" "[NL]" "group_text row"] NL_space
    no_space_trimmed [OF group_text_not_space [OF assms]] by simp

lemma strtoul10_show_nat: "g < 2 ^ 64 \<Longrightarrow> strtoul10 (show_nat g) = g"
  using strtol10_show_nat [of "[]" g] by (simp add: strtoul10_def)

lemma scan_members:
  "2 < k \<Longrightarrow> gid \<noteq> 0 \<Longrightarrow> scan_group user k ms name gid False = (name, gid, user \<in> set ms)"
  by (induction ms arbitrary: k) (auto simp: Let_def)

lemma scan_group_row:
  assumes "group_row_ok (n, p, g, ms)"
  shows "scan_group user 0 (n # p # show_nat g # ms) None 0 False = (Some n, g, n = user \<or> user \<in> set ms)"
proof -
  have g: "strtoul10 (show_nat g) mod 2 ^ 32 = g" "g \<noteq> 0"
    using assms strtoul10_show_nat [of g] by (simp_all add: group_row_ok_def)
  have step: "scan_group user 0 (n # p # show_nat g # ms) None 0 False =
      scan_group user 2 (show_nat g # ms) (Some n) 0 (n = user)"
    by (simp add: Let_def numeral_2_eq_2)
  have third: "scan_group user 2 (show_nat g # ms) (Some n) 0 (n = user) =
      (if n = user then (Some n, g, True) else scan_group user 3 ms (Some n) g False)"
    using g by (simp add: Let_def numeral_3_eq_3)
  show ?thesis
    unfolding step third by (simp add: scan_members g)
qed

lemma show_gid: "g < 2 ^ 31 \<Longrightarrow> show_int (to_i32 (int g)) = show_nat g"
proof -
  assume "g < 2 ^ 31"
  then have "(int g + 2 ^ 31) mod 2 ^ 32 = int g + 2 ^ 31" by (intro mod_pos_pos_trivial) simp_all
  then show ?thesis by (simp add: to_i32_def show_int_def)
qed

lemma filter_group_line:
  assumes "group_row_ok (n, p, g, ms)"
  shows "filter_line user m (group_text (n, p, g, ms) @ [NL]) k =
    (if (n = user \<or> user \<in> set ms) \<and> k < m then (group_entry n g user, Suc k) else (group_entry n g [], k))"
proof -
  have "g \<noteq> 0" using assms by (simp add: group_row_ok_def)
  then show ?thesis
    by (simp only: filter_line_def trim_group_line [OF assms] group_tokens [OF assms]
        scan_group_row [OF assms] prod.case option.case if_False)
qed

lemma cut_group_line:
  assumes "group_row_ok (n, p, g, ms)"
  shows "filter_line user m (cut_buffer (group_text (n, p, g, ms) @ [NL])) k = ([], k)"
proof -
  have n: "plain_field n" and row: "group_text (n, p, g, ms) = n @ CHR '':'' # p @ '':'' @ show_nat g @ '':'' @ join_with '','' ms"
    using assms by (simp_all add: group_row_ok_def group_text_def)
  obtain c r where c: "n = c # r" using n by (cases n) (simp_all add: plain_field_def)
  have lead: "takeWhile isspace (group_text (n, p, g, ms) @ [NL]) = []"
    unfolding row using n by (simp add: c plain_field_def)
  have seps: "takeWhile group_sep (group_text (n, p, g, ms)) = []"
    unfolding row using n by (simp add: c plain_field_def)
  have tok: "takeWhile (\<lambda>c. \<not> group_sep c) (group_text (n, p, g, ms)) = n"
    unfolding row by (rule takeWhile_all_append) (use n in \<open>simp_all add: plain_field_def group_sep_marks\<close>)
  have "cut_buffer (group_text (n, p, g, ms) @ [NL]) = n"
    by (simp only: cut_buffer_def lead trim_group_line [OF assms] seps tok Let_def append_Nil drop_0 list.size)
  moreover have "shifter_trim n = n"
    using n by (intro shifter_trim_id no_space_trimmed) (simp add: plain_field_def)
  ultimately show ?thesis
    using n by (simp add: filter_line_def strtok_all_last)
qed

lemma group_entry_row: "g < 2 ^ 31 \<Longrightarrow> group_entry n g mem = n @ '':x:'' @ show_nat g @ '':'' @ mem @ [NL]"
  by (simp add: group_entry_def show_gid)

lemma filter_group_rows:
  assumes "\<forall>row\<in>set rows. group_row_ok row" and "\<And>k. filter_line user m buf k = ([], k)"
  shows "filter_lines user m (map (\<lambda>row. group_text row @ [NL]) rows @ [buf]) k = stub_rows user (m - k) rows"
  using assms(1)
proof (induction rows arbitrary: k)
  case Nil
  then show ?case by (simp add: assms(2))
next
  case (Cons row rows)
  obtain n p g ms where row: "row = (n, p, g, ms)" by (cases row)
  have ok: "group_row_ok (n, p, g, ms)" "g < 2 ^ 31"
    using Cons.prems by (simp_all add: row group_row_ok_def)
  show ?case
    using Cons filter_group_line [OF ok(1), of user m k]
    by (simp add: row group_entry_row [OF ok(2)])
qed


definition sample_rows :: "group_row list" where
  "sample_rows = [(''staff'', ''x'', 50, [''ann'', ''bob'']), (''bob'', ''x'', 1000, []), (''wheel'', ''x'', 10, [''bob''])]"


section \<open>The bounding set\<close>

lemma probe_effects:
  "effects (probe_capabilities idxs) (\<lambda>p es. \<forall>e\<in>set es. \<exists>k. fst e = Prctl PR_CAPBSET_READ k)"
  by (induction idxs) (auto intro!: effects_yield effects_call_bind elim!: effects_mono)

lemma drop_effects:
  "effects (drop_capabilities idxs ret) (\<lambda>rc es.
     map fst es = map (Prctl PR_CAPBSET_DROP) idxs \<and>
     (rc = 0 \<longleftrightarrow> ret = 0 \<and> (\<forall>e\<in>set es. r_rc (snd e) = 0)))"
proof (induction idxs arbitrary: ret)
  case Nil
  then show ?case by (auto intro!: effects_yield)
next
  case (Cons idx idxs)
  show ?case
    unfolding drop_capabilities.simps
    by (rule effects_call_bind, rule effects_mono [OF Cons.IH]) auto
qed

text \<open>What the search for the largest capability has seen.\<close>

definition caps_seen :: "cstring \<Rightarrow> nat \<Rightarrow> event list \<Rightarrow> bool" where
  "caps_seen junk m es \<longleftrightarrow>
     (\<forall>c r. (c, r) \<in> set es \<longrightarrow>
        (\<exists>k. c = Prctl PR_CAPBSET_READ k) \<or> c = Access cap_last_file R_OK \<or>
        (c = ReadFile cap_last_file \<and> (\<exists>t. r_text r = Some t \<and> strtoul10 (t @ junk) \<le> m)))"

lemma max_capability_effects:
  "effects (shifter_get_max_capability capLast junk) (\<lambda>p es. \<forall>m. p = Some m \<longrightarrow> caps_seen junk m es)"
  unfolding shifter_get_max_capability_def
proof (rule effects_call_bind, goal_cases)
  case (1 a)
  show ?case
  proof (cases "r_rc a = 0")
    case True
    then show ?thesis
      by (auto intro!: effects_yield effects_call_bind split: option.split simp: caps_seen_def)
  next
    case False
    then show ?thesis
      by (auto intro!: effects_mono [OF probe_effects] simp: caps_seen_def)
  qed
qed

text \<open>
  When the function that empties the capability bounding set reports success, every capability
  has been dropped, one call each and none refused, up to the last one that the program was compiled
  with and the last one the running kernel names.
\<close>

theorem bounding_set_emptied:
  "effects (shifter_set_capability_boundingset_null capLast junk) (\<lambda>ret es.
     ret = 0 \<longrightarrow>
     (\<exists>m probe drops. capLast \<le> m \<and> m < 100 \<and> es = probe @ drops \<and>
        (\<forall>r t. (ReadFile cap_last_file, r) \<in> set probe \<and> r_text r = Some t \<longrightarrow> strtoul10 (t @ junk) \<le> m) \<and>
        map fst drops = map (Prctl PR_CAPBSET_DROP) [0..<Suc m] \<and> (\<forall>e\<in>set drops. r_rc (snd e) = 0)))"
  unfolding shifter_set_capability_boundingset_null_def
proof (rule effects_seq [OF max_capability_effects], goal_cases)
  case (1 p probe)
  show ?case
  proof (cases p)
    case None
    then show ?thesis by (auto intro!: effects_yield)
  next
    case (Some k)
    let ?m = "max capLast k"
    have seen: "caps_seen junk k probe" using 1 Some by simp
    then have last: "strtoul10 (t @ junk) \<le> ?m"
      if "(ReadFile cap_last_file, r) \<in> set probe" "r_text r = Some t" for r t
      using that unfolding caps_seen_def by fastforce
    show ?thesis
    proof (cases "100 \<le> ?m")
      case True
      with Some show ?thesis by (auto simp: Let_def intro!: effects_yield)
    next
      case False
      have run: "(case p of None \<Rightarrow> yield 1
          | Some c \<Rightarrow> let maxCap = max capLast c in if 100 \<le> maxCap then yield 1 else drop_capabilities [0..<Suc maxCap] 0) =
          drop_capabilities [0..<Suc ?m] 0"
        using Some False by (simp add: Let_def del: upt_Suc)
      show ?thesis
        unfolding run
      proof (intro effects_mono [OF drop_effects] impI, goal_cases)
        case (1 ret drops)
        show ?case
          by (intro exI [of _ ?m] exI [of _ probe] exI [of _ drops] conjI allI impI)
             (use 1 last False in auto)
      qed
    qed
  qed
qed

definition old_kernel :: "event list \<Rightarrow> syscall \<Rightarrow> reply" where
  "old_kernel es c =
     (case c of
        Access p m \<Rightarrow> success\<lparr>r_rc := -1\<rparr>
      | Prctl o' k \<Rightarrow> if o' = PR_CAPBSET_READ \<and> 2 < k then success\<lparr>r_rc := -1, r_errno := EINVAL\<rparr> else success
      | _ \<Rightarrow> success)"

theorem bounding_set_emptied_witness:
  "fst (run_state (shifter_set_capability_boundingset_null 1 []) \<lparr>w_env = old_kernel, w_trace = []\<rparr>) = 0 \<and>
   (\<exists>m probe drops. 1 \<le> m \<and> m < 100 \<and>
      map fst drops = map (Prctl PR_CAPBSET_DROP) [0..<Suc m] \<and>
      w_trace (snd (run_state (shifter_set_capability_boundingset_null 1 []) \<lparr>w_env = old_kernel, w_trace = []\<rparr>)) = probe @ drops)"
proof -
  have up: "[0..<100] = 0 # 1 # 2 # 3 # [4..<100::nat]" by (simp add: upt_rec)
  have zero: "fst (run_state (shifter_set_capability_boundingset_null 1 []) \<lparr>w_env = old_kernel, w_trace = []\<rparr>) = 0"
    by (simp add: shifter_set_capability_boundingset_null_def shifter_get_max_capability_def up old_kernel_def
        run_bind success_def Let_def PR_CAPBSET_READ_def PR_CAPBSET_DROP_def EINVAL_def upt_rec)
  then show ?thesis
    using bounding_set_emptied [of 1 "[]"] unfolding effects_def by fastforce
qed

end
