(* ===== verification/SavedConfig.thy ===== *)
theory SavedConfig
  imports CoreMount ImageData
begin

text \<open>
  src/src/shifter_core.c, the files the program leaves in the container: the description of what was
  set up (so that a later run can tell whether the same container is loaded), and the list of the
  hosts of a job.
\<close>

section \<open>The saved configuration\<close>

definition quoted :: "cstring \<Rightarrow> cstring" where
  "quoted s = DQUOTE # s @ [DQUOTE]"

definition module_names :: "UdiRootConfig \<Rightarrow> cstring list" where
  "module_names config = map (\<lambda>i. m_name (modules config ! i)) (active_modules config)"

definition module_list :: "UdiRootConfig \<Rightarrow> cstring" where
  "module_list config =
     (case strcatf_all sb_null (map (\<lambda>name. name @ '','') (module_names config)) of
        Ret (Some sb) \<Rightarrow> sb_string sb
      | _ \<Rightarrow> [])"

text \<open>The signature sorts the canonical texts of the map in place.\<close>

definition generateShifterConfigString ::
  "cstring \<Rightarrow> ImageData \<Rightarrow> VolumeMap \<Rightarrow> UdiRootConfig \<Rightarrow> cstring \<times> VolumeMap" where
  "generateShifterConfigString user img volumeMap config =
     (case getVolMapSignature volumeMap of
        (volMapSig, volumeMap') \<Rightarrow>
          (''{'' @ quoted ''identifier'' @ '':'' @ quoted (show_str (i_identifier img)) @ '','' @
           quoted ''user'' @ '':'' @ quoted user @ '','' @
           quoted ''volMap'' @ '':'' @ quoted (case volMapSig of None \<Rightarrow> [] | Some t \<Rightarrow> t) @ '','' @
           quoted ''modules'' @ '':'' @ quoted (module_list config) @ ''}'', volumeMap'))"

definition config_file :: "UdiRootConfig \<Rightarrow> cstring" where
  "config_file udiConfig = path_buffer (show_str (udiMountPoint udiConfig) @ ''/var/shifterConfig.json'')"

definition saveShifterConfig ::
  "cstring \<Rightarrow> ImageData \<Rightarrow> VolumeMap \<Rightarrow> UdiRootConfig \<Rightarrow> (int \<times> VolumeMap) sys" where
  "saveShifterConfig user img volumeMap udiConfig =
     (case generateShifterConfigString user img volumeMap udiConfig of
        (configString, volumeMap') \<Rightarrow>
          do {
            f \<leftarrow> syscall (CreateFile (config_file udiConfig));
            if r_rc f \<noteq> 0 then yield (1, volumeMap')
            else do {
              w \<leftarrow> syscall (AppendFile (config_file udiConfig) (configString @ [NL]));
              yield (0, volumeMap')
            }
          })"

text \<open>Only as many bytes are read as the expected text has.\<close>

definition compareShifterConfig ::
  "cstring \<Rightarrow> ImageData \<Rightarrow> VolumeMap \<Rightarrow> UdiRootConfig \<Rightarrow> (int \<times> VolumeMap) sys" where
  "compareShifterConfig user img volumeMap udiConfig =
     (case generateShifterConfigString user img volumeMap udiConfig of
        (configString, volumeMap') \<Rightarrow>
          do {
            f \<leftarrow> syscall (ReadFile (config_file udiConfig));
            yield (case r_text f of
                None \<Rightarrow> -1
              | Some t \<Rightarrow>
                  let buffer = take (length configString) t
                  in if length buffer = length configString then strcmp configString buffer else -1,
              volumeMap')
          })"

section \<open>The hosts of a job\<close>

text \<open>\<open>strtol\<close> saturates; its result is stored in an \<open>int\<close>.\<close>

definition strtol_int :: "cstring \<Rightarrow> int" where
  "strtol_int s = to_i32 (max (- (2 ^ 63)) (min (2 ^ 63 - 1) (fst (strtol10 s))))"

function host_lines :: "cstring \<Rightarrow> cstring \<times> bool" where
  "host_lines sptr =
     (if sptr = [] then ([], True)
      else case strchr_split (CHR ''/'') sptr of
        None \<Rightarrow> ([], False)
      | Some (hostname, rest) \<Rightarrow>
          let num = takeWhile (\<lambda>c. c \<noteq> CHR '' '') rest;
              n = strtol_int num
          in if n = 0 then ([], False)
             else (case host_lines (drop (length num + 1) rest) of
                     (out, ok) \<Rightarrow> (concat (replicate (nat n) (hostname @ [NL])) @ out, ok)))"
  by pat_completeness auto
termination
  by (relation "measure length") (auto dest!: strchr_split_length)

declare host_lines.simps [simp del]

definition hosts_file :: "UdiRootConfig \<Rightarrow> cstring" where
  "hosts_file udiConfig = path_buffer (show_str (udiMountPoint udiConfig) @ ''/var/hostsfile'')"

definition writeHostFile :: "cstring option \<Rightarrow> UdiRootConfig \<Rightarrow> int sys" where
  "writeHostFile minNodeSpec udiConfig =
     (case minNodeSpec of
        None \<Rightarrow> yield 1
      | Some spec \<Rightarrow> do {
          f \<leftarrow> syscall (CreateFile (hosts_file udiConfig));
          if r_rc f \<noteq> 0 then yield 1
          else do {
            w \<leftarrow> syscall (AppendFile (hosts_file udiConfig) (fst (host_lines spec)));
            yield (if snd (host_lines spec) then 0 else 1)
          }
        })"

section \<open>Facts about the saved configuration\<close>

definition quote_free :: "cstring \<Rightarrow> bool" where
  "quote_free s \<longleftrightarrow> DQUOTE \<notin> set s"

lemma quoted_split: "quote_free a \<Longrightarrow> quote_free b \<Longrightarrow> quoted a @ r = quoted b @ s \<longleftrightarrow> a = b \<and> r = s"
proof -
  assume "quote_free a" "quote_free b"
  then have "strchr_split DQUOTE (a @ DQUOTE # r) = Some (a, r)" "strchr_split DQUOTE (b @ DQUOTE # s) = Some (b, s)"
    by (simp_all add: strchr_split_append quote_free_def)
  then have "a @ DQUOTE # r = b @ DQUOTE # s \<longleftrightarrow> a = b \<and> r = s"
    by (metis option.inject prod.inject)
  then show ?thesis by (simp add: quoted_def)
qed

lemma module_list_concat: "module_list config = concat (map (\<lambda>name. name @ '','') (module_names config))"
  using strcatf_all_append [OF sb_wf_null(1), of "map (\<lambda>name. name @ '','') (module_names config)"]
  by (auto simp: module_list_def)

lemma comma_list_inject:
  assumes "\<forall>s\<in>set xs. CHR '','' \<notin> set s" "\<forall>s\<in>set ys. CHR '','' \<notin> set s"
    and "concat (map (\<lambda>s. s @ '','') xs) = concat (map (\<lambda>s. s @ '','') ys)"
  shows "xs = ys"
  using assms
proof (induction xs arbitrary: ys)
  case Nil
  then show ?case by (cases ys) auto
next
  case (Cons x xs)
  then obtain y ys' where ys: "ys = y # ys'" by (cases ys) auto
  have "strchr_split (CHR '','') (x @ CHR '','' # concat (map (\<lambda>s. s @ '','') xs)) =
      strchr_split (CHR '','') (y @ CHR '','' # concat (map (\<lambda>s. s @ '','') ys'))"
    using Cons.prems(3) ys by simp
  then have "x = y" "concat (map (\<lambda>s. s @ '','') xs) = concat (map (\<lambda>s. s @ '','') ys')"
    using Cons.prems(1,2) ys by (simp_all add: strchr_split_append)
  with Cons.IH [of ys'] Cons.prems(1,2) ys show ?case by simp
qed

text \<open>What makes a container: image, user, mounts in any order, modules in order.\<close>

definition plain_raws :: "VolumeMap \<Rightarrow> bool" where
  "plain_raws vm \<longleftrightarrow>
     vm_wf vm \<and> (\<forall>r\<in>set (sa_items (vm_raw vm)). r \<noteq> [] \<and> CHR '';'' \<notin> set r \<and> quote_free r)"

definition plain_request :: "cstring \<Rightarrow> ImageData \<Rightarrow> VolumeMap \<Rightarrow> UdiRootConfig \<Rightarrow> bool" where
  "plain_request user img vm config \<longleftrightarrow>
     quote_free user \<and> quote_free (show_str (i_identifier img)) \<and> plain_raws vm \<and>
     (\<forall>m\<in>set (module_names config). quote_free m \<and> CHR '','' \<notin> set m)"

definition container_key ::
  "cstring \<Rightarrow> ImageData \<Rightarrow> VolumeMap \<Rightarrow> UdiRootConfig \<Rightarrow> cstring \<times> cstring \<times> cstring multiset \<times> cstring list" where
  "container_key user img vm config =
     (show_str (i_identifier img), user, mset (sa_items (vm_raw vm)), module_names config)"

definition signature_text :: "VolumeMap \<Rightarrow> cstring" where
  "signature_text vm = (case fst (getVolMapSignature vm) of None \<Rightarrow> [] | Some t \<Rightarrow> t)"

lemma signature_text_join:
  "plain_raws vm \<Longrightarrow> signature_text vm = join_with '';'' (sort (sa_items (vm_raw vm)))"
proof (cases "vm_n vm = 0")
  case True
  assume "plain_raws vm"
  with True have "sa_items (vm_raw vm) = []" by (auto simp: plain_raws_def vm_wf_def)
  with True show ?thesis by (simp add: signature_text_def getVolMapSignature_def)
next
  case False
  assume "plain_raws vm"
  with False show ?thesis using signature_join [of vm] by (simp add: signature_text_def plain_raws_def)
qed

lemma join_empty: "\<forall>r\<in>set rs. r \<noteq> [] \<Longrightarrow> join_with sep rs = [] \<longleftrightarrow> rs = []"
  by (cases "(sep, rs)" rule: join_with.cases) auto

lemma split_join:
  assumes "rs \<noteq> []" "\<forall>r\<in>set rs. r \<noteq> [] \<and> CHR '';'' \<notin> set r"
  shows "split_on (\<lambda>c. c = CHR '';'') (join_with '';'' rs) = rs"
  by (rule split_on_join) (use assms in auto)

lemma signature_text_inject:
  assumes "plain_raws v" "plain_raws w"
  shows "signature_text v = signature_text w \<longleftrightarrow> mset (sa_items (vm_raw v)) = mset (sa_items (vm_raw w))"
proof -
  define rs where "rs = sort (sa_items (vm_raw v))"
  define ss where "ss = sort (sa_items (vm_raw w))"
  have plain: "\<forall>r\<in>set rs. r \<noteq> [] \<and> CHR '';'' \<notin> set r" "\<forall>r\<in>set ss. r \<noteq> [] \<and> CHR '';'' \<notin> set r"
    using assms by (auto simp: plain_raws_def rs_def ss_def)
  have "join_with '';'' rs = join_with '';'' ss \<longleftrightarrow> rs = ss"
  proof (cases "rs = [] \<or> ss = []")
    case True
    then show ?thesis using join_empty [of rs "'';''"] join_empty [of ss "'';''"] plain by fastforce
  next
    case False
    then show ?thesis using split_join [OF _ plain(1)] split_join [OF _ plain(2)] by metis
  qed
  moreover have "rs = ss \<longleftrightarrow> mset (sa_items (vm_raw v)) = mset (sa_items (vm_raw w))"
  proof
    assume "rs = ss"
    then have "mset rs = mset ss" by simp
    then show "mset (sa_items (vm_raw v)) = mset (sa_items (vm_raw w))" by (simp add: rs_def ss_def)
  next
    assume "mset (sa_items (vm_raw v)) = mset (sa_items (vm_raw w))"
    then show "rs = ss" unfolding rs_def by (intro properties_for_sort) (simp_all add: ss_def)
  qed
  ultimately show ?thesis
    by (simp add: signature_text_join assms rs_def [symmetric] ss_def [symmetric])
qed

definition key_text :: "cstring \<Rightarrow> cstring \<Rightarrow> cstring \<Rightarrow> cstring \<Rightarrow> cstring" where
  "key_text ident user sig mods =
     ''{'' @ quoted ''identifier'' @ '':'' @ quoted ident @ '','' @ quoted ''user'' @ '':'' @ quoted user @ '','' @
     quoted ''volMap'' @ '':'' @ quoted sig @ '','' @ quoted ''modules'' @ '':'' @ quoted mods @ ''}''"

lemma generate_key_text:
  "generateShifterConfigString user img vm config =
     (key_text (show_str (i_identifier img)) user (signature_text vm) (module_list config),
      snd (getVolMapSignature vm))"
  by (simp add: generateShifterConfigString_def key_text_def signature_text_def split: prod.split)

lemma key_text_inject:
  assumes "quote_free i" "quote_free u" "quote_free s" "quote_free m"
    and "quote_free i'" "quote_free u'" "quote_free s'" "quote_free m'"
  shows "key_text i u s m @ z = key_text i' u' s' m' @ z' \<longleftrightarrow> i = i' \<and> u = u' \<and> s = s' \<and> m = m' \<and> z = z'"
  unfolding key_text_def append_assoc same_append_eq using assms by (simp only: quoted_split same_append_eq simp_thms)

lemma quote_free_signature: "plain_raws vm \<Longrightarrow> quote_free (signature_text vm)"
proof -
  have "c \<in> set (join_with '';'' rs) \<Longrightarrow> c = CHR '';'' \<or> (\<exists>r\<in>set rs. c \<in> set r)" for c rs
    by (induction rs rule: induct_list012) auto
  then show "plain_raws vm \<Longrightarrow> quote_free (signature_text vm)"
    by (fastforce simp: signature_text_join quote_free_def plain_raws_def DQUOTE_def)
qed

lemma quote_free_modules:
  "\<forall>m\<in>set (module_names config). quote_free m \<Longrightarrow> quote_free (module_list config)"
  by (auto simp: module_list_concat quote_free_def DQUOTE_def)

lemma same_key_text:
  assumes "plain_request user img vm config" "plain_request user2 img2 vm2 config2"
  shows "key_text (show_str (i_identifier img2)) user2 (signature_text vm2) (module_list config2) @ z =
         key_text (show_str (i_identifier img)) user (signature_text vm) (module_list config) @ z' \<longleftrightarrow>
         container_key user2 img2 vm2 config2 = container_key user img vm config \<and> z = z'"
proof -
  have 1: "quote_free (signature_text vm)" "quote_free (module_list config)"
    and 2: "quote_free (signature_text vm2)" "quote_free (module_list config2)"
    using assms by (simp_all add: plain_request_def quote_free_signature quote_free_modules)
  have mods: "module_list config2 = module_list config \<longleftrightarrow> module_names config2 = module_names config"
    using comma_list_inject [of "module_names config2" "module_names config"] assms
    by (auto simp: module_list_concat plain_request_def)
  show ?thesis
    using assms 1 2 signature_text_inject [of vm2 vm]
    by (simp add: key_text_inject plain_request_def container_key_def mods)
qed

text \<open>
  C24. A later run recognises a loaded container exactly: comparing its own request with the file that
  an earlier run has saved gives 0 when, and only when, image, user, the set of volume mounts (in any
  order) and the list of modules are the same. A file that holds more than the expected text does not
  mislead the comparison, although only a prefix is read.
\<close>

theorem saved_config_identifies:
  assumes "plain_request user img vm config" and "plain_request user2 img2 vm2 config2"
  shows "effects (saveShifterConfig user img vm config) (\<lambda>saved es.
    fst saved \<noteq> 0 \<or>
    (\<exists>f w t. es = [(CreateFile (config_file config), f), (AppendFile (config_file config) t, w)] \<and> r_rc f = 0 \<and>
       effects (compareShifterConfig user2 img2 vm2 config2) (\<lambda>compared es2.
         \<exists>r. es2 = [(ReadFile (config_file config2), r)] \<and>
             (r_text r = Some t \<longrightarrow>
              (fst compared = 0 \<longleftrightarrow> container_key user2 img2 vm2 config2 = container_key user img vm config)))))"
proof -
  define t where "t = key_text (show_str (i_identifier img)) user (signature_text vm) (module_list config)"
  define t2 where "t2 = key_text (show_str (i_identifier img2)) user2 (signature_text vm2) (module_list config2)"
  have eq: "take (length t2) (t @ [NL]) = t2 \<longleftrightarrow> container_key user2 img2 vm2 config2 = container_key user img vm config"
    (is "_ \<longleftrightarrow> ?same")
  proof
    assume "take (length t2) (t @ [NL]) = t2"
    then have "t2 @ drop (length t2) (t @ [NL]) = t @ [NL]" by (metis append_take_drop_id)
    then show ?same using same_key_text [OF assms] unfolding t_def t2_def by blast
  next
    assume ?same
    then have "t2 @ [NL] = t @ [NL]" using same_key_text [OF assms] unfolding t_def t2_def by blast
    then show "take (length t2) (t @ [NL]) = t2" by simp
  qed
  have compare: "effects (compareShifterConfig user2 img2 vm2 config2) (\<lambda>compared es2.
         \<exists>r. es2 = [(ReadFile (config_file config2), r)] \<and>
             (r_text r = Some (t @ [NL]) \<longrightarrow> (fst compared = 0 \<longleftrightarrow> ?same)))"
    unfolding compareShifterConfig_def generate_key_text t2_def [symmetric] prod.case
    by (rule effects_call_bind, rule effects_yield)
       (use eq in \<open>auto simp: Let_def dest: arg_cong [where f = length]\<close>)
  show ?thesis
    unfolding saveShifterConfig_def generate_key_text t_def [symmetric] prod.case
    by (auto intro!: effects_yield effects_call_bind compare)
qed

lemma saved_config_identifies_witness:
  "effects (saveShifterConfig ''ann'' empty_ImageData empty_VolumeMap empty_UdiRootConfig) (\<lambda>saved es.
    fst saved \<noteq> 0 \<or>
    (\<exists>f w t. es = [(CreateFile (config_file empty_UdiRootConfig), f),
                   (AppendFile (config_file empty_UdiRootConfig) t, w)] \<and> r_rc f = 0 \<and>
       effects (compareShifterConfig ''bob'' empty_ImageData empty_VolumeMap empty_UdiRootConfig)
         (\<lambda>compared es2. \<exists>r. es2 = [(ReadFile (config_file empty_UdiRootConfig), r)] \<and>
            \<not> (r_text r = Some t \<and> fst compared = 0))))"
proof -
  have ok: "plain_request u empty_ImageData empty_VolumeMap empty_UdiRootConfig" if "DQUOTE \<notin> set u" for u
    using that
    by (simp add: plain_request_def quote_free_def plain_raws_def module_names_def empty_ImageData_def
        empty_UdiRootConfig_def show_str_def DQUOTE_def)
       (simp add: empty_VolumeMap_def sa_empty_def)
  have plain: "plain_request ''ann'' empty_ImageData empty_VolumeMap empty_UdiRootConfig"
    "plain_request ''bob'' empty_ImageData empty_VolumeMap empty_UdiRootConfig"
    by (simp_all add: ok DQUOTE_def)
  have "container_key ''bob'' empty_ImageData empty_VolumeMap empty_UdiRootConfig \<noteq>
        container_key ''ann'' empty_ImageData empty_VolumeMap empty_UdiRootConfig"
    by (simp add: container_key_def)
  then show ?thesis
    using saved_config_identifies [OF plain] by simp
qed

section \<open>The list of hosts\<close>

definition host_spec :: "(cstring \<times> nat) list \<Rightarrow> cstring" where
  "host_spec hs = join_with '' '' (map (\<lambda>(h, n). h @ ''/'' @ show_nat n) hs)"

lemma strtol_int_show_nat: "n < 2 ^ 31 \<Longrightarrow> strtol_int (show_nat n) = int n"
  using strtol10_show_nat [of "[]" n] by (simp add: strtol_int_def to_i32_def)

lemma number_no_blank: "takeWhile (\<lambda>c. c \<noteq> CHR '' '') (show_nat n @ r) = show_nat n"
  if "r = [] \<or> hd r = CHR '' ''"
  using that show_nat_digits [of n]
  by (intro takeWhile_all_append) (auto simp: isdigit_def code_def)

lemma host_lines_Nil [simp]: "host_lines [] = ([], True)"
  by (simp add: host_lines.simps)

lemma host_lines_entry:
  assumes "CHR ''/'' \<notin> set h" "0 < n" "n < 2 ^ 31" "r = [] \<or> hd r = CHR '' ''"
  shows "host_lines (h @ ''/'' @ show_nat n @ r) =
    (concat (replicate n (h @ [NL])) @ fst (host_lines (drop 1 r)), snd (host_lines (drop 1 r)))"
  using assms
  by (subst host_lines.simps)
     (simp add: strchr_split_append number_no_blank strtol_int_show_nat Let_def split: prod.split)

lemma host_lines_spec:
  assumes "\<forall>(h, n)\<in>set hs. CHR ''/'' \<notin> set h \<and> 0 < n \<and> n < 2 ^ 31"
  shows "host_lines (host_spec hs) = (concat (map (\<lambda>(h, n). concat (replicate n (h @ [NL]))) hs), True)"
  using assms
proof (induction hs)
  case Nil
  then show ?case by (simp add: host_spec_def)
next
  case (Cons x hs)
  obtain h n where x: "x = (h, n)" by (cases x)
  show ?case
  proof (cases hs)
    case Nil
    then show ?thesis
      using Cons.prems host_lines_entry [of h n "[]"] by (simp add: x host_spec_def)
  next
    case (Cons y ys)
    then have "host_spec (x # hs) = h @ ''/'' @ show_nat n @ CHR '' '' # host_spec hs"
      by (simp add: host_spec_def x)
    then show ?thesis
      using Cons.prems Cons.IH host_lines_entry [of h n "CHR '' '' # host_spec hs"] by (simp add: x)
  qed
qed

text \<open>
  For a node list of the form host1/n1 host2/n2 ... the hosts file that is written names each host
  once for each of its tasks, in order, and the function reports success exactly when it could open
  the file.
\<close>

theorem writeHostFile_spec:
  assumes "\<forall>(h, n)\<in>set hs. CHR ''/'' \<notin> set h \<and> 0 < n \<and> n < 2 ^ 31"
  shows "effects (writeHostFile (Some (host_spec hs)) config) (\<lambda>rc es.
    \<exists>f. (rc = 0 \<longleftrightarrow> r_rc f = 0) \<and>
      (if rc = 0
       then \<exists>w. es = [(CreateFile (hosts_file config), f),
              (AppendFile (hosts_file config) (concat (map (\<lambda>(h, n). concat (replicate n (h @ [NL]))) hs)), w)]
       else es = [(CreateFile (hosts_file config), f)]))"
  unfolding writeHostFile_def using host_lines_spec [OF assms]
  by (auto intro!: effects_yield effects_call_bind)

lemma writeHostFile_spec_witness:
  "effects (writeHostFile (Some (host_spec [(''nid1'', 2), (''nid2'', 1)])) empty_UdiRootConfig) (\<lambda>rc es.
    rc = 0 \<longrightarrow> (\<exists>f w. es = [(CreateFile (hosts_file empty_UdiRootConfig), f),
      (AppendFile (hosts_file empty_UdiRootConfig)
         (''nid1'' @ [NL] @ ''nid1'' @ [NL] @ ''nid2'' @ [NL]), w)]))"
  by (rule effects_mono [OF writeHostFile_spec [of "[(''nid1'', 2), (''nid2'', 1)]"]])
     (simp, auto simp: numeral_2_eq_2)

end
