(* ===== verification/VolumeMounts.thy ===== *)
theory VolumeMounts
  imports CoreMount ImageData PathList
begin

text \<open>
  src/src/shifter_core.c, the mounts a user or the site asks for: the loop mount of an image, the
  backing files of per-node caches, and the loop over the entries of a volume map that checks the
  source as the user, finds or creates the target, applies the policy and mounts.
\<close>

section \<open>Loop mounts\<close>

text \<open>
  What is fixed when the program is built or started: the directory of its helper programs, whether
  the kernel is older than 5.3 (then the mount helper gets the option autoclear), and the number of
  rounds that the resolution of a path may take here.
\<close>

record platform =
  p_libexecdir :: cstring
  p_autoclear :: bool
  p_fuel :: nat

definition mount_exec :: "platform \<Rightarrow> cstring" where
  "mount_exec pf = path_buffer (p_libexecdir pf @ ''/mount'')"

definition helper_trusted :: "stat_info \<Rightarrow> bool" where
  "helper_trusted st \<longleftrightarrow>
     st_uid st = 0 \<and> st_mode st AND S_IWGRP = 0 \<and> st_mode st AND S_IWOTH = 0 \<and> st_mode st AND S_IXUSR \<noteq> 0"

text \<open>The type for the mount helper and whether to ask for autoclear.\<close>

definition loop_type :: "platform \<Rightarrow> cstring list option \<Rightarrow> ImageFormat \<Rightarrow> (cstring \<times> bool) option" where
  "loop_type pf fstypes fmt =
     (case fmt of
        FORMAT_SQUASHFS \<Rightarrow>
          if supportsFilesystem fstypes (Some ''squashfs'') \<noteq> 0 then None else Some (''squashfs'', p_autoclear pf)
      | FORMAT_XFS \<Rightarrow>
          if supportsFilesystem fstypes (Some ''xfs'') \<noteq> 0 then None else Some (''xfs'', False)
      | _ \<Rightarrow> None)"

definition loop_options :: "bool \<Rightarrow> bool \<Rightarrow> cstring" where
  "loop_options readOnly useAutoclear =
     ''loop,nosuid,nodev'' @ (if readOnly then '',ro'' else []) @ (if useAutoclear then '',autoclear'' else [])"

definition loopMount :: "platform \<Rightarrow> cstring \<Rightarrow> cstring \<Rightarrow> ImageFormat \<Rightarrow> bool \<Rightarrow> int sys" where
  "loopMount pf imagePath loopMountPath fmt readOnly =
     do {
       fstypes \<leftarrow> getSupportedFilesystems;
       st \<leftarrow> syscall (Stat (mount_exec pf));
       if r_rc st \<noteq> 0 then yield 1
       else if \<not> helper_trusted (r_stat st) then yield 1
       else do {
         l \<leftarrow> syscall (Stat ''/dev/loop0'');
         if r_rc l \<noteq> 0 then yield 1
         else (case loop_type pf fstypes fmt of
                 None \<Rightarrow> yield 1
               | Some (imgType, useAutoclear) \<Rightarrow> do {
                   r \<leftarrow> forkAndExecvSilent
                     [mount_exec pf, ''-n'', ''-o'', loop_options readOnly useAutoclear, ''-t'', imgType,
                      imagePath, loopMountPath];
                   yield (if r \<noteq> 0 then 1 else 0)
                 })
       }
     }"

definition mountImageLoop :: "platform \<Rightarrow> ImageData \<Rightarrow> UdiRootConfig \<Rightarrow> int sys" where
  "mountImageLoop pf imageData udiConfig =
     (if \<not> i_useLoopMount imageData then yield 0
      else case loopMountPoint udiConfig of
        None \<Rightarrow> yield 1
      | Some lmp \<Rightarrow>
          if lmp = [] then yield 1
          else do {
            d \<leftarrow> syscall (Mkdir lmp 493);
            if r_rc d \<noteq> 0 \<and> r_errno d \<noteq> EEXIST then yield 1
            else do {
              r \<leftarrow> loopMount pf (path_buffer (show_str (i_filename imageData))) (path_buffer lmp)
                     (i_format imageData) True;
              yield (if r \<noteq> 0 then 1 else 0)
            }
          })"

section \<open>Backing files of per-node caches\<close>

definition cache_template :: "UdiRootConfig \<Rightarrow> cstring \<Rightarrow> cstring \<Rightarrow> cstring \<Rightarrow> cstring" where
  "cache_template udiConfig cpath hostname fstype =
     cpath @ ''/perNodeCache_uid'' @ show_int (to_i32 (int (target_uid udiConfig))) @ ''_gid'' @
     show_int (to_i32 (int (target_gid udiConfig))) @ ''_'' @ hostname @ ''.'' @ fstype @ ''.XXXXXX''"

text \<open>
  The result is the descriptor, negative on failure, and what the buffer holds then: \<open>mkstemp\<close> has
  replaced the end of the template.
\<close>

definition setupPerNodeCacheFilename ::
  "UdiRootConfig \<Rightarrow> VolMapPerNodeCacheConfig \<Rightarrow> cstring \<Rightarrow> nat \<Rightarrow> (int \<times> cstring) sys" where
  "setupPerNodeCacheFilename udiConfig cache buffer buffer_len =
     (case (cfstype cache, perNodeCachePath udiConfig) of
        (Some fstype, Some cpath) \<Rightarrow>
          if buffer_len = 0 \<or> cpath = [] then yield (-1, buffer)
          else if target_uid udiConfig = 0 \<or> target_gid udiConfig = 0 then yield (-1, buffer)
          else if length buffer > buffer_len then yield (-1, buffer)
          else do {
            h \<leftarrow> syscall Gethostname;
            if r_rc h \<noteq> 0 then yield (-1, buffer)
            else
              let tmpl = cache_template udiConfig cpath (show_str (r_text h)) fstype
              in if length tmpl \<ge> buffer_len then yield (-1, take (buffer_len - 1) tmpl)
                 else do {
                   u \<leftarrow> syscall (Umask 63);
                   f \<leftarrow> syscall (Mkstemp tmpl);
                   v \<leftarrow> syscall (Umask (nat (r_rc u)));
                   yield (if r_rc f < 0 then (-1, tmpl) else (r_rc f, show_str (r_text f)))
                 }
          }
      | _ \<Rightarrow> yield (-1, buffer))"

text \<open>Without the path of mkfs.xfs the process ends: None.\<close>

definition setupPerNodeCacheBackingStore ::
  "VolMapPerNodeCacheConfig \<Rightarrow> cstring \<Rightarrow> UdiRootConfig \<Rightarrow> int option sys" where
  "setupPerNodeCacheBackingStore cache buffer udiConfig =
     (case (cfstype cache, ddPath udiConfig) of
        (Some fstype, Some dd) \<Rightarrow> do {
          r \<leftarrow> forkAndExecvSilent
            [dd, ''if=/dev/zero'', ''of='' @ buffer, ''bs=1'', ''count=0'', ''seek='' @ show_lu (cacheSize cache)];
          if r \<noteq> 0 then yield (Some 1)
          else if fstype = ''xfs'' then
            (case mkfsXfsPath udiConfig of
               None \<Rightarrow> yield None
             | Some mkfs \<Rightarrow> do {
                 k \<leftarrow> forkAndExecvSilent
                   [mkfs, ''-d'', ''name='' @ buffer @ '',file=1,size='' @ show_lu (cacheSize cache)];
                 yield (Some (if k \<noteq> 0 then 1 else 0))
               })
          else yield (Some 0)
        }
      | _ \<Rightarrow> yield (Some 1))"

text \<open>
  The first loop over the flags: whether it ended well, the union of the flags seen, the name of the
  source (a cache replaces it) and whether its backing file exists.
\<close>

fun setup_caches ::
  "UdiRootConfig \<Rightarrow> VolumeMapFlag list \<Rightarrow> nat \<Rightarrow> cstring \<Rightarrow> bool \<Rightarrow> (bool \<times> nat \<times> cstring \<times> bool) option sys" where
  "setup_caches udiConfig [] flagsInEffect from_buffer backing =
     yield (Some (True, flagsInEffect, from_buffer, backing))"
| "setup_caches udiConfig (f # fs) flagsInEffect from_buffer backing =
     (case f of
        FLAG_PERNODECACHE cache \<Rightarrow> do {
          (fd, name) \<leftarrow> setupPerNodeCacheFilename udiConfig cache from_buffer PATH_MAX;
          if fd < 0 then yield (Some (False, flagsInEffect OR flag_type f, name, backing))
          else do {
            b \<leftarrow> setupPerNodeCacheBackingStore cache name udiConfig;
            (case b of
               None \<Rightarrow> yield None
             | Some rc \<Rightarrow>
                 if rc \<noteq> 0 then yield (Some (False, flagsInEffect OR flag_type f, name, backing))
                 else setup_caches udiConfig fs (flagsInEffect OR flag_type f) name True)
          }
        }
      | _ \<Rightarrow> setup_caches udiConfig fs (flagsInEffect OR flag_type f) from_buffer backing)"

section \<open>The source of a volume\<close>

definition saved_groups :: "nat list option sys" where
  "saved_groups =
     do {
       n \<leftarrow> syscall (Getgroups 0);
       if r_rc n < 0 then yield None
       else if r_rc n > 0 then do {
         g \<leftarrow> syscall (Getgroups (nat (r_rc n)));
         yield (if r_rc g \<le> 0 then None else Some (take (nat (r_rc g)) (r_ids g)))
       }
       else yield (Some [])
     }"

text \<open>The groups to go back to; None when the program could not become the user.\<close>

definition assume_user :: "UdiRootConfig \<Rightarrow> nat list option sys" where
  "assume_user udiConfig =
     (if auxiliary_gids udiConfig = [] \<or> target_uid udiConfig = 0 \<or> target_gid udiConfig = 0 then yield None
      else do {
        orig \<leftarrow> saved_groups;
        (case orig of
           None \<Rightarrow> yield None
         | Some orig_auxgids \<Rightarrow> do {
             s \<leftarrow> syscall (Setgroups (auxiliary_gids udiConfig));
             if r_rc s \<noteq> 0 then yield None
             else do {
               e \<leftarrow> syscall (Setegid (target_gid udiConfig));
               if r_rc e \<noteq> 0 then yield None
               else do {
                 u \<leftarrow> syscall (Seteuid (target_uid udiConfig));
                 yield (if r_rc u \<noteq> 0 then None else Some orig_auxgids)
               }
             }
           })
      })"

definition resume_privileges :: "nat \<Rightarrow> nat \<Rightarrow> nat list \<Rightarrow> bool sys" where
  "resume_privileges euid egid groups =
     do {
       u \<leftarrow> syscall (Seteuid euid);
       if r_rc u \<noteq> 0 then yield False
       else do {
         e \<leftarrow> syscall (Setegid egid);
         if r_rc e \<noteq> 0 then yield False
         else do {
           s \<leftarrow> syscall (Setgroups groups);
           yield (r_rc s = 0)
         }
       }
     }"

text \<open>
  Where the source really is. The outer None stands for a resolution that did not return in the rounds
  given to it or that used memory it had freed; the inner one for a source that is refused.
\<close>

definition locate_source ::
  "platform \<Rightarrow> bool \<Rightarrow> cstring \<Rightarrow> cstring \<Rightarrow> UdiRootConfig \<Rightarrow> cstring option option sys" where
  "locate_source pf userRequested filtered_from from_buffer udiConfig =
     do {
       p \<leftarrow> (if userRequested then do {
               s \<leftarrow> shifter_realpath (p_fuel pf) filtered_from udiConfig;
               yield (case s of Some (Ret found) \<Rightarrow> Some found | _ \<Rightarrow> None)
             } else yield (Some (Some from_buffer)));
       (case p of
          None \<Rightarrow> yield None
        | Some None \<Rightarrow> yield (Some None)
        | Some (Some path) \<Rightarrow> do {
            r \<leftarrow> syscall (Realpath path);
            (case r_text r of
               None \<Rightarrow> yield (Some None)
             | Some from_real \<Rightarrow> do {
                 l \<leftarrow> syscall (Lstat from_real);
                 yield (Some (if r_rc l \<noteq> 0 \<or> st_kind (r_stat l) \<noteq> KDirectory then None else Some from_real))
               })
          })
     }"

definition check_source ::
  "platform \<Rightarrow> bool \<Rightarrow> cstring \<Rightarrow> cstring \<Rightarrow> UdiRootConfig \<Rightarrow> cstring option option sys" where
  "check_source pf userRequested filtered_from from_buffer udiConfig =
     do {
       euid \<leftarrow> syscall Geteuid;
       egid \<leftarrow> syscall Getegid;
       if userRequested then do {
         a \<leftarrow> assume_user udiConfig;
         (case a of
            None \<Rightarrow> yield (Some None)
          | Some groups \<Rightarrow> do {
              s \<leftarrow> locate_source pf userRequested filtered_from from_buffer udiConfig;
              (case s of
                 Some (Some from_real) \<Rightarrow> do {
                   b \<leftarrow> resume_privileges (nat (r_rc euid)) (nat (r_rc egid)) groups;
                   yield (Some (if b then Some from_real else None))
                 }
               | other \<Rightarrow> yield other)
            })
       }
       else locate_source pf userRequested filtered_from from_buffer udiConfig
     }"

section \<open>The target of a volume\<close>

definition parent_path :: "cstring \<Rightarrow> cstring" where
  "parent_path p = rev (tl (dropWhile (\<lambda>c. c \<noteq> CHR ''/'') (rev p)))"

text \<open>The attributes of the target; it is made when its parent is on the device given for that.\<close>

definition find_target :: "cstring \<Rightarrow> nat \<Rightarrow> stat_info option sys" where
  "find_target to_buffer createToDev =
     do {
       l \<leftarrow> syscall (Lstat to_buffer);
       if r_rc l = 0 then yield (Some (r_stat l))
       else if createToDev = 0 \<or> CHR ''/'' \<notin> set to_buffer then yield None
       else do {
         d \<leftarrow> syscall (Lstat (parent_path to_buffer));
         if r_rc d = 0 \<and> st_dev (r_stat d) = createToDev then do {
           k \<leftarrow> syscall (Mkdir to_buffer 493);
           n \<leftarrow> syscall (Lstat to_buffer);
           yield (if r_rc n \<noteq> 0 then None else Some (r_stat n))
         }
         else yield None
       }
     }"

section \<open>The decision\<close>

definition below_udi :: "cstring \<Rightarrow> cstring \<Rightarrow> bool" where
  "below_udi udiMount p \<longleftrightarrow> length udiMount < length p \<and> prefix udiMount p"

definition volume_validator :: "bool \<Rightarrow> validator" where
  "volume_validator userRequested =
     (if userRequested then validateVolumeMap_userRequest else validateVolumeMap_siteRequest)"

text \<open>
  A table of devices that has not been set up is empty here. \<open>statData\<close> is what \<open>find_target\<close> saw; the
  owner of the target is compared with the effective user at this point.
\<close>

definition validate_mount ::
  "bool \<Rightarrow> UdiRootConfig \<Rightarrow> cstring \<Rightarrow> VolumeMapFlag list option \<Rightarrow> nat \<Rightarrow> cstring \<Rightarrow> cstring \<Rightarrow> stat_info \<Rightarrow> bool sys" where
  "validate_mount userRequested udiConfig udiMount flags flagsInEffect from_real to_real statData =
     (let inside = userRequested \<and> flagsInEffect AND VOLMAP_FLAG_PERNODECACHE = 0;
          container_from = (if inside then drop (length udiMount) from_real else from_real);
          container_to = drop (length udiMount) to_real
      in if \<not> below_udi udiMount to_real then yield False
         else if inside \<and> \<not> below_udi udiMount from_real then yield False
         else if volume_validator userRequested (Some container_from) (Some container_to) flags \<noteq> 0 then yield False
         else do {
           l \<leftarrow> syscall (Lstat to_real);
           if r_rc l \<noteq> 0 then yield False
           else if bindMountAllowedDevices udiConfig = [] then yield False
           else do {
             e \<leftarrow> syscall Geteuid;
             yield (st_dev (r_stat l) \<in> set (bindMountAllowedDevices udiConfig) \<or>
                    st_uid statData = nat (r_rc e))
           }
         })"

section \<open>Mounting an entry\<close>

fun first_cache :: "VolumeMapFlag list \<Rightarrow> VolMapPerNodeCacheConfig option" where
  "first_cache [] = None"
| "first_cache (FLAG_PERNODECACHE c # fs) = Some c"
| "first_cache (f # fs) = first_cache fs"

definition mount_cache ::
  "platform \<Rightarrow> UdiRootConfig \<Rightarrow> VolumeMapFlag list \<Rightarrow> cstring \<Rightarrow> cstring \<Rightarrow> MountList \<Rightarrow> (int \<times> MountList) sys" where
  "mount_cache pf udiConfig flags from_buffer to_real mountCache =
     (case first_cache flags of
        None \<Rightarrow> yield (1, mountCache)
      | Some cache \<Rightarrow>
          if cmethod cache \<noteq> Some ''loop'' then yield (1, mountCache)
          else do {
            r \<leftarrow> loopMount pf from_buffer to_real
                   (if cfstype cache = Some ''xfs'' then FORMAT_XFS else FORMAT_INVALID) False;
            if r \<noteq> 0 then yield (1, mountCache)
            else
              let mountCache1 = snd (insert_MountList mountCache to_real)
              in do {
                c \<leftarrow> syscall (Chown to_real (int (target_uid udiConfig)) (int (target_gid udiConfig)));
                if r_rc c \<noteq> 0 then yield (1, mountCache1)
                else do {
                  u \<leftarrow> syscall (Unlink from_buffer);
                  yield (if r_rc u \<noteq> 0 then 1 else 0, mountCache1)
                }
              }
          })"

definition mount_entry ::
  "platform \<Rightarrow> bool \<Rightarrow> nat \<Rightarrow> UdiRootConfig \<Rightarrow> cstring \<Rightarrow> VolumeMapFlag list option \<Rightarrow> nat \<Rightarrow> cstring \<Rightarrow> cstring \<Rightarrow>
   cstring \<Rightarrow> MountList \<Rightarrow> (int \<times> MountList) option sys" where
  "mount_entry pf userRequested createToDev udiConfig udiMount flags flagsInEffect filtered_from from_buffer
     to_buffer mountCache =
     do {
       s \<leftarrow> (if flagsInEffect AND VOLMAP_FLAG_PERNODECACHE = 0
             then check_source pf userRequested filtered_from from_buffer udiConfig
             else do { r \<leftarrow> syscall (Realpath from_buffer); yield (Some (r_text r)) });
       (case s of
          None \<Rightarrow> yield None
        | Some source \<Rightarrow>
            if source = None \<and> flagsInEffect AND VOLMAP_FLAG_PERNODECACHE = 0 then yield (Some (1, mountCache))
            else do {
              t \<leftarrow> find_target to_buffer createToDev;
              (case t of
                 None \<Rightarrow> yield (Some (1, mountCache))
               | Some statData \<Rightarrow>
                   if st_kind statData \<noteq> KDirectory then yield (Some (1, mountCache))
                   else do {
                     rp \<leftarrow> syscall (Realpath to_buffer);
                     (case (r_text rp, source) of
                        (Some to_real, Some from_real) \<Rightarrow> do {
                          v \<leftarrow> validate_mount userRequested udiConfig udiMount flags flagsInEffect from_real
                                 to_real statData;
                          if \<not> v then yield (Some (1, mountCache))
                          else if flagsInEffect AND VOLMAP_FLAG_PERNODECACHE \<noteq> 0 then do {
                            c \<leftarrow> mount_cache pf udiConfig (flags_of flags) from_buffer to_real mountCache;
                            yield (Some c)
                          }
                          else do {
                            (rc, mountCache1) \<leftarrow> shifterCore_bindMount udiConfig mountCache from_real to_real
                              flagsInEffect True;
                            yield (Some (if rc \<noteq> 0 then 1 else 0, mountCache1))
                          }
                        }
                      | _ \<Rightarrow> yield (Some (1, mountCache)))
                   })
            })
     }"

text \<open>One round of the loop, with the error exit that removes a backing file.\<close>

definition setup_entry ::
  "platform \<Rightarrow> bool \<Rightarrow> nat \<Rightarrow> UdiRootConfig \<Rightarrow> cstring \<Rightarrow> cstring \<Rightarrow> cstring \<Rightarrow> VolumeMapFlag list option \<Rightarrow>
   MountList \<Rightarrow> (int \<times> MountList) option sys" where
  "setup_entry pf userRequested createToDev udiConfig udiMount from to flags mountCache =
     (case (userInputPathFilter (Some from) True, userInputPathFilter (Some to) True) of
        (Some filtered_from, Some filtered_to) \<Rightarrow>
          do {
            s \<leftarrow> setup_caches udiConfig (flags_of flags) 0
                   (path_buffer ((if userRequested then udiMount else []) @ ''/'' @ filtered_from)) False;
            (case s of
               None \<Rightarrow> yield None
             | Some (ok, flagsInEffect, from_buffer, backing) \<Rightarrow> do {
                 r \<leftarrow> (if ok
                       then mount_entry pf userRequested createToDev udiConfig udiMount flags flagsInEffect
                              filtered_from from_buffer (path_buffer (udiMount @ ''/'' @ filtered_to)) mountCache
                       else yield (Some (1, mountCache)));
                 (case r of
                    None \<Rightarrow> yield None
                  | Some (rc, mountCache1) \<Rightarrow>
                      if rc \<noteq> 0 \<and> flagsInEffect AND VOLMAP_FLAG_PERNODECACHE \<noteq> 0 \<and> backing
                      then do { u \<leftarrow> syscall (Unlink from_buffer); yield (Some (rc, mountCache1)) }
                      else yield (Some (rc, mountCache1)))
               })
          }
      | _ \<Rightarrow> yield (Some (1, mountCache)))"

fun setup_entries ::
  "platform \<Rightarrow> bool \<Rightarrow> nat \<Rightarrow> UdiRootConfig \<Rightarrow> cstring \<Rightarrow> VolumeMap \<Rightarrow> nat list \<Rightarrow> MountList \<Rightarrow>
   (int \<times> MountList) option sys" where
  "setup_entries pf userRequested createToDev udiConfig udiMount vm [] mountCache = yield (Some (0, mountCache))"
| "setup_entries pf userRequested createToDev udiConfig udiMount vm (i # is') mountCache =
     do {
       r \<leftarrow> setup_entry pf userRequested createToDev udiConfig udiMount (sa_items (vm_from vm) ! i)
              (sa_items (vm_to vm) ! i) (vm_flags vm ! i) mountCache;
       (case r of
          None \<Rightarrow> yield None
        | Some (rc, mountCache1) \<Rightarrow>
            if rc \<noteq> 0 then yield (Some (1, mountCache1))
            else setup_entries pf userRequested createToDev udiConfig udiMount vm is' mountCache1)
     }"

text \<open>
  None: the process ended or path resolution did not come back; the length of a mount point that is
  not configured is read through a NULL pointer.
\<close>

definition setupVolumeMapMounts ::
  "platform \<Rightarrow> MountList \<Rightarrow> VolumeMap option \<Rightarrow> bool \<Rightarrow> nat \<Rightarrow> UdiRootConfig \<Rightarrow> (int \<times> MountList) option sys" where
  "setupVolumeMapMounts pf mountCache volmap userRequested createToDev udiConfig =
     (case volmap of
        None \<Rightarrow> yield (Some (0, mountCache))
      | Some vm \<Rightarrow>
          if vm_n vm = 0 then yield (Some (0, mountCache))
          else case udiMountPoint udiConfig of
            None \<Rightarrow> yield None
          | Some udiMount \<Rightarrow>
              setup_entries pf userRequested createToDev udiConfig udiMount vm [0..<vm_n vm] mountCache)"

definition setupUserMounts :: "platform \<Rightarrow> VolumeMap \<Rightarrow> UdiRootConfig \<Rightarrow> int option sys" where
  "setupUserMounts pf vm udiConfig =
     do {
       st \<leftarrow> syscall (Stat (path_buffer (show_str (udiMountPoint udiConfig))));
       if r_rc st \<noteq> 0 then yield (Some 1)
       else do {
         (r, mountCache) \<leftarrow> read_mounts empty_MountList;
         if r \<noteq> 0 then yield (Some 1)
         else do {
           m \<leftarrow> setupVolumeMapMounts pf mountCache (Some vm) True (st_dev (r_stat st)) udiConfig;
           yield (map_option fst m)
         }
       }
     }"

section \<open>Calls that mount nothing\<close>

abbreviation no_mount :: "event \<Rightarrow> bool" where
  "no_mount e \<equiv> mount_target e = None"

definition is_lookup :: "event \<Rightarrow> bool" where
  "is_lookup e \<longleftrightarrow> (\<exists>p. fst e = Lstat p \<or> fst e = Readlink p \<or> fst e = Realpath p)"

lemma is_lookup_simps [simp]: "is_lookup (Lstat p, r)" "is_lookup (Readlink p, r)" "is_lookup (Realpath p, r)"
  by (simp_all add: is_lookup_def)

lemma lookup_no_mount: "is_lookup e \<Longrightarrow> no_mount e"
  by (cases e) (auto simp: is_lookup_def mount_target_def)

lemma realpath_loop_lookups: "only is_lookup (realpath_loop n sp p)"
proof (induction n arbitrary: sp p)
  case 0
  then show ?case by (cases p) (auto intro!: only_intros)
next
  case (Suc n)
  show ?case
    by (cases p) (auto intro!: only_intros Suc.IH split: option.split outcome.split)
qed

lemma realpath_lookups [only_intros]: "only is_lookup (shifter_realpath n src config)"
  unfolding shifter_realpath_def
  by (auto intro!: only_intros realpath_loop_lookups split: option.split outcome.split)

lemma no_mount_calls [simp]:
  "no_mount (Fork a b, r)" "no_mount (Waitpid p, r)" "no_mount (Stat q, r)" "no_mount (Lstat q, r)"
  "no_mount (Mkdir q k, r)" "no_mount (Gethostname, r)" "no_mount (Umask k, r)" "no_mount (Mkstemp q, r)"
  "no_mount (Chown q i j, r)" "no_mount (Unlink q, r)" "no_mount (Getgroups k, r)" "no_mount (Setgroups gs, r)"
  "no_mount (Setegid k, r)" "no_mount (Seteuid k, r)" "no_mount (Geteuid, r)" "no_mount (Getegid, r)"
  by (simp_all add: mount_target_def)

text \<open>What unmounting and reading the mount table consist of.\<close>

definition unmounting :: "event \<Rightarrow> bool" where
  "unmounting e \<longleftrightarrow>
     (\<exists>p k. fst e = Umount2 p k \<or> fst e = Getpid \<or> fst e = ReadFile p \<or> fst e = Usleep k)"

lemma unmounting_simps [simp]:
  "unmounting (Umount2 p k, r)" "unmounting (Getpid, r)" "unmounting (ReadFile p, r)" "unmounting (Usleep k, r)"
  by (simp_all add: unmounting_def)

lemma unmounting_no_mount: "unmounting e \<Longrightarrow> no_mount e"
  by (cases e) (auto simp: unmounting_def mount_target_def)

lemma unmount_entries_unmounting: "only unmounting (unmount_entries base ps m)"
  by (induction ps arbitrary: m) (auto intro!: only_intros)

lemma only_unmounting [only_intros]:
  "only unmounting (unmountTree m base)" "only unmounting (read_mounts m)"
  by (auto intro!: only_intros unmount_entries_unmounting simp: unmountTree_def read_mounts_def)

lemma only_unmounting_validate [only_intros]: "only unmounting (validateUnmounted p sub)"
  unfolding validateUnmounted_def by (auto intro!: only_intros)

lemma unmount_retry_unmounting: "only unmounting (unmount_retry n m t)"
  by (induction n arbitrary: m) (auto intro!: only_intros)

lemmas unmount_retry_no_mount = only_mono [OF unmount_retry_unmounting unmounting_no_mount]

lemma only_no_mount [only_intros]:
  "only no_mount (fork_and_exec args silent)"
  "only no_mount getSupportedFilesystems"
  by (auto intro!: only_intros split: option.split simp: fork_and_exec_def getSupportedFilesystems_def)

lemma only_no_mount_silent [only_intros]: "only no_mount (forkAndExecvSilent args)"
  by (auto intro!: only_intros simp: forkAndExecvSilent_def)

lemma loopMount_no_mount [only_intros]: "only no_mount (loopMount pf img path fmt ro)"
  unfolding loopMount_def by (auto intro!: only_intros split: option.split)

lemma cache_no_mount [only_intros]:
  "only no_mount (setupPerNodeCacheFilename config c buf len)"
  "only no_mount (setupPerNodeCacheBackingStore c buf config)"
  unfolding setupPerNodeCacheFilename_def setupPerNodeCacheBackingStore_def
  by (auto intro!: only_intros split: option.split)

lemma setup_caches_no_mount: "only no_mount (setup_caches config fs fe buf b)"
  by (induction fs arbitrary: fe buf b)
     (auto intro!: only_intros split: option.split VolumeMapFlag.split)

lemma mount_cache_no_mount: "only no_mount (mount_cache pf config fl buf t m)"
  unfolding mount_cache_def by (auto intro!: only_intros split: option.split)

lemma assume_user_no_mount: "only no_mount (assume_user config)"
  unfolding assume_user_def saved_groups_def by (auto intro!: only_intros split: option.split)

lemma resume_no_mount: "only no_mount (resume_privileges u g gs)"
  unfolding resume_privileges_def by (auto intro!: only_intros)

lemma find_target_no_mount: "only no_mount (find_target p dev)"
  unfolding find_target_def by (auto intro!: only_intros)

section \<open>The source is looked up as the user\<close>

definition seen_directory :: "cstring \<Rightarrow> event list \<Rightarrow> bool" where
  "seen_directory p es \<longleftrightarrow>
     (\<exists>l q r. (Realpath q, r) \<in> set es \<and> r_text r = Some p \<and>
        (Lstat p, l) \<in> set es \<and> r_rc l = 0 \<and> st_kind (r_stat l) = KDirectory)"

lemma seen_directory_mono: "seen_directory p es \<Longrightarrow> set es \<subseteq> set es' \<Longrightarrow> seen_directory p es'"
  unfolding seen_directory_def by blast

lemma seen_directory_more [simp]:
  "seen_directory p b \<Longrightarrow> seen_directory p (a @ b)" "seen_directory p a \<Longrightarrow> seen_directory p (a @ b)"
  "seen_directory p b \<Longrightarrow> seen_directory p (e # b)"
  by (auto elim: seen_directory_mono)

lemma locate_source_effects:
  "effects (locate_source pf user ff fb config) (\<lambda>s es.
     (\<forall>e\<in>set es. is_lookup e) \<and> (\<forall>p. s = Some (Some p) \<longrightarrow> seen_directory p es))"
proof -
  have first: "only is_lookup (if user then do {
               s \<leftarrow> shifter_realpath (p_fuel pf) ff config;
               yield (case s of Some (Ret found) \<Rightarrow> Some found | _ \<Rightarrow> None)
             } else yield (Some (Some fb)))"
    by (intro only_intros)
  have seen: "seen_directory p (es @ [(Realpath q, r), (Lstat p, l)])"
    if "r_text r = Some p" "r_rc l = 0" "st_kind (r_stat l) = KDirectory" for p q es r l
    unfolding seen_directory_def using that by auto
  show ?thesis
    unfolding locate_source_def
    by (rule only_first [OF first])
       (auto intro!: effects_yield effects_call_bind seen split: option.split if_splits)
qed

definition became_user :: "UdiRootConfig \<Rightarrow> event list \<Rightarrow> bool" where
  "became_user config es \<longleftrightarrow>
     auxiliary_gids config \<noteq> [] \<and> target_uid config \<noteq> 0 \<and> target_gid config \<noteq> 0 \<and>
     (\<exists>ask s e u. es = ask @ [(Setgroups (auxiliary_gids config), s), (Setegid (target_gid config), e),
                              (Seteuid (target_uid config), u)] \<and>
        (\<forall>x\<in>set ask. \<exists>n. fst x = Getgroups n) \<and> r_rc s = 0 \<and> r_rc e = 0 \<and> r_rc u = 0)"

lemma assume_user_effects:
  "effects (assume_user config) (\<lambda>a es. a \<noteq> None \<longrightarrow> became_user config es)"
proof -
  have b: "became_user config (ask @ [(Setgroups (auxiliary_gids config), s), (Setegid (target_gid config), e),
                              (Seteuid (target_uid config), u)])"
    if "auxiliary_gids config \<noteq> []" "0 < target_uid config" "0 < target_gid config"
      "\<forall>x\<in>set ask. \<exists>n. fst x = Getgroups n" "r_rc s = 0" "r_rc e = 0" "r_rc u = 0" for ask s e u
    unfolding became_user_def using that by blast
  have ask: "only (\<lambda>x. \<exists>n. fst x = Getgroups n) saved_groups"
    unfolding saved_groups_def by (auto intro!: only_intros)
  show ?thesis
    unfolding assume_user_def
    by (auto intro!: effects_yield effects_call_bind only_first [OF ask] split: option.split if_splits simp: b)
qed

definition resumed :: "nat \<Rightarrow> nat \<Rightarrow> nat list \<Rightarrow> event list \<Rightarrow> bool" where
  "resumed euid egid groups es \<longleftrightarrow>
     (\<exists>u e s. es = [(Seteuid euid, u), (Setegid egid, e), (Setgroups groups, s)] \<and>
        r_rc u = 0 \<and> r_rc e = 0 \<and> r_rc s = 0)"

lemma resume_effects:
  "effects (resume_privileges euid egid groups) (\<lambda>b es. b \<longrightarrow> resumed euid egid groups es)"
  unfolding resume_privileges_def
  by (auto intro!: effects_yield effects_call_bind simp: resumed_def)


section \<open>Every mount was decided on\<close>

text \<open>A call mounts nothing, or mounts on the target, which is what \<open>to\<close> resolves to.\<close>

definition binds :: "cstring \<Rightarrow> cstring \<Rightarrow> event \<Rightarrow> bool" where
  "binds from t e \<longleftrightarrow>
     no_mount e \<or> (\<exists>s k fl. fst e = Mount s t k fl \<and> (s = None \<or> s = Some from))"

lemma binds_no_mount: "no_mount e \<Longrightarrow> binds from t e"
  by (simp add: binds_def)

lemma bindMount_mounts_binds: "only (binds from t) (bindMount_mounts cfg m from t flags)"
  unfolding bindMount_mounts_def bindMount_unclean_def
  by (auto intro!: only_intros simp: binds_def)

lemma bindMount_binds:
  "effects (shifterCore_bindMount cfg m from to flags ov) (\<lambda>x es.
     \<forall>e\<in>set es. no_mount e \<or> (\<exists>t r. (Realpath to, r) \<in> set es \<and> r_text r = Some t \<and> binds from t e))"
  unfolding shifterCore_bindMount_def
proof (rule effects_call_bind, goal_cases)
  case (1 rp)
  show ?case
  proof (cases "r_text rp")
    case None
    then show ?thesis by (auto intro!: effects_yield)
  next
    case (Some t)
    have retry: "only (binds from t) (unmount_retry n m t)" for n
      by (rule only_mono [OF unmount_retry_no_mount binds_no_mount])
    have "only (binds from t)
       (if find_MountList m t = None then bindMount_mounts cfg m from t flags
        else if ov then do {
          (r, mountCache1) \<leftarrow> unmount_retry BINDMOUNT_OVERWRITE_UNMOUNT_RETRY m t;
          if r \<noteq> 0 then yield (1, mountCache1) else bindMount_mounts cfg mountCache1 from t flags
        }
        else yield (1, m))"
      by (intro only_intros retry bindMount_mounts_binds)
    then show ?thesis
      unfolding Some option.case by (rule effects_mono) (use Some in auto)
  qed
qed

text \<open>What the checks before a mount have established.\<close>

definition decided ::
  "bool \<Rightarrow> cstring \<Rightarrow> VolumeMapFlag list option \<Rightarrow> cstring \<Rightarrow> cstring \<Rightarrow> bool" where
  "decided user m flags from to \<longleftrightarrow>
     (\<exists>ct. to = m @ ct \<and>
        (if user then (\<exists>cf. from = m @ cf \<and> user_mapping cf ct (flags_of flags))
         else site_mapping from ct (flags_of flags)))"

lemma below_udi_drop: "below_udi m p \<Longrightarrow> p = m @ drop (length m) p"
  by (auto simp: below_udi_def prefix_def)

lemma validate_mount_effects:
  "effects (validate_mount user cfg m flags fe from to st) (\<lambda>v es.
     (\<forall>e\<in>set es. no_mount e) \<and>
     (v \<and> fe AND VOLMAP_FLAG_PERNODECACHE = 0 \<longrightarrow> decided user m flags from to))"
proof -
  have ok1: "decided True m flags from to"
    if "below_udi m to" "below_udi m from"
      "volume_validator True (Some (drop (length m) from)) (Some (drop (length m) to)) flags = 0"
    using that below_udi_drop [of m to] below_udi_drop [of m "from"]
    by (auto simp: decided_def volume_validator_def user_validate)
  have ok2: "decided False m flags from to"
    if "below_udi m to" "volume_validator False (Some from) (Some (drop (length m) to)) flags = 0"
    using that below_udi_drop [of m to]
    by (auto simp: decided_def volume_validator_def site_validate)
  show ?thesis
    unfolding validate_mount_def Let_def
    by (auto intro!: effects_yield effects_call_bind ok1 ok2 split: if_splits)
qed

lemma check_source_effects:
  "effects (check_source pf user ff fb config) (\<lambda>s es.
     (\<forall>e\<in>set es. no_mount e) \<and> (\<forall>p. s = Some (Some p) \<longrightarrow> seen_directory p es))"
proof -
  have loc: "effects (locate_source pf user ff fb config) (\<lambda>s es.
     (\<forall>e\<in>set es. no_mount e) \<and> (\<forall>p. s = Some (Some p) \<longrightarrow> seen_directory p es))"
    by (rule effects_mono [OF locate_source_effects]) (auto intro: lookup_no_mount)
  have user: "effects (do {
         a \<leftarrow> assume_user config;
         (case a of
            None \<Rightarrow> yield (Some None)
          | Some groups \<Rightarrow> do {
              s \<leftarrow> locate_source pf user ff fb config;
              (case s of
                 Some (Some from_real) \<Rightarrow> do {
                   b \<leftarrow> resume_privileges u g groups;
                   yield (Some (if b then Some from_real else None))
                 }
               | other \<Rightarrow> yield other)
            })
       }) (\<lambda>s es. (\<forall>e\<in>set es. no_mount e) \<and> (\<forall>p. s = Some (Some p) \<longrightarrow> seen_directory p es))" for u g
  proof (rule only_first [OF assume_user_no_mount], goal_cases)
    case (1 a es)
    then show ?case
      by (auto intro!: effects_yield effects_seq [OF loc] only_first [OF resume_no_mount]
          split: option.split if_splits)
  qed
  have lift: "effects f (\<lambda>s es. (\<forall>e\<in>set ((Geteuid, u) # (Getegid, g) # es). no_mount e) \<and>
      (\<forall>p. s = Some (Some p) \<longrightarrow> seen_directory p ((Geteuid, u) # (Getegid, g) # es)))"
    if "effects f (\<lambda>s es. (\<forall>e\<in>set es. no_mount e) \<and> (\<forall>p. s = Some (Some p) \<longrightarrow> seen_directory p es))" for f u g
    by (rule effects_mono [OF that]) auto
  show ?thesis
    unfolding check_source_def
    by (intro effects_call_bind lift) (use user loc in \<open>cases user; simp\<close>)
qed

text \<open>A mount event of a trace and the entry of the map it belongs to.\<close>

definition mount_justified ::
  "bool \<Rightarrow> cstring \<Rightarrow> VolumeMapFlag list option \<Rightarrow> event list \<Rightarrow> event \<Rightarrow> bool" where
  "mount_justified user m flags es e \<longleftrightarrow>
     (\<exists>s t k fl. fst e = Mount s t k fl \<and>
        (\<exists>from to r. (s = None \<or> s = Some from) \<and> (Realpath to, r) \<in> set es \<and> r_text r = Some t \<and>
           decided user m flags from to \<and> seen_directory from es))"

lemma mount_justified_mono:
  "mount_justified user m flags es e \<Longrightarrow> set es \<subseteq> set es' \<Longrightarrow> mount_justified user m flags es' e"
  unfolding mount_justified_def using seen_directory_mono by (metis (full_types) subsetD)

text \<open>A program all of whose mounts are justified by what was seen before and during its run.\<close>

definition justified :: "bool \<Rightarrow> cstring \<Rightarrow> VolumeMapFlag list option \<Rightarrow> event list \<Rightarrow> 'a sys \<Rightarrow> bool" where
  "justified user m flags es p \<longleftrightarrow>
     effects p (\<lambda>x n. \<forall>e\<in>set n. no_mount e \<or> mount_justified user m flags (es @ n) e)"

named_theorems justified_intros "programs whose mounts are justified"

lemma justified_yield [justified_intros]: "justified user m flags es (yield x)"
  by (auto simp: justified_def intro!: effects_yield)

lemma justified_seq:
  assumes "effects p Q" "\<And>x n. Q x n \<Longrightarrow> \<forall>e\<in>set n. no_mount e"
    and "\<And>x n. Q x n \<Longrightarrow> justified user m flags (es @ n) (f x)"
  shows "justified user m flags es (State_Monad.bind p f)"
  unfolding justified_def
  by (rule effects_seq [OF assms(1)], rule effects_mono [OF assms(3) [unfolded justified_def]])
     (use assms(2) in auto)

lemma justified_call [justified_intros]:
  assumes "\<And>r. no_mount (c, r)" "\<And>r. justified user m flags (es @ [(c, r)]) (f r)"
  shows "justified user m flags es (State_Monad.bind (syscall c) f)"
  by (rule justified_seq [OF effects_syscall, where Q = "\<lambda>r n. n = [(c, r)]"]) (use assms in auto)

lemma justified_after:
  "only no_mount p \<Longrightarrow> (\<And>x n. justified user m flags (es @ n) (f x)) \<Longrightarrow>
     justified user m flags es (State_Monad.bind p f)"
  by (rule justified_seq) auto

lemma justified_cases [justified_intros]:
  "justified user m flags es p \<Longrightarrow> justified user m flags es q \<Longrightarrow> justified user m flags es (if b then p else q)"
  "(\<And>a c. justified user m flags es (g a c)) \<Longrightarrow> justified user m flags es (case z of (a, c) \<Rightarrow> g a c)"
  "justified user m flags es p \<Longrightarrow> (\<And>a. justified user m flags es (h a)) \<Longrightarrow>
     justified user m flags es (case opt of None \<Rightarrow> p | Some a \<Rightarrow> h a)"
  by (auto split: prod.split option.split)

lemma justified_last:
  "justified user m flags es p \<Longrightarrow> (\<And>x. only no_mount (f x)) \<Longrightarrow> justified user m flags es (State_Monad.bind p f)"
proof -
  assume p: "justified user m flags es p" and f: "\<And>x. only no_mount (f x)"
  show "justified user m flags es (State_Monad.bind p f)"
    unfolding justified_def
  proof (rule effects_seq [OF p [unfolded justified_def]], rule effects_mono [OF f], goal_cases)
    case (1 x n y n')
    have "mount_justified user m flags (es @ n @ n') e" if "mount_justified user m flags (es @ n) e" for e
      using that by (rule mount_justified_mono) auto
    with 1 show ?case by auto
  qed
qed

lemma bindMount_justified:
  assumes "decided user m flags from to" "seen_directory from es"
  shows "justified user m flags es (shifterCore_bindMount cfg mc from to fe ov)"
  unfolding justified_def
proof (rule effects_mono [OF bindMount_binds], intro ballI)
  fix x n e
  assume b: "\<forall>e\<in>set n. no_mount e \<or> (\<exists>t r. (Realpath to, r) \<in> set n \<and> r_text r = Some t \<and> binds from t e)"
    and e: "e \<in> set n"
  show "no_mount e \<or> mount_justified user m flags (es @ n) e"
  proof (cases "no_mount e")
    case False
    with b e obtain t r s k fl where
      "(Realpath to, r) \<in> set n" "r_text r = Some t" "fst e = Mount s t k fl" "s = None \<or> s = Some from"
      by (auto simp: binds_def mount_target_def)
    then have "mount_justified user m flags (es @ n) e"
      unfolding mount_justified_def using assms
      by (intro exI [of _ s] exI [of _ t] exI [of _ k] exI [of _ fl] conjI exI [of _ "from"] exI [of _ to] exI [of _ r])
         auto
    then show ?thesis ..
  qed simp
qed

lemma mount_entry_justified:
  "justified user m flags es (mount_entry pf user dev cfg m flags fe ff fb tb mc)"
proof -
  have src: "effects (if fe AND VOLMAP_FLAG_PERNODECACHE = 0 then check_source pf user ff fb cfg
       else do { r \<leftarrow> syscall (Realpath fb); yield (Some (r_text r)) })
     (\<lambda>s es. (\<forall>e\<in>set es. no_mount e) \<and>
        (\<forall>p. fe AND VOLMAP_FLAG_PERNODECACHE = 0 \<and> s = Some (Some p) \<longrightarrow> seen_directory p es))"
    using check_source_effects [of pf user ff fb cfg]
    by (auto intro!: effects_call_bind effects_yield elim!: effects_mono)
  have rest: "justified user m flags es (do {
        v \<leftarrow> validate_mount user cfg m flags fe from_real to_real st;
        if \<not> v then yield (Some (1, mc))
        else if fe AND VOLMAP_FLAG_PERNODECACHE \<noteq> 0 then do {
          c \<leftarrow> mount_cache pf cfg (flags_of flags) fb to_real mc;
          yield (Some c)
        }
        else do {
          (rc, mc1) \<leftarrow> shifterCore_bindMount cfg mc from_real to_real fe True;
          yield (Some (if rc \<noteq> 0 then 1 else 0 :: int, mc1))
        }
      })"
    if seen: "fe AND VOLMAP_FLAG_PERNODECACHE = 0 \<longrightarrow> seen_directory from_real es" for es from_real to_real st
  proof (rule justified_seq [OF validate_mount_effects], goal_cases)
    case (1 v n)
    then show ?case by simp
  next
    case (2 v n)
    have cache: "justified user m flags es' (do { c \<leftarrow> mount_cache pf cfg (flags_of flags) fb to_real mc; yield (Some c) })"
      for es'
      by (intro justified_after [OF mount_cache_no_mount] justified_intros)
    have bind: "justified user m flags (es @ n)
        (do { (rc, mc1) \<leftarrow> shifterCore_bindMount cfg mc from_real to_real fe True;
              yield (Some (if rc \<noteq> 0 then 1 else 0 :: int, mc1)) })"
      if "v" "fe AND VOLMAP_FLAG_PERNODECACHE = 0"
      using that 2 seen
      by (intro justified_last bindMount_justified only_intros) simp_all
    show ?case using cache bind by (simp add: justified_yield)
  qed
  have rest_cache: "justified user m flags es (do {
        v \<leftarrow> validate_mount user cfg m flags fe from_real to_real st;
        if \<not> v then yield (Some (1, mc))
        else do { c \<leftarrow> mount_cache pf cfg (flags_of flags) fb to_real mc; yield (Some c) }
      })" if "0 < fe AND VOLMAP_FLAG_PERNODECACHE" for es from_real to_real st
    using rest [of from_real es to_real st] that by (simp cong: if_cong)
  have rest_bind: "justified user m flags es (do {
        v \<leftarrow> validate_mount user cfg m flags fe from_real to_real st;
        if \<not> v then yield (Some (1, mc))
        else do {
          (rc, mc1) \<leftarrow> shifterCore_bindMount cfg mc from_real to_real fe True;
          yield (Some (if rc \<noteq> 0 then 1 else 0 :: int, mc1))
        }
      })" if "fe AND VOLMAP_FLAG_PERNODECACHE = 0" "seen_directory from_real es" for es from_real to_real st
    using rest [of from_real es to_real st] that by (simp cong: if_cong)
  show ?thesis
    unfolding mount_entry_def
  proof (rule justified_seq [OF src], goal_cases)
    case (1 s n)
    then show ?case by simp
  next
    case (2 s n)
    have seen: "fe AND VOLMAP_FLAG_PERNODECACHE = 0 \<longrightarrow> seen_directory p ((es @ n) @ n')"
      if "s = Some (Some p)" for p n'
      using 2 that by simp
    show ?case
    proof (cases s)
      case None
      then show ?thesis by (simp add: justified_yield)
    next
      case (Some source)
      show ?thesis
      proof (cases source)
        case None
        show ?thesis
          unfolding Some None option.case
          by (simp split: if_split)
             (auto intro!: justified_yield justified_call justified_after [OF find_target_no_mount]
               split: option.split)
      next
        case found: (Some p)
        show ?thesis
          unfolding Some found option.case
          using seen [unfolded Some found, OF refl]
          by (auto intro!: justified_yield justified_call justified_after [OF find_target_no_mount]
              rest_cache rest_bind split: option.split)
      qed
    qed
  qed
qed

lemma setup_entry_justified:
  "justified user m flags es (setup_entry pf user dev cfg m from to flags mc)"
proof -
  have caches: "only no_mount (setup_caches cfg (flags_of flags) fe fb b)" for fe fb b
    by (rule setup_caches_no_mount)
  show ?thesis
    unfolding setup_entry_def
    by (auto intro!: justified_intros justified_after [OF caches] justified_last mount_entry_justified only_intros
        split: option.split)
qed

text \<open>The mounts of a whole map: each belongs to one of its entries.\<close>

definition map_justified :: "bool \<Rightarrow> cstring \<Rightarrow> VolumeMap \<Rightarrow> event list \<Rightarrow> bool" where
  "map_justified user m vm es \<longleftrightarrow>
     (\<forall>e\<in>set es. no_mount e \<or> (\<exists>i<vm_n vm. mount_justified user m (vm_flags vm ! i) es e))"

lemma setup_entries_justified:
  "\<forall>i\<in>set is'. i < vm_n vm \<Longrightarrow>
     effects (setup_entries pf user dev cfg m vm is' mc) (\<lambda>r es. map_justified user m vm es)"
proof (induction is' arbitrary: mc)
  case Nil
  then show ?case by (auto intro!: effects_yield simp: map_justified_def)
next
  case (Cons i is')
  let ?entry = "setup_entry pf user dev cfg m (sa_items (vm_from vm) ! i) (sa_items (vm_to vm) ! i) (vm_flags vm ! i)"
  have entry: "effects (?entry mc) (\<lambda>r es. map_justified user m vm es)"
    using setup_entry_justified [of user m "vm_flags vm ! i" "[]" pf dev cfg "sa_items (vm_from vm) ! i"
        "sa_items (vm_to vm) ! i" mc] Cons.prems
    unfolding justified_def by (auto elim!: effects_mono simp: map_justified_def)
  have more: "map_justified user m vm (n @ n')" if "map_justified user m vm n" "map_justified user m vm n'" for n n'
    using that unfolding map_justified_def
    by (metis (no_types, opaque_lifting) Un_iff mount_justified_mono set_append sup_ge1 sup_ge2)
  have fin: "effects (yield x) (\<lambda>y n'. map_justified user m vm (n @ n'))" if "map_justified user m vm n" for x n
    using that by (auto intro!: effects_yield)
  show ?case
    unfolding setup_entries.simps
  proof (rule effects_seq [OF entry], goal_cases)
    case (1 r n)
    then show ?case
      using Cons.prems
      by (auto intro!: fin effects_mono [OF Cons.IH] more split: option.split prod.split)
  qed
qed


text \<open>A run of the mount helper as it must be, after what the trace has seen.\<close>

definition loop_call_ok :: "platform \<Rightarrow> cstring \<Rightarrow> cstring \<Rightarrow> bool \<Rightarrow> event list \<Rightarrow> cstring list \<Rightarrow> bool" where
  "loop_call_ok pf img path readOnly es args \<longleftrightarrow>
     (\<exists>opts fs st fsr names.
        args = [mount_exec pf, ''-n'', ''-o'', ''loop,nosuid,nodev'' @ opts, ''-t'', fs, img, path] \<and>
        (readOnly \<longrightarrow> prefix '',ro'' opts) \<and>
        (Stat (mount_exec pf), st) \<in> set es \<and> r_rc st = 0 \<and> st_uid (r_stat st) = 0 \<and>
        st_mode (r_stat st) AND (S_IWGRP OR S_IWOTH) = 0 \<and> st_mode (r_stat st) AND S_IXUSR \<noteq> 0 \<and>
        (ReadFile ''/proc/filesystems'', fsr) \<in> set es \<and> r_text fsr = Some names \<and>
        fs \<in> set (filesystem_names names) \<and> fs \<in> {''squashfs'', ''xfs''})"

lemma loop_type_supported:
  "loop_type pf fss fmt = Some (fs, a) \<Longrightarrow> \<exists>ts. fss = Some ts \<and> fs \<in> set ts \<and> fs \<in> {''squashfs'', ''xfs''}"
  by (auto simp: loop_type_def supportsFilesystem_def split: ImageFormat.splits if_splits option.splits)

lemma loop_call_okI:
  assumes "loop_type pf (map_option filesystem_names (r_text fsr)) fmt = Some (fs, a)"
    and "r_rc st = 0" "helper_trusted (r_stat st)"
  shows "loop_call_ok pf img path readOnly
     ((ReadFile ''/proc/filesystems'', fsr) # (Stat (mount_exec pf), st) # n)
     [mount_exec pf, ''-n'', ''-o'', loop_options readOnly a, ''-t'', fs, img, path]"
proof -
  from loop_type_supported [OF assms(1)] obtain names where
    n: "r_text fsr = Some names" "fs \<in> set (filesystem_names names)" "fs \<in> {''squashfs'', ''xfs''}" by auto
  have "m AND (S_IWGRP OR S_IWOTH) = 0" if "m AND S_IWGRP = 0" "m AND S_IWOTH = 0" for m :: nat
    using that by (auto simp: bit_eq_iff bit_simps)
  then show ?thesis
    unfolding loop_call_ok_def using n assms(2,3)
    by (intro exI [of _ "(if readOnly then '',ro'' else []) @ (if a then '',autoclear'' else [])"]
          exI [of _ fs] exI [of _ st] exI [of _ fsr] exI [of _ names])
       (simp add: loop_options_def helper_trusted_def)
qed

text \<open>
  C21. The loop mount of an image or of a cache runs only a helper program that root owns, that no group
  and nobody else may write and that root may execute, only on a kernel that names the file system, and
  always with the options that ignore set-user-id bits and devices; an image is mounted read-only.
\<close>

theorem loopMount_guarded:
  "effects (loopMount pf img path fmt readOnly) (\<lambda>rc es.
     \<forall>args silent r. (Fork args silent, r) \<in> set es \<longrightarrow> loop_call_ok pf img path readOnly es args)"
proof -
  have fss: "effects getSupportedFilesystems (\<lambda>fs es. \<exists>f. es = [(ReadFile ''/proc/filesystems'', f)] \<and>
      fs = map_option filesystem_names (r_text f))"
    unfolding getSupportedFilesystems_def by (auto intro!: effects_call_bind effects_yield)
  have run: "effects (forkAndExecvSilent args) (\<lambda>r es. \<forall>e\<in>set es. fst e = Fork args True \<or> (\<exists>p. fst e = Waitpid p))"
    for args
    unfolding forkAndExecvSilent_def fork_and_exec_def by (auto intro!: only_intros)
  show ?thesis
    unfolding loopMount_def
  proof (rule effects_seq [OF fss], rule effects_call_bind, goal_cases)
    case (1 fs n st)
    then obtain f where f: "n = [(ReadFile ''/proc/filesystems'', f)]" "fs = map_option filesystem_names (r_text f)"
      by blast
    show ?case
      unfolding f
      by (auto intro!: effects_yield effects_call_bind effects_seq [OF run] split: option.split)
         (auto dest!: bspec intro: loop_call_okI)
  qed
qed

section \<open>Concrete runs\<close>

definition dir_stat :: stat_info where
  "dir_stat = \<lparr>st_uid = 0, st_gid = 0, st_mode = 493, st_kind = KDirectory, st_size = 0, st_dev = 7\<rparr>"

text \<open>Every path is a directory on one device and resolves to itself; programs succeed.\<close>

definition dir_env :: "event list \<Rightarrow> syscall \<Rightarrow> reply" where
  "dir_env es c =
     (case c of
        Realpath p \<Rightarrow> success\<lparr>r_text := Some p\<rparr>
      | ReadFile p \<Rightarrow> success\<lparr>r_text := Some (''nodev'' @ [TAB] @ ''proc'' @ [NL] @ [TAB] @ ''squashfs'' @ [NL])\<rparr>
      | Lstat p \<Rightarrow> success\<lparr>r_stat := dir_stat\<rparr>
      | Stat p \<Rightarrow> success\<lparr>r_stat := dir_stat\<rparr>
      | Waitpid p \<Rightarrow> success\<lparr>r_text := Some ''0''\<rparr>
      | _ \<Rightarrow> success)"

definition dir_world :: world where
  "dir_world = \<lparr>w_env = dir_env, w_trace = []\<rparr>"

definition volume_config :: UdiRootConfig where
  "volume_config = empty_UdiRootConfig\<lparr>udiMountPoint := Some ''/m'', auxiliary_gids := [100],
     target_uid := 1000, target_gid := 100, bindMountAllowedDevices := [7]\<rparr>"

definition sample_volume :: VolumeMap where
  "sample_volume = empty_VolumeMap\<lparr>vm_raw := \<lparr>sa_items = [''/d:/e''], sa_capacity = 10\<rparr>,
     vm_to := \<lparr>sa_items = [''/e''], sa_capacity = 10\<rparr>, vm_from := \<lparr>sa_items = [''/d''], sa_capacity = 10\<rparr>,
     vm_flags := [None], vm_n := 1, vm_flagsCapacity := 10\<rparr>"

definition sample_platform :: platform where
  "sample_platform = \<lparr>p_libexecdir = ''/l'', p_autoclear = False, p_fuel = 5\<rparr>"

text \<open>A run from the empty trace.\<close>

lemma effects_at: "effects p Q \<Longrightarrow> w_trace w = [] \<Longrightarrow> Q (fst (run_state p w)) (w_trace (snd (run_state p w)))"
  unfolding effects_def by (metis append_Nil)


lemma loopMount_guarded_witness:
  "fst (run_state (loopMount sample_platform ''/i'' ''/j'' FORMAT_SQUASHFS True) dir_world) = 0 \<and>
   (\<exists>args r. (Fork args True, r) \<in> set (w_trace (snd (run_state (loopMount sample_platform ''/i'' ''/j'' FORMAT_SQUASHFS True) dir_world))) \<and>
      loop_call_ok sample_platform ''/i'' ''/j'' True
        (w_trace (snd (run_state (loopMount sample_platform ''/i'' ''/j'' FORMAT_SQUASHFS True) dir_world))) args)"
proof -
  let ?run = "run_state (loopMount sample_platform ''/i'' ''/j'' FORMAT_SQUASHFS True) dir_world"
  have zero: "fst ?run = 0" by code_simp
  have "fst (w_trace (snd ?run) ! 3) = Fork [''/l/mount'', ''-n'', ''-o'', ''loop,nosuid,nodev,ro'', ''-t'', ''squashfs'',
      ''/i'', ''/j''] True"
    by code_simp
  moreover have "3 < length (w_trace (snd ?run))" by code_simp
  ultimately obtain args r where f: "(Fork args True, r) \<in> set (w_trace (snd ?run))"
    by (metis nth_mem prod.collapse)
  have "w_trace dir_world = []" by (simp add: dir_world_def)
  with zero f show ?thesis
    using effects_at [OF loopMount_guarded [of sample_platform "''/i''" "''/j''" FORMAT_SQUASHFS True]] by blast
qed


end
