(* ===== verification/ContainerRoot.thy ===== *)
theory ContainerRoot
  imports VolumeMounts Accounts SavedConfig
begin

text \<open>
  src/src/shifter_core.c, the construction of the container's file tree: copying files, binding the
  image into the tree, the site's own content (directories, /etc, hooks, /proc, /sys, /dev, /tmp), and
  the function that puts the image into the mount point.
\<close>

section \<open>Constants\<close>

definition MS_NOEXEC :: nat where "MS_NOEXEC = 8"
definition X_OK :: nat where "X_OK = 1"
definition INVALID_USER :: nat where "INVALID_USER = 2147483647"
definition INVALID_GROUP :: nat where "INVALID_GROUP = 2147483647"
definition FILE_SIZE_LIMIT :: nat where "FILE_SIZE_LIMIT = 5242880"

text \<open>The permission bits of a mode, and the bits that run a program with another identity.\<close>

definition MODE_RWX :: nat where "MODE_RWX = 511"
definition MODE_SPECIAL :: nat where "MODE_SPECIAL = 3584"

section \<open>Copying a file\<close>

text \<open>
  \<open>stat\<close> follows links, so the attributes of the source are never those of a link and the option that
  would keep a link is never passed. \<open>cpPath\<close> may be missing.
\<close>

definition shifterCore_copyFile ::
  "cstring option \<Rightarrow> cstring \<Rightarrow> cstring \<Rightarrow> bool \<Rightarrow> nat \<Rightarrow> nat \<Rightarrow> nat \<Rightarrow> int sys" where
  "shifterCore_copyFile cp source dest keepLink owner grp mode =
     (case cp of
        None \<Rightarrow> yield 1
      | Some cpProgram \<Rightarrow>
          if dest = [] \<or> source = [] then yield 1
          else do {
            d \<leftarrow> syscall (Stat dest);
            if r_rc d = 0 \<and> st_kind (r_stat d) \<noteq> KDirectory then yield 1
            else do {
              s \<leftarrow> syscall (Stat source);
              if r_rc s \<noteq> 0 \<or> st_kind (r_stat s) = KDirectory then yield 1
              else
                let isLink = (st_kind (r_stat s) = KSymlink);
                    cmdArgs = [cpProgram] @ (if isLink \<and> keepLink then [''-P''] else []) @ [source, dest];
                    uid = (if owner = INVALID_USER then st_uid (r_stat s) else owner);
                    gid = (if grp = INVALID_GROUP then st_gid (r_stat s) else grp);
                    tgtMode = (if mode = 0 then st_mode (r_stat s) AND MODE_RWX else mode);
                    finish = do {
                      m \<leftarrow> syscall (Chmod dest (tgtMode - (tgtMode AND MODE_SPECIAL)));
                      yield (if r_rc m \<noteq> 0 then 1 else 0)
                    }
                in do {
                  f \<leftarrow> forkAndExecv cmdArgs;
                  g \<leftarrow> (if f \<noteq> 0 then forkAndExecv cmdArgs else yield 0);
                  if g \<noteq> 0 then yield 1
                  else if uid \<noteq> INVALID_USER \<and> gid \<noteq> INVALID_GROUP then do {
                    c \<leftarrow> syscall (Chown dest (int uid) (int gid));
                    if r_rc c \<noteq> 0 then yield 1 else finish
                  }
                  else finish
                }
            }
          })"

section \<open>The site's and the modules' content of /opt/udiImage\<close>

definition udi :: "UdiRootConfig \<Rightarrow> cstring" where
  "udi udiConfig = show_str (udiMountPoint udiConfig)"

text \<open>Sources and destinations, the site's first, then each active module that has content.\<close>

definition copy_paths :: "UdiRootConfig \<Rightarrow> (cstring \<times> cstring) list" where
  "copy_paths udiConfig =
     (case optUdiImage udiConfig of
        None \<Rightarrow> []
      | Some p \<Rightarrow> [(p @ ''/'', udi udiConfig @ ''/opt/udiImage/'')]) @
     concat (map (\<lambda>i. case m_copyPath (modules udiConfig ! i) of
                        None \<Rightarrow> []
                      | Some p \<Rightarrow> [(p @ ''/'', udi udiConfig @ ''/opt/udiImage/modules/'' @
                                      m_name (modules udiConfig ! i) @ ''/'')])
       (active_modules udiConfig))"

fun copy_dir_entries :: "cstring \<Rightarrow> cstring \<Rightarrow> cstring \<Rightarrow> cstring list \<Rightarrow> int sys" where
  "copy_dir_entries cp src dest [] = yield 0"
| "copy_dir_entries cp src dest (e # es) =
     (if e = ''.'' \<or> e = ''..'' then copy_dir_entries cp src dest es
      else do {
        r \<leftarrow> forkAndExecv [cp, ''-rp'', src @ ''/'' @ e, dest];
        if r \<noteq> 0 then yield 1 else copy_dir_entries cp src dest es
      })"

fun copy_trees :: "cstring \<Rightarrow> (cstring \<times> cstring) list \<Rightarrow> int sys" where
  "copy_trees cp [] = yield 0"
| "copy_trees cp ((src, dest) # ps) =
     (if src = [] \<or> length src > PATH_MAX \<or> dest = [] \<or> length dest > PATH_MAX then yield 1
      else do {
        k \<leftarrow> syscall (Mkdir dest 493);
        if r_rc k \<noteq> 0 \<and> r_errno k \<noteq> EEXIST then yield 1
        else do {
          d \<leftarrow> syscall (ListDir src);
          if r_rc d < 0 then yield 1
          else do {
            r \<leftarrow> copy_dir_entries cp src dest (r_names d);
            if r \<noteq> 0 then yield 1 else copy_trees cp ps
          }
        }
      })"

definition shifterCore_copyUdiImage :: "UdiRootConfig \<Rightarrow> int sys" where
  "shifterCore_copyUdiImage udiConfig =
     do {
       r \<leftarrow> copy_trees (show_str (cpPath udiConfig)) (copy_paths udiConfig);
       if r \<noteq> 0 then yield 1
       else do {
         c \<leftarrow> forkAndExecv [show_str (chmodPath udiConfig), ''-R'', ''a+rX'', udi udiConfig @ ''/opt/udiImage''];
         yield (if c \<noteq> 0 then 1 else 0)
       }
     }"

section \<open>The image's own files\<close>

text \<open>What happens to one entry of a directory of the image.\<close>

datatype placement = Skip | CopyLink | CopyFile | BindFile | BindDir | CopyDir

definition place :: "bool \<Rightarrow> stat_info \<Rightarrow> placement" where
  "place copyFlag st =
     (case st_kind st of
        KSymlink \<Rightarrow> CopyLink
      | KRegular \<Rightarrow>
          if st_size st < FILE_SIZE_LIMIT then CopyFile else if copyFlag then Skip else BindFile
      | KDirectory \<Rightarrow> if copyFlag then CopyDir else BindDir
      | KOther \<Rightarrow> Skip)"

text \<open>
  The result is None to go on with the next entry. A failed copy gives 2; when a directory cannot be
  made or a bind mount fails the function stops with the value that \<open>rc\<close> has had from the start, 0.
\<close>

definition bind_entry ::
  "UdiRootConfig \<Rightarrow> bool \<Rightarrow> cstring \<Rightarrow> cstring \<Rightarrow> stat_info \<Rightarrow> MountList \<Rightarrow> (int option \<times> MountList) sys" where
  "bind_entry udiConfig copyFlag src mnt st mountCache =
     (let cp = show_str (cpPath udiConfig);
          copy = (\<lambda>flag. do {
            r \<leftarrow> forkAndExecv [cp, flag, src, mnt];
            yield (if r \<noteq> 0 then Some 2 else None, mountCache)
          });
          bind = do {
            (r, mountCache1) \<leftarrow> shifterCore_bindMount udiConfig mountCache src mnt 0 False;
            yield (if r \<noteq> 0 then Some 0 else None, mountCache1)
          }
      in case place copyFlag st of
           Skip \<Rightarrow> yield (None, mountCache)
         | CopyLink \<Rightarrow> copy ''-P''
         | CopyFile \<Rightarrow> copy ''-p''
         | CopyDir \<Rightarrow> copy ''-rp''
         | BindFile \<Rightarrow> do { f \<leftarrow> syscall (CreateFile mnt); bind }
         | BindDir \<Rightarrow> do {
             d \<leftarrow> syscall (Mkdir mnt 493);
             if r_rc d \<noteq> 0 then yield (Some 0, mountCache) else bind
           })"

fun bind_entries ::
  "UdiRootConfig \<Rightarrow> bool \<Rightarrow> cstring \<Rightarrow> cstring \<Rightarrow> cstring \<Rightarrow> cstring list \<Rightarrow> MountList \<Rightarrow> int sys" where
  "bind_entries udiConfig copyFlag imgRoot udiRoot relpath [] mountCache = yield 0"
| "bind_entries udiConfig copyFlag imgRoot udiRoot relpath (d # ds) mountCache =
     (if d = ''.'' \<or> d = ''..'' then bind_entries udiConfig copyFlag imgRoot udiRoot relpath ds mountCache
      else case userInputPathFilter (Some d) False of
        None \<Rightarrow> yield 2
      | Some itemname \<Rightarrow>
          let go_on = bind_entries udiConfig copyFlag imgRoot udiRoot relpath ds mountCache;
              mnt = path_buffer (udiRoot @ ''/'' @ relpath @ ''/'' @ itemname);
              src = path_buffer (imgRoot @ ''/'' @ relpath @ ''/'' @ itemname)
          in if itemname = [] then go_on
             else if pathcmp (Some (path_buffer (''/'' @ relpath @ ''/'' @ itemname))) (udiMountPoint udiConfig) = 0
             then go_on
             else do {
               e \<leftarrow> syscall (Lstat mnt);
               if r_rc e = 0 then go_on
               else do {
                 s \<leftarrow> syscall (Lstat src);
                 if r_rc s \<noteq> 0 then go_on
                 else do {
                   (r, mountCache1) \<leftarrow> bind_entry udiConfig copyFlag src mnt (r_stat s) mountCache;
                   (case r of
                      Some rc \<Rightarrow> yield rc
                    | None \<Rightarrow> bind_entries udiConfig copyFlag imgRoot udiRoot relpath ds mountCache1)
                 }
               }
             })"

definition image_root :: "ImageData \<Rightarrow> UdiRootConfig \<Rightarrow> cstring" where
  "image_root imageData udiConfig =
     path_buffer (show_str (if i_useLoopMount imageData then loopMountPoint udiConfig else i_filename imageData))"

definition bindImageIntoUDI :: "cstring \<Rightarrow> ImageData \<Rightarrow> UdiRootConfig \<Rightarrow> bool \<Rightarrow> int sys" where
  "bindImageIntoUDI relpath imageData udiConfig copyFlag =
     (if relpath = [] then yield 1
      else do {
        (p, mounts) \<leftarrow> read_mounts empty_MountList;
        if p \<noteq> 0 then yield 1
        else do {
          d \<leftarrow> syscall (ListDir (path_buffer (image_root imageData udiConfig @ ''/'' @ relpath)));
          if r_rc d < 0 then yield 1
          else bind_entries udiConfig copyFlag (image_root imageData udiConfig) (path_buffer (udi udiConfig))
                 relpath (r_names d) (set_order MOUNT_SORT_FORWARD mounts)
        }
      })"

section \<open>Sequences of steps\<close>

text \<open>
  The functions below are sequences of steps, each with an exit for errors. A step that ends the
  process has no result; otherwise the first result that is not 0 is the result of the sequence.
\<close>

fun run_steps :: "int option sys list \<Rightarrow> int option sys" where
  "run_steps [] = yield (Some 0)"
| "run_steps (p # ps) =
     do {
       r \<leftarrow> p;
       if r = Some 0 then run_steps ps else yield r
     }"

definition step :: "int sys \<Rightarrow> int option sys" where
  "step p = do { r \<leftarrow> p; yield (Some r) }"

text \<open>A call whose failure is the error 1.\<close>

definition must :: "syscall \<Rightarrow> int sys" where
  "must c = do { r \<leftarrow> syscall c; yield (if r_rc r \<noteq> 0 then 1 else 0) }"

definition run_hook :: "cstring \<Rightarrow> int sys" where
  "run_hook hook = do { r \<leftarrow> forkAndExecv [''/bin/sh'', hook]; yield (if r \<noteq> 0 then 1 else 0) }"

definition site_hook :: "cstring option \<Rightarrow> int sys" where
  "site_hook hook = (case hook of None \<Rightarrow> yield 0 | Some h \<Rightarrow> if h = [] then yield 0 else run_hook h)"

section \<open>The users of the container\<close>

definition INVALID_UID :: nat where "INVALID_UID = 4294967295"

fun import_groups :: "cstring \<Rightarrow> nat list \<Rightarrow> unit sys" where
  "import_groups group_fp [] = yield ()"
| "import_groups group_fp (g # gs) =
     do {
       r \<leftarrow> syscall (Getgrgid g);
       (case (r_text r, r_ids r) of
          (Some name, gid # ids) \<Rightarrow> do {
            w \<leftarrow> syscall (AppendFile group_fp (name @ '':x:'' @ show_int (to_i32 (int gid)) @ '':'' @ [NL]));
            import_groups group_fp gs
          }
        | _ \<Rightarrow> import_groups group_fp gs)
     }"

definition passwd_line :: "passwd \<Rightarrow> cstring" where
  "passwd_line pw =
     pw_name pw @ '':x:'' @ show_int (to_i32 (int (pw_uid pw))) @ '':'' @ show_int (to_i32 (int (pw_gid pw))) @
     '':'' @ pw_gecos pw @ '':'' @ pw_dir pw @ '':'' @ pw_shell pw @ [NL]"

text \<open>An id is looked up unless it is 0, a name unless it is missing, and the name counts.\<close>

definition import_user :: "cstring \<Rightarrow> cstring \<Rightarrow> nat \<Rightarrow> cstring option \<Rightarrow> UdiRootConfig \<Rightarrow> int sys" where
  "import_user passwd_fp group_fp uid uname config =
     do {
       byId \<leftarrow> (if 0 < uid then shifter_getpwuid uid config else yield None);
       pwd \<leftarrow> (case uname of None \<Rightarrow> yield byId | Some n \<Rightarrow> shifter_getpwnam n config);
       (case pwd of
          None \<Rightarrow> yield 1
        | Some pw \<Rightarrow> do {
            w \<leftarrow> syscall (AppendFile passwd_fp (passwd_line pw));
            gl \<leftarrow> shifter_getgrouplist (Some (pw_name pw)) (pw_gid pw);
            g \<leftarrow> import_groups group_fp (case gl of None \<Rightarrow> [] | Some gs \<Rightarrow> gs);
            yield 0
          })
     }"

section \<open>/etc\<close>

definition etc_path :: "UdiRootConfig \<Rightarrow> cstring \<Rightarrow> cstring" where
  "etc_path udiConfig name = path_buffer (path_buffer (udi udiConfig) @ ''/etc/'' @ name)"

definition mandatorySiteEtcFiles :: "cstring list" where
  "mandatorySiteEtcFiles = [''passwd'', ''group'', ''nsswitch.conf'']"

definition copyLocalEtcFiles :: "cstring list" where
  "copyLocalEtcFiles = [''hosts'', ''resolv.conf'']"

definition nsswitch_text :: cstring where
  "nsswitch_text =
     concat (map (\<lambda>l. l @ [NL])
       [''passwd: files'', ''group: files'', ''hosts: files dns'', ''networks:   files dns'', ''services: files'',
        ''protocols: files'', ''rpc: files'', ''ethers: files'', ''netmasks: files'', ''netgroup: files'',
        ''publickey: files'', ''bootparams: files'', ''automount: files'', ''aliases: files''])"

definition host_conf_text :: cstring where
  "host_conf_text = ''order bind,hosts'' @ [NL] @ ''multi on'' @ [NL]"

definition copy_local :: "UdiRootConfig \<Rightarrow> cstring \<Rightarrow> int sys" where
  "copy_local udiConfig name =
     shifterCore_copyFile (cpPath udiConfig) (''/etc/'' @ name) (etc_path udiConfig name) True 0 0 420"

definition check_absent :: "UdiRootConfig \<Rightarrow> cstring \<Rightarrow> int sys" where
  "check_absent udiConfig name =
     do { s \<leftarrow> syscall (Stat (etc_path udiConfig name)); yield (if r_rc s = 0 then 1 else 0) }"

fun copy_site_etc :: "UdiRootConfig \<Rightarrow> cstring \<Rightarrow> cstring list \<Rightarrow> int sys" where
  "copy_site_etc udiConfig etc [] = yield 0"
| "copy_site_etc udiConfig etc (d # ds) =
     (if d = ''.'' \<or> d = ''..'' then copy_site_etc udiConfig etc ds
      else case userInputPathFilter (Some d) False of
        None \<Rightarrow> yield 1
      | Some filename \<Rightarrow> do {
          s \<leftarrow> syscall (Lstat (path_buffer (etc @ ''/'' @ filename)));
          if r_rc s \<noteq> 0 then yield 1
          else do {
            t \<leftarrow> syscall (Lstat (etc_path udiConfig filename));
            if r_rc t = 0 then yield 1
            else do {
              c \<leftarrow> shifterCore_copyFile (cpPath udiConfig) (path_buffer (etc @ ''/'' @ filename))
                     (etc_path udiConfig filename) False 0 0 420;
              if c \<noteq> 0 then yield c else copy_site_etc udiConfig etc ds
            }
          }
        })"

text \<open>Reading a directory that cannot be opened ends the process.\<close>

definition static_etc :: "UdiRootConfig \<Rightarrow> int option sys" where
  "static_etc udiConfig =
     (case etcPath udiConfig of
        None \<Rightarrow> yield (Some 1)
      | Some etc \<Rightarrow>
          if etc = [] then yield (Some 1)
          else do {
            s \<leftarrow> syscall (Stat (path_buffer etc));
            if r_rc s \<noteq> 0 then yield (Some 1)
            else do {
              d \<leftarrow> syscall (ListDir (path_buffer etc));
              if r_rc d < 0 then yield None else step (copy_site_etc udiConfig etc (r_names d))
            }
          })"

definition write_file :: "cstring \<Rightarrow> cstring \<Rightarrow> int sys" where
  "write_file path contents =
     do {
       f \<leftarrow> syscall (CreateFile path);
       if r_rc f \<noteq> 0 then yield 1
       else do { w \<leftarrow> syscall (AppendFile path contents); yield 0 }
     }"

definition dynamic_etc :: "UdiRootConfig \<Rightarrow> int option sys" where
  "dynamic_etc udiConfig =
     (let passwd_fp = etc_path udiConfig ''passwd''; group_fp = etc_path udiConfig ''group''
      in run_steps
           ([step (must (CreateFile passwd_fp)), step (must (CreateFile group_fp)),
             step (import_user passwd_fp group_fp (target_uid udiConfig) None udiConfig)] @
            map (\<lambda>u. step (import_user passwd_fp group_fp INVALID_UID (Some u) udiConfig))
              (sa_items (usersToImport udiConfig)) @
            [step (write_file (etc_path udiConfig ''nsswitch.conf'') nsswitch_text),
             step (write_file (etc_path udiConfig ''host.conf'') host_conf_text)]))"

definition populate_etc :: "UdiRootConfig \<Rightarrow> int option sys" where
  "populate_etc udiConfig =
     (if \<not> populateEtcDynamically udiConfig then static_etc udiConfig
      else if target_uid udiConfig \<noteq> 0 \<and> target_gid udiConfig \<noteq> 0 then dynamic_etc udiConfig
      else yield (Some 1))"

definition own_etc_file :: "UdiRootConfig \<Rightarrow> cstring \<Rightarrow> int option sys" where
  "own_etc_file udiConfig name =
     run_steps [step (must (Stat (etc_path udiConfig name))), step (must (Chown (etc_path udiConfig name) 0 0)),
                step (must (Chmod (etc_path udiConfig name) 420))]"

definition filter_groups :: "cstring \<Rightarrow> cstring \<Rightarrow> UdiRootConfig \<Rightarrow> int option sys" where
  "filter_groups junk user udiConfig =
     run_steps
       [step (forkAndExecv [show_str (mvPath udiConfig), etc_path udiConfig ''group'', etc_path udiConfig ''group.orig'']),
        step (filterEtcGroup junk (etc_path udiConfig ''group'') (etc_path udiConfig ''group.orig'') user
                (maxGroupCount udiConfig))]"

section \<open>The site's modifications\<close>

definition site_dirs :: "(cstring \<times> nat) list" where
  "site_dirs =
     [(''etc'', 493), (''etc/udiImage'', 493), (''opt'', 493), (''opt/udiImage'', 493),
      (''opt/udiImage/modules'', 493), (''var'', 493), (''var/spool'', 493), (''var/run'', 493),
      (''var/tmp'', 493), (''var/empty'', 448), (''proc'', 493), (''sys'', 493), (''dev'', 493), (''tmp'', 511)]"

definition root_path :: "UdiRootConfig \<Rightarrow> cstring \<Rightarrow> cstring" where
  "root_path udiConfig name = path_buffer (path_buffer (udi udiConfig) @ ''/'' @ name)"

text \<open>The volumes of the active modules, one module after the other.\<close>

fun module_mounts ::
  "platform \<Rightarrow> nat \<Rightarrow> UdiRootConfig \<Rightarrow> ShifterModule list \<Rightarrow> MountList \<Rightarrow> (int \<times> MountList) option sys" where
  "module_mounts pf dev udiConfig [] mountCache = yield (Some (0, mountCache))"
| "module_mounts pf dev udiConfig (m # ms) mountCache =
     (case m_siteFs m of
        None \<Rightarrow> module_mounts pf dev udiConfig ms mountCache
      | Some vm \<Rightarrow> do {
          r \<leftarrow> setupVolumeMapMounts pf mountCache (Some vm) False dev udiConfig;
          (case r of
             None \<Rightarrow> yield None
           | Some (rc, mountCache1) \<Rightarrow>
               if rc \<noteq> 0 then yield (Some (1, mountCache1)) else module_mounts pf dev udiConfig ms mountCache1)
        })"

definition active_list :: "UdiRootConfig \<Rightarrow> ShifterModule list" where
  "active_list udiConfig = map (\<lambda>i. modules udiConfig ! i) (active_modules udiConfig)"

text \<open>Directories, the hook before the mounts, the site's volumes, the hook after them, the modules' volumes.\<close>

definition site_mounts ::
  "platform \<Rightarrow> nat \<Rightarrow> UdiRootConfig \<Rightarrow> MountList \<Rightarrow> (int \<times> MountList) option sys" where
  "site_mounts pf dev udiConfig mounts =
     do {
       d \<leftarrow> run_steps (map (\<lambda>(dir, perm). step (must (Mkdir dir perm))) site_dirs @
                        [step (site_hook (sitePreMountHook udiConfig))]);
       if d \<noteq> Some 0 then yield (Some (1, mounts))
       else do {
         s \<leftarrow> setupVolumeMapMounts pf mounts (siteFs udiConfig) False dev udiConfig;
         (case s of
            None \<Rightarrow> yield None
          | Some (rc, mounts1) \<Rightarrow>
              if rc \<noteq> 0 then yield (Some (1, mounts1))
              else do {
                h \<leftarrow> site_hook (sitePostMountHook udiConfig);
                if h \<noteq> 0 then yield (Some (1, mounts1))
                else module_mounts pf dev udiConfig (active_list udiConfig) mounts1
              })
       }
     }"

text \<open>Everything in /etc, the site's programs, the hosts file and the modules' hooks.\<close>

definition site_content ::
  "cstring \<Rightarrow> cstring \<Rightarrow> cstring option \<Rightarrow> UdiRootConfig \<Rightarrow> int option sys" where
  "site_content junk user minNodeSpec udiConfig =
     run_steps
       ([step (must (Symlink ''/proc/mounts'' (etc_path udiConfig ''mtab'')))] @
        map (\<lambda>n. step (copy_local udiConfig n)) copyLocalEtcFiles @
        map (\<lambda>n. step (check_absent udiConfig n)) mandatorySiteEtcFiles @
        [populate_etc udiConfig, step (must (CreateFile (etc_path udiConfig ''shadow'')))] @
        map (own_etc_file udiConfig) mandatorySiteEtcFiles @
        [filter_groups junk user udiConfig, step (shifterCore_copyUdiImage udiConfig)] @
        (case minNodeSpec of None \<Rightarrow> [] | Some spec \<Rightarrow> [step (writeHostFile (Some spec) udiConfig)]) @
        concat (map (\<lambda>m. case m_roothook m of None \<Rightarrow> [] | Some h \<Rightarrow> [step (run_hook h)]) (active_list udiConfig)))"

fun bind_system :: "UdiRootConfig \<Rightarrow> cstring list \<Rightarrow> MountList \<Rightarrow> (int \<times> MountList) sys" where
  "bind_system udiConfig [] mounts = yield (0, mounts)"
| "bind_system udiConfig (d # ds) mounts =
     do {
       (r, mounts1) \<leftarrow> shifterCore_bindMount udiConfig mounts (''/'' @ d) (root_path udiConfig d) 0 True;
       if r \<noteq> 0 then yield (1, mounts1) else bind_system udiConfig ds mounts1
     }"

definition linux_mounts :: "UdiRootConfig \<Rightarrow> MountList \<Rightarrow> int sys" where
  "linux_mounts udiConfig mounts =
     do {
       p \<leftarrow> syscall (Mount None (root_path udiConfig ''proc'') (Some ''proc'')
              (MS_NOSUID OR MS_NOEXEC OR MS_NODEV));
       if r_rc p \<noteq> 0 then yield 1
       else do {
         (r, mounts1) \<leftarrow> bind_system udiConfig [''sys'', ''dev'', ''tmp''] mounts;
         if r \<noteq> 0 then yield 1
         else do {
           a \<leftarrow> syscall (Access ''/var/tmp'' X_OK);
           if r_rc a = 0 then do {
             (v, mounts2) \<leftarrow> bind_system udiConfig [''var/tmp''] mounts1;
             yield v
           }
           else yield 0
         }
       }
     }"

definition site_setup ::
  "platform \<Rightarrow> cstring \<Rightarrow> cstring \<Rightarrow> cstring option \<Rightarrow> UdiRootConfig \<Rightarrow> int option sys" where
  "site_setup pf junk user minNodeSpec udiConfig =
     do {
       st \<leftarrow> syscall (Stat (path_buffer (udi udiConfig)));
       if r_rc st \<noteq> 0 then yield (Some 1)
       else do {
         c \<leftarrow> syscall (Chdir (path_buffer (udi udiConfig)));
         if r_rc c \<noteq> 0 then yield (Some 1)
         else do {
           (p, mounts) \<leftarrow> read_mounts empty_MountList;
           if p \<noteq> 0 then yield (Some 1)
           else do {
             m \<leftarrow> site_mounts pf (st_dev (r_stat st)) udiConfig mounts;
             (case m of
                None \<Rightarrow> yield None
              | Some (rc, mounts1) \<Rightarrow>
                  if rc \<noteq> 0 then yield (Some 1)
                  else run_steps [site_content junk user minNodeSpec udiConfig,
                                  step (linux_mounts udiConfig mounts1)])
           }
         }
       }
     }"

text \<open>Every error exit tears the container down.\<close>

definition prepareSiteModifications ::
  "platform \<Rightarrow> cstring \<Rightarrow> cstring \<Rightarrow> cstring option \<Rightarrow> UdiRootConfig \<Rightarrow> int option sys" where
  "prepareSiteModifications pf junk user minNodeSpec udiConfig =
     do {
       r \<leftarrow> site_setup pf junk user minNodeSpec udiConfig;
       (case r of
          None \<Rightarrow> yield None
        | Some rc \<Rightarrow>
            if rc = 0 then yield (Some 0)
            else do { d \<leftarrow> destructUDI udiConfig False; yield (Some rc) })
     }"

section \<open>The image in its place\<close>

text \<open>Only a result above 1 counts as a failure of \<open>bindImageIntoUDI\<close>.\<close>

definition bind_image :: "ImageData \<Rightarrow> UdiRootConfig \<Rightarrow> cstring \<Rightarrow> bool \<Rightarrow> int sys" where
  "bind_image imageData udiConfig subtree copyFlag =
     do { r \<leftarrow> bindImageIntoUDI subtree imageData udiConfig copyFlag; yield (if 1 < r then 1 else 0) }"

definition prepare_root :: "UdiRootConfig \<Rightarrow> cstring \<Rightarrow> int option sys" where
  "prepare_root udiConfig udiRoot =
     do {
       l \<leftarrow> syscall (Lstat udiRoot);
       run_steps
         ((if r_rc l \<noteq> 0 then [step (must (Mkdir udiRoot 493))] else []) @
          [step (must (Mount None udiRoot (rootfsType udiConfig) (MS_NOSUID OR MS_NODEV))),
           step (makeUdiMountPrivate udiConfig), step (must (Chmod udiRoot 493))])
     }"

text \<open>The devices of the container's root, of the image and of /tmp.\<close>

definition allowed_devices :: "ImageData \<Rightarrow> UdiRootConfig \<Rightarrow> cstring \<Rightarrow> nat list option sys" where
  "allowed_devices imageData udiConfig udiRoot =
     do {
       d \<leftarrow> syscall (Lstat udiRoot);
       if r_rc d \<noteq> 0 then yield None
       else do {
         s \<leftarrow> syscall (Lstat (show_str (if i_useLoopMount imageData then loopMountPoint udiConfig
                                        else i_filename imageData)));
         if r_rc s \<noteq> 0 then yield None
         else do {
           t \<leftarrow> syscall (Lstat ''/tmp'');
           yield (if r_rc t \<noteq> 0 then None
                  else Some [st_dev (r_stat d), st_dev (r_stat s), st_dev (r_stat t)])
         }
       }
     }"

text \<open>The configuration comes back because the devices are kept in it for the user's own mounts.\<close>

definition mountImageVFS ::
  "platform \<Rightarrow> cstring \<Rightarrow> ImageData \<Rightarrow> cstring option \<Rightarrow> cstring option \<Rightarrow> UdiRootConfig \<Rightarrow>
   (int option \<times> UdiRootConfig) sys" where
  "mountImageVFS pf junk imageData username' minNodeSpec udiConfig =
     do {
       um \<leftarrow> syscall (Umask 18);
       (case username' of
          None \<Rightarrow> yield (Some 1, udiConfig)
        | Some user \<Rightarrow>
            if i_type imageData = Some ''local'' \<and> \<not> allowLocalChroot udiConfig
            then yield (Some 1, udiConfig)
            else
              let udiRoot = path_buffer (udi udiConfig)
              in do {
                p \<leftarrow> prepare_root udiConfig udiRoot;
                if p \<noteq> Some 0 then yield (Some 1, udiConfig)
                else do {
                  a \<leftarrow> allowed_devices imageData udiConfig udiRoot;
                  (case a of
                     None \<Rightarrow> yield (Some 1, udiConfig)
                   | Some devs \<Rightarrow>
                       let config = udiConfig\<lparr>bindMountAllowedDevices := devs\<rparr>
                       in do {
                         s \<leftarrow> prepareSiteModifications pf junk user minNodeSpec config;
                         (case s of
                            None \<Rightarrow> yield (None, config)
                          | Some rc \<Rightarrow>
                              if rc \<noteq> 0 then yield (Some 1, config)
                              else do {
                                b \<leftarrow> run_steps
                                  [step (bind_image imageData config ''/'' False),
                                   step (bind_image imageData config ''/var'' False),
                                   step (bind_image imageData config ''/opt'' False),
                                   step (must (Mkdir (udiRoot @ ''/etc/ssh'') 493)),
                                   step (bind_image imageData config ''/etc'' True)];
                                yield (b, config)
                              })
                       })
                }
              })
     }"

section \<open>Which calls the construction of a container makes\<close>

text \<open>
  A process leaves its program or its root directory by two calls. The construction of a container makes
  neither; so a statement on all calls of a run holds for every function below when it holds for every
  other call.
\<close>

fun leaves :: "syscall \<Rightarrow> bool" where
  "leaves (Execve f args env) \<longleftrightarrow> True"
| "leaves (Chroot p) \<longleftrightarrow> True"
| "leaves c \<longleftrightarrow> False"

locale building =
  fixes P :: "event \<Rightarrow> bool"
  assumes allowed: "\<And>c r. \<not> leaves c \<Longrightarrow> P (c, r)"
begin

lemma run_steps: "\<forall>p\<in>set ps. only P p \<Longrightarrow> only P (run_steps ps)"
  by (induction ps) (auto intro!: only_intros)

lemma helpers [only_intros]:
  "only P p \<Longrightarrow> only P (step p)"
  "\<not> leaves c \<Longrightarrow> only P (must c)"
  "only P (fork_and_exec args silent)"
  by (auto intro!: only_intros allowed simp: step_def must_def fork_and_exec_def)

lemma execs [only_intros]:
  "only P (forkAndExecv args)" "only P (forkAndExecvSilent args)" "only P (run_hook h)" "only P (site_hook hook)"
  by (auto intro!: only_intros split: option.split
      simp: forkAndExecv_def forkAndExecvSilent_def run_hook_def site_hook_def)

lemma lookups [only_intros]: "only P (shifter_realpath n src config)"
  by (rule only_mono [OF realpath_lookups]) (auto simp: is_lookup_def intro: allowed)

lemma unmounts [only_intros]:
  "only P (read_mounts m)" "only P (unmountTree m base)" "only P (validateUnmounted p sub)" "only P (unmount_retry n m t)"
proof -
  have P: "P e" if "unmounting e" for e
    using that by (cases e) (auto simp: unmounting_def intro: allowed)
  show "only P (read_mounts m)" "only P (unmountTree m base)" "only P (validateUnmounted p sub)" "only P (unmount_retry n m t)"
    by (rule only_mono [OF only_unmounting(2) P] only_mono [OF only_unmounting(1) P]
          only_mono [OF only_unmounting_validate P] only_mono [OF unmount_retry_unmounting P]; assumption)+
qed

lemma bindMount [only_intros]: "only P (shifterCore_bindMount c m from to fl ov)"
  unfolding shifterCore_bindMount_def bindMount_mounts_def bindMount_unclean_def Let_def
  by (auto intro!: only_intros allowed split: option.split)

lemma copyFile [only_intros]: "only P (shifterCore_copyFile cp src dest k ow g mode)"
  unfolding shifterCore_copyFile_def Let_def by (intro only_intros allowed; simp)

lemma copy_dir_entries [only_intros]: "only P (copy_dir_entries cp src dest es)"
  by (induction es) (auto intro!: only_intros)

lemma copy_trees [only_intros]: "only P (copy_trees cp ps)"
  by (induction ps) (auto intro!: only_intros allowed)

lemma copyUdiImage [only_intros]: "only P (shifterCore_copyUdiImage c)"
  unfolding shifterCore_copyUdiImage_def by (intro only_intros)

lemma bind_entry [only_intros]: "only P (bind_entry c cf src mnt st m)"
  unfolding bind_entry_def Let_def by (auto intro!: only_intros allowed split: placement.split)

lemma bind_entries [only_intros]: "only P (bind_entries c cf ir ur rel ds m)"
proof (induction ds arbitrary: m)
  case (Cons d ds)
  show ?case
    by (simp only: bind_entries.simps Let_def) (intro only_intros allowed Cons.IH; simp)
qed (auto intro!: only_intros)

lemma bind_image [only_intros]: "only P (bind_image img c sub cf)"
  unfolding bind_image_def bindImageIntoUDI_def by (intro only_intros allowed; simp)

lemma make_private [only_intros]: "only P (makeUdiMountPrivate c)"
  unfolding makeUdiMountPrivate_def by (intro only_intros allowed; simp)

lemma users [only_intros]:
  "only P (shifter_getpwuid u c)" "only P (shifter_getpwnam n c)" "only P (shifter_getgrouplist us g)"
  by (auto intro!: only_intros allowed split: option.split
      simp: shifter_getpwuid_def shifter_getpwnam_def shifter_getgrouplist_def)

lemma import_groups [only_intros]: "only P (import_groups f gs)"
  by (induction gs) (auto intro!: only_intros allowed split: list.split option.split)

lemma import_user [only_intros]: "only P (import_user p g u n c)"
  unfolding import_user_def by (intro only_intros allowed; simp)

lemma copy_site_etc [only_intros]: "only P (copy_site_etc c etc ds)"
  by (induction ds) (auto intro!: only_intros allowed split: option.split)

lemma etc [only_intros]:
  "only P (copy_local c n)" "only P (check_absent c n)" "only P (static_etc c)" "only P (write_file f t)"
  by (auto intro!: only_intros allowed split: option.split
      simp: copy_local_def check_absent_def static_etc_def write_file_def)

lemma populate_etc [only_intros]: "only P (populate_etc c)"
  unfolding populate_etc_def dynamic_etc_def Let_def
  by (intro only_intros run_steps) (auto intro!: only_intros allowed)

lemma group_and_hosts [only_intros]: "only P (filterEtcGroup j d s u m)" "only P (writeHostFile spec c)"
  unfolding filterEtcGroup_def writeHostFile_def by (auto intro!: only_intros allowed split: option.split)

lemma own_filter [only_intros]: "only P (own_etc_file c n)" "only P (filter_groups j u c)"
  unfolding own_etc_file_def filter_groups_def
  by (intro run_steps; auto intro!: only_intros allowed)+

lemma site_content [only_intros]: "only P (site_content j u spec c)"
  unfolding site_content_def
  by (rule run_steps) (auto intro!: only_intros allowed split: option.splits)

lemma bind_system [only_intros]: "only P (bind_system c ds m)"
  by (induction ds arbitrary: m) (auto intro!: only_intros)

lemma linux_mounts [only_intros]: "only P (linux_mounts c m)"
  unfolding linux_mounts_def by (intro only_intros allowed; simp)

lemma loops [only_intros]: "only P (loopMount pf img path fmt ro)" "only P (mountImageLoop pf imd c)"
  unfolding loopMount_def mountImageLoop_def getSupportedFilesystems_def
  by (auto intro!: only_intros allowed split: option.split)

lemma caches [only_intros]:
  "only P (setupPerNodeCacheFilename c ca buf len)" "only P (setupPerNodeCacheBackingStore ca buf c)"
  unfolding setupPerNodeCacheFilename_def setupPerNodeCacheBackingStore_def
  by (auto intro!: only_intros allowed split: option.split)

lemma setup_caches [only_intros]: "only P (setup_caches c fs fe buf b)"
  by (induction fs arbitrary: fe buf b)
     (auto intro!: only_intros allowed split: option.split VolumeMapFlag.split)

lemma check_source [only_intros]: "only P (check_source pf user ff fb c)"
  unfolding check_source_def locate_source_def assume_user_def resume_privileges_def saved_groups_def
  by (auto intro!: only_intros allowed split: option.split)

lemma mount_entry [only_intros]: "only P (mount_entry pf user dev c m flags fe ff fb tb mc)"
  unfolding mount_entry_def find_target_def validate_mount_def mount_cache_def Let_def
  by (auto intro!: only_intros allowed split: option.split)

lemma setup_entries [only_intros]: "only P (setup_entries pf user dev c m vm is mc)"
  by (induction "is" arbitrary: mc)
     (auto intro!: only_intros allowed simp: setup_entry_def split: option.split)

lemma volumes [only_intros]:
  "only P (setupVolumeMapMounts pf m vm u d c)" "only P (setupUserMounts pf v c)"
  by (auto intro!: only_intros allowed simp: setupVolumeMapMounts_def setupUserMounts_def split: option.split)

lemma module_mounts [only_intros]: "only P (module_mounts pf d c ms m)"
  by (induction ms arbitrary: m) (auto intro!: only_intros split: option.split)

lemma site_mounts [only_intros]: "only P (site_mounts pf d c m)"
  unfolding site_mounts_def by (intro only_intros run_steps) (auto intro!: only_intros allowed)

lemma killSshd [only_intros]: "only P killSshd"
proof -
  have "only P (scan_proc command ds)" for command ds
    by (induction ds) (auto intro!: only_intros allowed simp: Let_def split: option.split)
  then show ?thesis
    unfolding killSshd_def findSshd_def shifter_find_process_by_cmdline_def
    by (auto intro!: only_intros allowed)
qed

lemma destructUDI [only_intros]: "only P (destructUDI c k)"
proof -
  have "only P (destruct_rounds n first k root loop m)" for n first root loop m
    by (induction n arbitrary: first m) (auto intro!: only_intros allowed)
  then show ?thesis unfolding destructUDI_def by (intro only_intros)
qed

lemma prepare [only_intros]: "only P (prepareSiteModifications pf j u spec c)"
  unfolding prepareSiteModifications_def site_setup_def
  by (intro only_intros run_steps allowed) (auto intro: only_intros)

lemma mountImageVFS [only_intros]: "only P (mountImageVFS pf j img u spec c)"
  unfolding mountImageVFS_def prepare_root_def allowed_devices_def Let_def
  by (intro only_intros run_steps allowed) (auto intro!: only_intros allowed)

end

text \<open>Every call is a call.\<close>

interpretation any_call: building "\<lambda>e. True"
  by unfold_locales simp

lemma logs_only: "only P p \<Longrightarrow> logs p"
  by (erule effects_mono) simp

lemma logs_run_steps: "\<forall>p\<in>set ps. logs p \<Longrightarrow> logs (run_steps ps)"
  by (induction ps) (auto intro!: logs_intros)

lemma logs_helpers [logs_intros]:
  "logs p \<Longrightarrow> logs (step p)"
  "logs (must c)"
  by (auto intro!: logs_intros simp: step_def must_def)

lemmas logs_functions [logs_intros] =
  any_call.execs [THEN logs_only] any_call.bindMount [THEN logs_only] any_call.copyFile [THEN logs_only]
  any_call.copyUdiImage [THEN logs_only] any_call.bind_image [THEN logs_only] any_call.make_private [THEN logs_only]
  any_call.import_user [THEN logs_only] any_call.etc [THEN logs_only] any_call.populate_etc [THEN logs_only]
  any_call.group_and_hosts [THEN logs_only] any_call.own_filter [THEN logs_only]
  any_call.site_content [THEN logs_only] any_call.linux_mounts [THEN logs_only] any_call.volumes [THEN logs_only]
  any_call.bind_system [THEN logs_only] any_call.module_mounts [THEN logs_only] any_call.destructUDI [THEN logs_only]

lemmas logs_unmount_retry = any_call.unmounts(4) [THEN logs_only]
lemmas logs_site_mounts [logs_intros] = any_call.site_mounts [THEN logs_only]
lemmas logs_prepare [logs_intros] = any_call.prepare [THEN logs_only]
lemmas logs_destructUDI = any_call.destructUDI [THEN logs_only]

section \<open>What a successful sequence has done\<close>

text \<open>Success means that a call with a property was made.\<close>

abbreviation ensures :: "(event \<Rightarrow> bool) \<Rightarrow> int option sys \<Rightarrow> bool" where
  "ensures P p \<equiv> effects p (\<lambda>r es. r = Some 0 \<longrightarrow> (\<exists>e\<in>set es. P e))"

named_theorems ensures_intros "sequences that make a call when they succeed"

lemma ensures_run_steps:
  "p \<in> set ps \<Longrightarrow> ensures P p \<Longrightarrow> \<forall>q\<in>set ps. logs q \<Longrightarrow> ensures P (run_steps ps)"
proof (induction ps)
  case (Cons q ps)
  show ?case
  proof (cases "p = q")
    case True
    have "logs (run_steps ps)" using Cons.prems(3) by (intro logs_run_steps) simp
    then show ?thesis
      unfolding run_steps.simps True [symmetric]
      by (auto intro!: effects_seq [OF Cons.prems(2)] effects_yield elim!: effects_mono)
  next
    case False
    then have IH: "ensures P (run_steps ps)" using Cons by simp
    have "logs q" using Cons.prems(3) by simp
    then show ?thesis
      unfolding run_steps.simps
      by (rule effects_skip) (auto intro!: effects_yield effects_mono [OF IH])
  qed
qed simp

lemma ensures_must: "(\<And>r. r_rc r = 0 \<Longrightarrow> P (c, r)) \<Longrightarrow> ensures P (step (must c))"
  unfolding step_def must_def
  by (rule effects_seq [where Q = "\<lambda>r n. r = 0 \<longrightarrow> (\<exists>e\<in>set n. P e)"])
     (auto intro!: effects_call_bind effects_yield split: if_splits)

lemma ensures_step:
  "effects p (\<lambda>r es. r = 0 \<longrightarrow> (\<exists>e\<in>set es. P e)) \<Longrightarrow> ensures P (step p)"
  unfolding step_def by (erule effects_seq) (auto intro!: effects_yield)

text \<open>The facts about /etc and /proc that success of the site's modifications stands for.\<close>

definition owned_by_root :: "cstring \<Rightarrow> event list \<Rightarrow> bool" where
  "owned_by_root p es \<longleftrightarrow>
     (\<exists>a c m. (Stat p, a) \<in> set es \<and> r_rc a \<noteq> 0 \<and> (Chown p 0 0, c) \<in> set es \<and> r_rc c = 0 \<and>
        (Chmod p 420, m) \<in> set es \<and> r_rc m = 0)"

lemma site_content_ensures:
  assumes "n \<in> set mandatorySiteEtcFiles"
  shows "ensures (\<lambda>e. \<exists>r. e = (Stat (etc_path c n), r) \<and> r_rc r \<noteq> 0) (site_content j u spec c)"
    and "ensures (\<lambda>e. \<exists>r. e = (Chown (etc_path c n) 0 0, r) \<and> r_rc r = 0) (site_content j u spec c)"
    and "ensures (\<lambda>e. \<exists>r. e = (Chmod (etc_path c n) 420, r) \<and> r_rc r = 0) (site_content j u spec c)"
    and "ensures (\<lambda>e. \<exists>r. e = (CreateFile (etc_path c ''shadow''), r) \<and> r_rc r = 0) (site_content j u spec c)"
    and "ensures (\<lambda>e. \<exists>r. e = (ReadFile (etc_path c ''group.orig''), r)) (site_content j u spec c)"
proof -
  note sc = ensures_run_steps
  have all: "\<forall>q\<in>set ([step (must (Symlink ''/proc/mounts'' (etc_path c ''mtab'')))] @
        map (\<lambda>n. step (copy_local c n)) copyLocalEtcFiles @
        map (\<lambda>n. step (check_absent c n)) mandatorySiteEtcFiles @
        [populate_etc c, step (must (CreateFile (etc_path c ''shadow'')))] @
        map (own_etc_file c) mandatorySiteEtcFiles @
        [filter_groups j u c, step (shifterCore_copyUdiImage c)] @
        (case spec of None \<Rightarrow> [] | Some sp \<Rightarrow> [step (writeHostFile (Some sp) c)]) @
        concat (map (\<lambda>m. case m_roothook m of None \<Rightarrow> [] | Some h \<Rightarrow> [step (run_hook h)]) (active_list c))). logs q"
    by (auto intro!: logs_intros split: option.splits)
  have own: "ensures P (own_etc_file c n)"
    if "ensures P (step (must (Chown (etc_path c n) 0 0))) \<or> ensures P (step (must (Chmod (etc_path c n) 420)))" for P
    using that unfolding own_etc_file_def
    by (elim disjE; intro ensures_run_steps) (auto intro: logs_intros)
  show "ensures (\<lambda>e. \<exists>r. e = (Stat (etc_path c n), r) \<and> r_rc r \<noteq> 0) (site_content j u spec c)"
    unfolding site_content_def
    by (rule sc [OF _ _ all, of "step (check_absent c n)"])
       (use assms in \<open>auto intro!: ensures_step effects_call_bind effects_yield simp: check_absent_def\<close>)
  show "ensures (\<lambda>e. \<exists>r. e = (Chown (etc_path c n) 0 0, r) \<and> r_rc r = 0) (site_content j u spec c)"
    unfolding site_content_def
    by (rule sc [OF _ _ all, of "own_etc_file c n"])
       (use assms in \<open>auto intro!: own disjI1 ensures_must\<close>)
  show "ensures (\<lambda>e. \<exists>r. e = (Chmod (etc_path c n) 420, r) \<and> r_rc r = 0) (site_content j u spec c)"
    unfolding site_content_def
    by (rule sc [OF _ _ all, of "own_etc_file c n"])
       (use assms in \<open>auto intro!: own disjI2 ensures_must\<close>)
  show "ensures (\<lambda>e. \<exists>r. e = (CreateFile (etc_path c ''shadow''), r) \<and> r_rc r = 0) (site_content j u spec c)"
    unfolding site_content_def
    by (rule sc [OF _ _ all, of "step (must (CreateFile (etc_path c ''shadow'')))"])
       (auto intro!: ensures_must)
  have "ensures (\<lambda>e. \<exists>r. e = (ReadFile (etc_path c ''group.orig''), r))
      (step (filterEtcGroup j (etc_path c ''group'') (etc_path c ''group.orig'') u (maxGroupCount c)))"
    unfolding filterEtcGroup_def
    by (auto intro!: ensures_step effects_yield effects_call_bind split: option.split)
  then have "ensures (\<lambda>e. \<exists>r. e = (ReadFile (etc_path c ''group.orig''), r)) (filter_groups j u c)"
    unfolding filter_groups_def by (intro ensures_run_steps) (auto intro: logs_intros)
  then show "ensures (\<lambda>e. \<exists>r. e = (ReadFile (etc_path c ''group.orig''), r)) (site_content j u spec c)"
    unfolding site_content_def by (intro sc [OF _ _ all]) auto
qed

lemma linux_mounts_proc:
  "effects (linux_mounts c m) (\<lambda>r es. r = 0 \<longrightarrow>
     (\<exists>e\<in>set es. \<exists>p. e = (Mount None (root_path c ''proc'') (Some ''proc'') (MS_NOSUID OR MS_NOEXEC OR MS_NODEV), p) \<and>
        r_rc p = 0))"
  unfolding linux_mounts_def
proof (rule effects_call_bind, goal_cases)
  case (1 p)
  have "logs (if r_rc p \<noteq> 0 then yield (1::int) else do {
         (r, mounts1) \<leftarrow> bind_system c [''sys'', ''dev'', ''tmp''] m;
         if r \<noteq> 0 then yield 1
         else do {
           a \<leftarrow> syscall (Access ''/var/tmp'' X_OK);
           if r_rc a = 0 then do {
             (v, mounts2) \<leftarrow> bind_system c [''var/tmp''] mounts1;
             yield v
           }
           else yield 0
         }
       })" by (intro logs_intros)
  note rest = this
  show ?case
  proof (cases "r_rc p = 0")
    case True
    show ?thesis by (rule effects_mono [OF rest]) (use True in auto)
  qed (auto intro!: effects_yield)
qed

lemma site_setup_ensures:
  assumes "\<And>m. ensures P (run_steps [site_content j u spec c, step (linux_mounts c m)])"
  shows "ensures P (site_setup pf j u spec c)"
  unfolding site_setup_def
  by (auto intro!: effects_call_bind effects_yield effects_skip [OF logs_site_mounts]
      effects_skip [OF read_mounts_logs] effects_mono [OF assms] split: option.split
      simp del: run_steps.simps)

lemma prepare_ensures:
  assumes "ensures P (site_content j u spec c) \<or> (\<forall>m. ensures P (step (linux_mounts c m)))"
  shows "ensures P (prepareSiteModifications pf j u spec c)"
proof -
  have "ensures P (run_steps [site_content j u spec c, step (linux_mounts c m)])" for m
  proof -
    have all: "\<forall>q\<in>set [site_content j u spec c, step (linux_mounts c m)]. logs q"
      by (auto intro: logs_intros)
    from assms show ?thesis
    proof
      assume "ensures P (site_content j u spec c)"
      from this all show ?thesis by (rule ensures_run_steps [rotated]) simp
    next
      assume "\<forall>m. ensures P (step (linux_mounts c m))"
      then have "ensures P (step (linux_mounts c m))" ..
      from this all show ?thesis by (rule ensures_run_steps [rotated]) simp
    qed
  qed
  then have "ensures P (site_setup pf j u spec c)" by (rule site_setup_ensures)
  then show ?thesis
    unfolding prepareSiteModifications_def
    by (rule effects_seq) (auto intro!: effects_yield effects_skip [OF logs_destructUDI] split: option.split)
qed


section \<open>The image never covers what is there\<close>

text \<open>
  What a call creates: a path by name, or a mount on what a path resolves to. The copy helper creates
  its last argument.
\<close>

definition unseen :: "event list \<Rightarrow> cstring \<Rightarrow> bool" where
  "unseen pre p \<longleftrightarrow> (\<exists>r. (Lstat p, r) \<in> set pre \<and> r_rc r \<noteq> 0)"

definition places_new :: "cstring \<Rightarrow> event list \<Rightarrow> event \<Rightarrow> bool" where
  "places_new base pre e \<longleftrightarrow>
     (case fst e of
        Mkdir p k \<Rightarrow> unseen pre p \<and> (\<exists>item. p = path_buffer (base @ item))
      | CreateFile p \<Rightarrow> unseen pre p \<and> (\<exists>item. p = path_buffer (base @ item))
      | Fork args silent \<Rightarrow> unseen pre (last args) \<and> (\<exists>item. last args = path_buffer (base @ item))
      | Mount s t k fl \<Rightarrow>
          (\<exists>p r item. unseen pre p \<and> p = path_buffer (base @ item) \<and> (Realpath p, r) \<in> set pre \<and> r_text r = Some t)
      | AppendFile p t \<Rightarrow> False
      | Chown p u g \<Rightarrow> False
      | Chmod p m \<Rightarrow> False
      | Symlink q p \<Rightarrow> False
      | Rename q p \<Rightarrow> False
      | Unlink p \<Rightarrow> False
      | _ \<Rightarrow> True)"

lemma unseen_more: "unseen pre p \<Longrightarrow> unseen (pre @ pre') p"
  by (auto simp: unseen_def)

lemma places_reads [simp]:
  "places_new base pre (Lstat p, r)" "places_new base pre (Realpath p, r)" "places_new base pre (ListDir p, r)"
  "places_new base pre (Getpid, r)" "places_new base pre (ReadFile p, r)" "places_new base pre (Waitpid i, r)"
  "places_new base pre (Umount2 p k, r)" "places_new base pre (Usleep k, r)"
  by (simp_all add: places_new_def)

lemma bind_mounts_new:
  assumes "unseen es p" "p = path_buffer (base @ item)" "(Realpath p, r) \<in> set es" "r_text r = Some t"
  shows "guarded (places_new base) es (bindMount_mounts cfg m from t flags)"
proof -
  have new: "places_new base (es @ pre) (Mount s t k fl, x)" for pre s k fl x
    unfolding places_new_def using assms by (auto intro: unseen_more)
  have new0: "places_new base es (Mount s t k fl, x)" for s k fl x
    using new [of "[]"] by simp
  show ?thesis
    unfolding bindMount_mounts_def bindMount_unclean_def Let_def
    by (auto intro!: guarded_syscall guarded_intros simp: new new0)
qed

lemma bindMount_new:
  assumes "unseen es p" "p = path_buffer (base @ item)"
  shows "guarded (places_new base) es (shifterCore_bindMount cfg m from p flags ov)"
  unfolding shifterCore_bindMount_def
proof (rule guarded_call, simp, goal_cases)
  case (1 rp)
  show ?case
  proof (cases "r_text rp")
    case None
    then show ?thesis by (simp add: guarded_yield)
  next
    case (Some t)
    have mounts: "guarded (places_new base) (es @ (Realpath p, rp) # pre) (bindMount_mounts cfg k from t flags)" for pre k
      by (rule bind_mounts_new [OF _ assms(2)]) (use Some assms in \<open>auto intro: unseen_more\<close>)
    have retry: "guarded (places_new base) es' (unmount_retry n m t)" for n es'
      by (rule guarded_only [OF unmount_retry_unmounting]) (auto simp: unmounting_def places_new_def)
    show ?thesis
      unfolding Some option.case
      using mounts [of "[]"] mounts
      by (auto intro!: guarded_intros retry)
  qed
qed

lemma copy_new:
  assumes "unseen es p" "p = path_buffer (base @ item)"
  shows "guarded (places_new base) es (forkAndExecv [cp, flag, src, p])"
  unfolding forkAndExecv_def fork_and_exec_def
  using assms
  by (auto intro!: guarded_syscall guarded_intros simp: places_new_def)

lemma bind_entry_new:
  assumes "unseen es mnt" "mnt = path_buffer (base @ item)"
  shows "guarded (places_new base) es (bind_entry cfg cf src mnt st m)"
proof -
  have more: "unseen (es @ n) mnt" for n using assms(1) by (rule unseen_more)
  show ?thesis
    unfolding bind_entry_def Let_def
    using assms more
    by (auto intro!: guarded_intros guarded_syscall copy_new bindMount_new split: placement.split
        simp: places_new_def)
qed

lemma bind_entries_new:
  "guarded (places_new (ur @ ''/'' @ rel @ ''/'')) es (bind_entries cfg cf ir ur rel ds m)"
proof (induction ds arbitrary: es m)
  case Nil
  then show ?case by (simp add: guarded_yield)
next
  case (Cons d ds)
  note IH = Cons.IH
  have entry: "guarded (places_new (ur @ ''/'' @ rel @ ''/'')) es (do {
      e \<leftarrow> syscall (Lstat (path_buffer (ur @ ''/'' @ rel @ ''/'' @ item)));
      if r_rc e = 0 then bind_entries cfg cf ir ur rel ds m
      else do {
        s \<leftarrow> syscall (Lstat (path_buffer (ir @ ''/'' @ rel @ ''/'' @ item)));
        if r_rc s \<noteq> 0 then bind_entries cfg cf ir ur rel ds m
        else do {
          (r, m1) \<leftarrow> bind_entry cfg cf (path_buffer (ir @ ''/'' @ rel @ ''/'' @ item))
                     (path_buffer (ur @ ''/'' @ rel @ ''/'' @ item)) (r_stat s) m;
          (case r of Some rc \<Rightarrow> yield rc | None \<Rightarrow> bind_entries cfg cf ir ur rel ds m1)
        }
      }
    })" for item
  proof (rule guarded_call, simp, goal_cases)
    case (1 e)
    show ?case
    proof (cases "r_rc e = 0")
      case True
      then show ?thesis by (simp only: simp_thms if_True IH)
    next
      case False
      have u: "unseen ((es @ [(Lstat (path_buffer (ur @ ''/'' @ rel @ ''/'' @ item)), e)]) @ n)
          (path_buffer (ur @ ''/'' @ rel @ ''/'' @ item))" for n
        using False by (auto simp: unseen_def)
      show ?thesis
        using False
        by (auto intro!: guarded_syscall guarded_intros IH [simplified]
            bind_entry_new [OF u [simplified], where item = item, simplified])
    qed
  qed
  show ?case
    unfolding bind_entries.simps Let_def
    by (intro guarded_cases guarded_yield IH entry)
qed

text \<open>
  C26. Whatever the image and the file system hold, putting the image into the container creates only
  entries of the directory being filled that were looked up just before and did not exist: no file or
  directory that the site has put there is replaced, covered by a mount, renamed or removed, and no
  owner or mode is changed.
\<close>

theorem image_never_covers:
  "effects (bindImageIntoUDI relpath img config copyFlag) (\<lambda>rc es.
     \<forall>pre e post. es = pre @ e # post \<longrightarrow>
       places_new (path_buffer (udi config) @ ''/'' @ relpath @ ''/'') pre e)"
proof (rule guarded_run)
  have reads: "guarded (places_new b) es (read_mounts m)" for b es m
    by (rule guarded_only [OF only_unmounting(2)]) (auto simp: unmounting_def places_new_def)
  show "guarded (places_new (path_buffer (udi config) @ ''/'' @ relpath @ ''/'')) []
      (bindImageIntoUDI relpath img config copyFlag)"
    unfolding bindImageIntoUDI_def
    by (auto intro!: guarded_intros guarded_syscall reads bind_entries_new [simplified])
qed

lemma image_never_covers_witness:
  "effects (bindImageIntoUDI ''/var'' empty_ImageData volume_config False) (\<lambda>rc es.
     \<forall>p k r. (Mkdir p k, r) \<in> set es \<longrightarrow> (\<exists>item. p = path_buffer (''/m//var/'' @ item)))"
proof (rule effects_mono [OF image_never_covers [of "''/var''" empty_ImageData volume_config False]], intro allI impI)
  fix rc es p k r
  have m: "path_buffer (udi volume_config) @ ''/'' @ ''/var'' @ ''/'' = ''/m//var/''"
    by (simp add: udi_def volume_config_def show_str_def path_buffer_def PATH_MAX_def)
  assume new: "\<forall>pre e post. es = pre @ e # post \<longrightarrow>
       places_new (path_buffer (udi volume_config) @ ''/'' @ ''/var'' @ ''/'') pre e"
    and "(Mkdir p k, r) \<in> set es"
  then obtain pre post where "es = pre @ (Mkdir p k, r) # post" by (meson split_list)
  with new have "places_new (''/m//var/'') pre (Mkdir p k, r)" unfolding m by blast
  then show "\<exists>item. p = path_buffer (''/m//var/'' @ item)"
    by (simp add: places_new_def)
qed

text \<open>
  C32. The site's ban on local directories as images has no effect: an image that comes from the
  description reader has no type, even when the user asked for the type local, so the function that
  mounts it goes on to the mount point, while the same image with its type set is refused at once.
\<close>

theorem local_image_not_refused:
  assumes "parse_ImageData eofbuf readf (Some ''local'') path config empty_ImageData = (0, Ret img)"
    and "\<not> allowLocalChroot config"
  shows "effects (mountImageVFS pf junk img (Some user) spec config) (\<lambda>r es.
      \<exists>u l rest. es = (Umask 18, u) # (Lstat (path_buffer (udi config)), l) # rest) \<and>
    effects (mountImageVFS pf junk (img\<lparr>i_type := Some ''local''\<rparr>) (Some user) spec config) (\<lambda>r es.
      r = (Some 1, config) \<and> (\<exists>u. es = [(Umask 18, u)]))"
proof -
  have "i_type img = None"
    using parse_ImageData_type [OF assms(1)] by (simp add: empty_ImageData_def)
  then have open': "\<not> (i_type img = Some ''local'' \<and> \<not> allowLocalChroot config)" by simp
  have first: "effects (State_Monad.bind (State_Monad.bind (syscall c) f) g)
      (\<lambda>y es. \<exists>u l rest. (Umask 18, um) # es = (Umask 18, u) # (c, l) # rest)"
    if "\<And>x. logs (f x)" "\<And>x. logs (g x)" for c :: syscall and f :: "reply \<Rightarrow> 'a sys" and g :: "'a \<Rightarrow> 'b sys" and um
  proof -
    have "effects (State_Monad.bind (syscall c) f) (\<lambda>x es. \<exists>l rest. es = (c, l) # rest)"
      by (auto intro!: effects_call_bind effects_mono [OF that(1)])
    then show ?thesis
      by (rule effects_seq) (auto intro!: effects_mono [OF that(2)])
  qed
  show ?thesis
  proof
    show "effects (mountImageVFS pf junk img (Some user) spec config) (\<lambda>r es.
        \<exists>u l rest. es = (Umask 18, u) # (Lstat (path_buffer (udi config)), l) # rest)"
      unfolding mountImageVFS_def option.case if_not_P [OF open'] Let_def prepare_root_def allowed_devices_def
      by (intro effects_call_bind first) (auto intro!: logs_intros logs_run_steps split: option.split)
    show "effects (mountImageVFS pf junk (img\<lparr>i_type := Some ''local''\<rparr>) (Some user) spec config) (\<lambda>r es.
        r = (Some 1, config) \<and> (\<exists>u. es = [(Umask 18, u)]))"
      unfolding mountImageVFS_def option.case using assms(2)
      by (auto intro!: effects_call_bind effects_yield)
  qed
qed

lemma local_image_not_refused_witness:
  "\<exists>img. parse_ImageData (\<lambda>t. t) (\<lambda>f. None) (Some ''local'') ''/home'' volume_config empty_ImageData = (0, Ret img) \<and>
     effects (mountImageVFS sample_platform [] img (Some ''ann'') None volume_config) (\<lambda>r es.
       \<exists>u l rest. es = (Umask 18, u) # (Lstat (path_buffer (udi volume_config)), l) # rest)"
proof -
  obtain img where p:
    "parse_ImageData (\<lambda>t. t) (\<lambda>f. None) (Some ''local'') ''/home'' volume_config empty_ImageData = (0, Ret img)"
    by (simp add: parse_ImageData_def)
  have "\<not> allowLocalChroot volume_config" by (simp add: volume_config_def empty_UdiRootConfig_def)
  from local_image_not_refused [OF p this, of sample_platform "[]" "''ann''" None] p show ?thesis by blast
qed


end
