(* ===== verification/ShifterOptions.thy ===== *)
theory ShifterOptions
  imports Accounts ShifterEnv VolumeMap
begin

text \<open>
  The options and the environment of src/src/shifter.c: \<open>getopt_long\<close> as the program calls it,
  \<open>parse_options\<close> and \<open>parse_environment\<close>.
\<close>

section \<open>How a run ends\<close>

text \<open>
  A function that may end the process gives its result or the way the process ended: \<open>exit\<close> with a
  status, \<open>abort\<close>, a fault (memory outside an object is used, or a function does not come back), or
  another program has taken the process over.
\<close>

datatype ended = Exits int | Aborts | Faults | Becomes

type_synonym 'a run = "(ended + 'a) sys"

definition proceed :: "'a run \<Rightarrow> ('a \<Rightarrow> 'b run) \<Rightarrow> 'b run" where
  "proceed p f = do { r \<leftarrow> p; (case r of Inl e \<Rightarrow> yield (Inl e) | Inr x \<Rightarrow> f x) }"

definition require :: "ended \<Rightarrow> bool \<Rightarrow> unit run" where
  "require e b = yield (if b then Inr () else Inl e)"

text \<open>A call whose failure ends the process.\<close>

definition insist :: "ended \<Rightarrow> syscall \<Rightarrow> reply run" where
  "insist e c = do { r \<leftarrow> syscall c; yield (if r_rc r \<noteq> 0 then Inl e else Inr r) }"

definition calling :: "'a sys \<Rightarrow> 'a run" where
  "calling p = do { x \<leftarrow> p; yield (Inr x) }"

definition or_end :: "ended \<Rightarrow> 'a option \<Rightarrow> 'a run" where
  "or_end e x = yield (case x of None \<Rightarrow> Inl e | Some y \<Rightarrow> Inr y)"

text \<open>The outcome of a function that may abort the process.\<close>

definition outcome_run :: "'a outcome \<Rightarrow> 'a run" where
  "outcome_run x = yield (case x of Ret a \<Rightarrow> Inr a | Abort \<Rightarrow> Inl Aborts | OutOfBounds \<Rightarrow> Inl Faults)"

lemma effects_proceed:
  assumes "effects p Q" "\<And>e n. Q (Inl e) n \<Longrightarrow> S (Inl e) n"
    and "\<And>x n. Q (Inr x) n \<Longrightarrow> effects (f x) (\<lambda>y n'. S y (n @ n'))"
  shows "effects (proceed p f) S"
  unfolding proceed_def
  by (rule effects_seq [OF assms(1)]) (auto intro!: effects_yield assms(2,3) split: sum.split)

lemma only_proceed [only_intros]: "only P p \<Longrightarrow> (\<And>x. only P (f x)) \<Longrightarrow> only P (proceed p f)"
  unfolding proceed_def by (auto intro!: only_intros split: sum.split)

lemma only_endings [only_intros]:
  "only P (require e b)" "only P p \<Longrightarrow> only P (calling p)" "only P (or_end e x)" "only P (outcome_run y)"
  "(\<And>r. P (c, r)) \<Longrightarrow> only P (insist e c)"
  by (auto intro!: only_intros simp: require_def calling_def or_end_def outcome_run_def insist_def)

lemma guarded_proceed:
  assumes "guarded P es p" "effects p Q" "\<And>x n. Q (Inr x) n \<Longrightarrow> guarded P (es @ n) (f x)"
  shows "guarded P es (proceed p f)"
  unfolding proceed_def
  by (rule guarded_bind [OF assms(1,2)]) (auto intro!: guarded_intros assms(3) split: sum.split)

lemma effects_insist: "effects (insist e c) (\<lambda>x es. \<exists>r. es = [(c, r)] \<and> (\<forall>y. x = Inr y \<longrightarrow> r_rc r = 0))"
  unfolding insist_def by (auto intro!: effects_call_bind effects_yield)

lemma effects_require: "effects (require e b) (\<lambda>x es. es = [] \<and> x = (if b then Inr () else Inl e))"
  unfolding require_def by (auto intro!: effects_yield)

lemma effects_calling: "effects p Q \<Longrightarrow> effects (calling p) (\<lambda>x es. \<exists>y. x = Inr y \<and> Q y es)"
  unfolding calling_def by (erule effects_seq) (auto intro!: effects_yield)

lemma effects_cases:
  "(b \<Longrightarrow> effects p Q) \<Longrightarrow> (\<not> b \<Longrightarrow> effects q Q) \<Longrightarrow> effects (if b then p else q) Q"
  "(\<And>a c. z = (a, c) \<Longrightarrow> effects (g a c) Q) \<Longrightarrow> effects (case z of (a, c) \<Rightarrow> g a c) Q"
  by (auto split: prod.split)

lemma guarded_pair: "(\<And>a c. z = (a, c) \<Longrightarrow> guarded P es (g a c)) \<Longrightarrow> guarded P es (case z of (a, c) \<Rightarrow> g a c)"
  by (auto split: prod.split)

section \<open>Options\<close>

record options =
  o_request :: "cstring option"
  o_imageType :: "cstring option"
  o_imageTag :: "cstring option"
  o_imageIdentifier :: "cstring option"
  o_rawVolumes :: "cstring option"
  o_entrypoint :: "cstring option"
  o_tgtUid :: nat
  o_tgtGid :: nat
  o_username :: "cstring option"
  o_workdir :: "cstring option"
  o_selectedModulesStr :: "cstring option"
  o_args :: "cstring list option"
  o_env :: "cstring list option"
  o_envfile :: "cstring option"
  o_volumeMap :: VolumeMap
  o_clearenv :: bool
  o_verbose :: bool
  o_useWorkDir :: bool
  o_useEntryPoint :: bool

definition empty_options :: options where
  "empty_options =
     \<lparr>o_request = None, o_imageType = None, o_imageTag = None, o_imageIdentifier = None, o_rawVolumes = None,
      o_entrypoint = None, o_tgtUid = 0, o_tgtGid = 0, o_username = None, o_workdir = None,
      o_selectedModulesStr = None, o_args = None, o_env = None, o_envfile = None,
      o_volumeMap = empty_VolumeMap, o_clearenv = False, o_verbose = False, o_useWorkDir = False,
      o_useEntryPoint = False\<rparr>"

text \<open>
  \<open>getopt_long\<close> as the code calls it: the short options "hnvV:i:e:Ew::m:", the table of long options,
  and POSIXLY_CORRECT, so that it stops at the first argument that is no option. A long option may be
  shortened as long as what it may stand for agrees; \<open>BadOption\<close> is the answer '?'.
\<close>

datatype has_arg = NoArg | RequiredArg | OptionalArg

datatype opt = ShortOpt char "cstring option" | LongOpt cstring "cstring option" | BadOption

definition short_options :: "(char \<times> has_arg) list" where
  "short_options =
     [(CHR ''h'', NoArg), (CHR ''n'', NoArg), (CHR ''v'', NoArg), (CHR ''V'', RequiredArg),
      (CHR ''i'', RequiredArg), (CHR ''e'', RequiredArg), (CHR ''E'', NoArg), (CHR ''w'', OptionalArg),
      (CHR ''m'', RequiredArg)]"

definition long_options :: "(cstring \<times> has_arg \<times> char option) list" where
  "long_options =
     [(''help'', NoArg, Some (CHR ''h'')), (''volume'', RequiredArg, Some (CHR ''V'')),
      (''verbose'', NoArg, Some (CHR ''v'')), (''image'', RequiredArg, Some (CHR ''i'')),
      (''entry'', OptionalArg, None), (''entrypoint'', OptionalArg, None),
      (''workdir'', OptionalArg, Some (CHR ''w'')), (''module'', RequiredArg, Some (CHR ''m'')),
      (''env'', RequiredArg, Some (CHR ''e'')), (''env-file'', RequiredArg, None),
      (''clearenv'', NoArg, Some (CHR ''E''))]"

definition find_long :: "(cstring \<times> has_arg \<times> char option) list \<Rightarrow> cstring \<Rightarrow> (cstring \<times> has_arg \<times> char option) option" where
  "find_long table name =
     (case filter (\<lambda>(n, a, v). n = name) table of
        o1 # os \<Rightarrow> Some o1
      | [] \<Rightarrow>
          (case filter (\<lambda>(n, a, v). prefix name n) table of
             [] \<Rightarrow> None
           | o1 # os \<Rightarrow> if \<forall>o2\<in>set os. snd o2 = snd o1 then Some o1 else None))"

text \<open>One step: the answer and the arguments that are left; a cluster of short options, which are in a table
  with what argument they take, goes on.\<close>

definition take_long :: "(cstring \<times> has_arg \<times> char option) list \<Rightarrow> cstring \<Rightarrow> cstring list \<Rightarrow> opt \<times> cstring list" where
  "take_long table body rest =
     (let (name, value) = (case strchr_split (CHR ''='') body of None \<Rightarrow> (body, None) | Some (n, v) \<Rightarrow> (n, Some v))
      in case find_long table name of
           None \<Rightarrow> (BadOption, rest)
         | Some (n, a, v) \<Rightarrow>
             let mk = (\<lambda>arg. case v of None \<Rightarrow> LongOpt n arg | Some c \<Rightarrow> ShortOpt c arg)
             in (case (a, value) of
                   (NoArg, Some x) \<Rightarrow> (BadOption, rest)
                 | (RequiredArg, None) \<Rightarrow>
                     (case rest of [] \<Rightarrow> (BadOption, []) | x # xs \<Rightarrow> (mk (Some x), xs))
                 | _ \<Rightarrow> (mk value, rest)))"

fun take_short :: "(char \<times> has_arg) list \<Rightarrow> cstring \<Rightarrow> cstring list \<Rightarrow> opt list \<times> cstring list" where
  "take_short table [] rest = ([], rest)"
| "take_short table (c # cs) rest =
     (case map_of table c of
        None \<Rightarrow> ([BadOption], rest)
      | Some NoArg \<Rightarrow> (case take_short table cs rest of (os, rest') \<Rightarrow> (ShortOpt c None # os, rest'))
      | Some RequiredArg \<Rightarrow>
          if cs \<noteq> [] then ([ShortOpt c (Some cs)], rest)
          else (case rest of [] \<Rightarrow> ([BadOption], []) | x # xs \<Rightarrow> ([ShortOpt c (Some x)], xs))
      | Some OptionalArg \<Rightarrow> ([ShortOpt c (if cs = [] then None else Some cs)], rest))"

lemma take_long_rest: "length (snd (take_long table body rest)) \<le> length rest"
  by (auto simp: take_long_def Let_def split: option.split prod.split has_arg.split list.split)

lemma take_short_rest: "length (snd (take_short table cs rest)) \<le> length rest"
  by (induction table cs rest rule: take_short.induct)
     (auto split: option.split prod.split has_arg.split list.split)

text \<open>The answers up to the end of the options, and the arguments behind them.\<close>

function getopt_long ::
  "(char \<times> has_arg) list \<Rightarrow> (cstring \<times> has_arg \<times> char option) list \<Rightarrow> cstring list \<Rightarrow> opt list \<times> cstring list" where
  "getopt_long shorts longs [] = ([], [])"
| "getopt_long shorts longs (a # rest) =
     (if a = ''--'' then ([], rest)
      else if prefix ''--'' a then
        (case take_long longs (drop 2 a) rest of
           (opt, rest') \<Rightarrow> (case getopt_long shorts longs rest' of (os, tl') \<Rightarrow> (opt # os, tl')))
      else if prefix ''-'' a \<and> a \<noteq> ''-'' then
        (case take_short shorts (tl a) rest of
           (os1, rest') \<Rightarrow> (case getopt_long shorts longs rest' of (os, tl') \<Rightarrow> (os1 @ os, tl')))
      else ([], a # rest))"
  by pat_completeness auto
termination
proof (relation "measure (\<lambda>(shorts, longs, args). length args)", goal_cases)
  case 2
  then show ?case by (simp, metis le_imp_less_Suc snd_conv take_long_rest)
next
  case 3
  then show ?case by (simp, metis le_imp_less_Suc snd_conv take_short_rest)
qed simp_all

text \<open>The options of the main program.\<close>

abbreviation getopt :: "cstring list \<Rightarrow> opt list \<times> cstring list" where
  "getopt \<equiv> getopt_long short_options long_options"


section \<open>The environment of the caller\<close>

text \<open>The value of the first of two variables that is set.\<close>

definition getenv2 :: "cstring list \<Rightarrow> cstring \<Rightarrow> cstring option" where
  "getenv2 environ name =
     (case getvar environ name of Some v \<Rightarrow> Some v | None \<Rightarrow> getvar environ (''SLURM_SPANK_'' @ name))"

definition environment_image :: "cstring list \<Rightarrow> (cstring \<times> cstring) option" where
  "environment_image environ =
     (case map_option (\<lambda>v. imageDesc_filterString v None) (getenv2 environ ''SHIFTER_IMAGETYPE'') of
        None \<Rightarrow> None
      | Some type \<Rightarrow>
          (case map_option (\<lambda>v. imageDesc_filterString v (Some type)) (getenv2 environ ''SHIFTER_IMAGE'') of
             None \<Rightarrow> None
           | Some tag \<Rightarrow> if type \<noteq> [] \<and> tag \<noteq> [] then Some (type, tag) else None))"

definition parse_environment :: "cstring list \<Rightarrow> options \<Rightarrow> UdiRootConfig \<Rightarrow> options" where
  "parse_environment environ opts udiConfig =
     (let requested = (case getenv2 environ ''SHIFTER_IMAGEREQUEST'' of None \<Rightarrow> o_request opts | Some r \<Rightarrow> Some r);
          modstr = (case getenv2 environ ''SHIFTER_MODULE'' of
                      None \<Rightarrow> o_selectedModulesStr opts | Some m \<Rightarrow> Some m);
          vols = (case getenv2 environ ''SHIFTER_VOLUME'' of None \<Rightarrow> o_rawVolumes opts | Some v \<Rightarrow> Some v);
          opts1 = opts\<lparr>o_request := requested, o_selectedModulesStr := modstr, o_rawVolumes := vols\<rparr>;
          opts2 = (case environment_image environ of
                     None \<Rightarrow> opts1
                   | Some (type, tag) \<Rightarrow> opts1\<lparr>o_imageType := Some type, o_imageTag := Some tag\<rparr>)
      in if requested \<noteq> None \<and> o_imageType opts2 = None \<and> o_imageTag opts2 = None
         then (case parse_ImageDescriptor requested udiConfig of
                 None \<Rightarrow> opts2
               | Some (type, tag) \<Rightarrow> opts2\<lparr>o_imageType := Some type, o_imageTag := Some tag\<rparr>)
         else opts2)"

section \<open>The command line\<close>

text \<open>
  One option: \<open>volOptCount\<close> is the number of volume options so far. \<open>_usage\<close> ends the process with its
  argument.
\<close>

definition add_volume :: "nat \<Rightarrow> cstring \<Rightarrow> cstring option \<Rightarrow> cstring option" where
  "add_volume volOptCount arg raw =
     Some ((case raw of None \<Rightarrow> [] | Some r \<Rightarrow> if volOptCount = 0 then [] else r) @ '';'' @ arg)"

definition env_option_ok :: "cstring \<Rightarrow> bool" where
  "env_option_ok arg =
     (case strchr_split (CHR ''='') arg of None \<Rightarrow> False | Some (k, v) \<Rightarrow> k \<noteq> [] \<and> v \<noteq> [])"

definition put_option_env :: "cstring \<Rightarrow> options \<Rightarrow> ended + options" where
  "put_option_env arg config =
     (if \<not> env_option_ok arg then Inl (Exits 1)
      else case shifter_putenv (case o_env config of None \<Rightarrow> [] | Some es \<Rightarrow> es) arg of
        (r, es) \<Rightarrow> if r \<noteq> 0 then Inl (Exits 1) else Inr (config\<lparr>o_env := Some es\<rparr>))"

definition long_option :: "cstring \<Rightarrow> cstring option \<Rightarrow> options \<Rightarrow> ended + options" where
  "long_option name arg config =
     (if name = ''entrypoint'' \<or> name = ''entry''
      then Inr (config\<lparr>o_entrypoint := arg, o_useEntryPoint := True\<rparr>)
      else if name = ''env-file''
      then (case arg of None \<Rightarrow> Inl (Exits 1) | Some f \<Rightarrow> Inr (config\<lparr>o_envfile := Some f\<rparr>))
      else Inr config)"

definition short_option ::
  "UdiRootConfig \<Rightarrow> char \<Rightarrow> cstring option \<Rightarrow> nat \<Rightarrow> options \<Rightarrow> ended + options" where
  "short_option udiConfig c arg volOptCount config =
     (if c = CHR ''w'' then Inr (config\<lparr>o_useWorkDir := True, o_workdir := arg\<rparr>)
      else if c = CHR ''v'' then Inr (config\<lparr>o_verbose := True\<rparr>)
      else if c = CHR ''V'' then
        Inr (case arg of None \<Rightarrow> config
             | Some a \<Rightarrow> config\<lparr>o_rawVolumes := add_volume volOptCount a (o_rawVolumes config)\<rparr>)
      else if c = CHR ''i'' then
        (case parse_ImageDescriptor arg udiConfig of
           None \<Rightarrow> Inl (Exits 1)
         | Some (type, tag) \<Rightarrow>
             Inr (config\<lparr>o_imageType := Some type, o_imageTag := Some tag, o_request := arg\<rparr>))
      else if c = CHR ''e'' then
        (case arg of None \<Rightarrow> Inl (Exits 1) | Some a \<Rightarrow> put_option_env a config)
      else if c = CHR ''E'' then Inr (config\<lparr>o_clearenv := True\<rparr>)
      else if c = CHR ''m'' then
        (case arg of None \<Rightarrow> Inl (Exits 1) | Some m \<Rightarrow> Inr (config\<lparr>o_selectedModulesStr := Some m\<rparr>))
      else if c = CHR ''h'' then Inl (Exits 0)
      else Inr config)"

fun apply_opts :: "UdiRootConfig \<Rightarrow> opt list \<Rightarrow> nat \<Rightarrow> options \<Rightarrow> ended + options" where
  "apply_opts udiConfig [] volOptCount config = Inr config"
| "apply_opts udiConfig (BadOption # os) volOptCount config = Inl (Exits 1)"
| "apply_opts udiConfig (LongOpt name arg # os) volOptCount config =
     (case long_option name arg config of
        Inl e \<Rightarrow> Inl e | Inr config1 \<Rightarrow> apply_opts udiConfig os volOptCount config1)"
| "apply_opts udiConfig (ShortOpt c arg # os) volOptCount config =
     (case short_option udiConfig c arg volOptCount config of
        Inl e \<Rightarrow> Inl e
      | Inr config1 \<Rightarrow>
          apply_opts udiConfig os (if c = CHR ''V'' \<and> arg \<noteq> None then Suc volOptCount else volOptCount) config1)"

text \<open>The user looks the image up with the user's own rights.\<close>

definition lookup_as_user :: "options \<Rightarrow> UdiRootConfig \<Rightarrow> cstring option run" where
  "lookup_as_user config udiConfig =
     proceed (calling (syscall Geteuid)) (\<lambda>u.
     proceed (insist Aborts (Seteuid (o_tgtUid config))) (\<lambda>s.
     proceed (calling (lookup_ImageIdentifier (show_str (o_imageType config)) (show_str (o_imageTag config))
                         udiConfig)) (\<lambda>identifier.
     proceed (insist Aborts (Seteuid (nat (r_rc u)))) (\<lambda>b. yield (Inr identifier)))))"

text \<open>
  One ';' at the end is taken away; the last character of an empty text would be the one before it.
\<close>

definition trim_volumes :: "cstring option \<Rightarrow> ended + cstring option" where
  "trim_volumes raw =
     (case raw of
        None \<Rightarrow> Inr None
      | Some r \<Rightarrow>
          if r = [] then Inl Faults
          else Inr (Some (if last r = CHR '';'' then butlast r else r)))"

definition volumes_of_options :: "options \<Rightarrow> ended + VolumeMap" where
  "volumes_of_options config =
     (case o_rawVolumes config of
        None \<Rightarrow> Inr (o_volumeMap config)
      | Some r \<Rightarrow>
          (case parseVolumeMap (Some r) (o_volumeMap config) of
             (rc, vm) \<Rightarrow> if rc \<noteq> 0 then Inl (Exits 1) else Inr vm))"

definition finish_options :: "cstring list \<Rightarrow> options \<Rightarrow> UdiRootConfig \<Rightarrow> (options \<times> UdiRootConfig) run" where
  "finish_options remaining config udiConfig =
     proceed (yield (trim_volumes (o_rawVolumes config))) (\<lambda>raw.
       let config1 = config\<lparr>o_rawVolumes := raw,
             o_args := (if o_useEntryPoint config \<and> remaining = [] then Some []
                        else if remaining \<noteq> [] then Some remaining else o_args config)\<rparr>
       in proceed (yield (volumes_of_options config1)) (\<lambda>vm.
          proceed (calling (case o_username config1 of
                     None \<Rightarrow> shifter_getpwuid (o_tgtUid config1) udiConfig
                   | Some u \<Rightarrow> yield None)) (\<lambda>pwd.
            let config2 = config1\<lparr>o_volumeMap := vm,
                  o_username := (case pwd of None \<Rightarrow> o_username config1 | Some pw \<Rightarrow> Some (pw_name pw))\<rparr>;
                (r, udiConfig1) = (case o_selectedModulesStr config2 of
                   None \<Rightarrow> (0, udiConfig)
                 | Some m \<Rightarrow> parse_selected_ShifterModule (Some m) udiConfig)
            in yield (if r \<noteq> 0 then Inl (Exits 1)
                      else Inr (config2, udiConfig1\<lparr>target_uid := o_tgtUid config2, target_gid := o_tgtGid config2\<rparr>)))))"

text \<open>The options once their arguments are known.\<close>

definition after_arguments :: "cstring list \<Rightarrow> options \<Rightarrow> UdiRootConfig \<Rightarrow> (options \<times> UdiRootConfig) run" where
  "after_arguments remaining config1 udiConfig =
     proceed (require (Exits 1) (o_imageType config1 \<noteq> None \<and> o_imageTag config1 \<noteq> None)) (\<lambda>_.
     proceed (case o_imageIdentifier config1 of
                None \<Rightarrow> lookup_as_user config1 udiConfig
              | Some i \<Rightarrow> yield (Inr (Some i))) (\<lambda>identifier.
     proceed (require (Exits 1) (identifier \<noteq> None)) (\<lambda>_.
       finish_options remaining (config1\<lparr>o_imageIdentifier := identifier\<rparr>) udiConfig)))"

definition parse_options :: "cstring list \<Rightarrow> options \<Rightarrow> UdiRootConfig \<Rightarrow> (options \<times> UdiRootConfig) run" where
  "parse_options argv config udiConfig =
     proceed (calling (syscall Getuid)) (\<lambda>u.
     proceed (calling (syscall Getgid)) (\<lambda>g.
     proceed (calling (syscall (Setenv ''POSIXLY_CORRECT'' ''1''))) (\<lambda>p.
       let (os, remaining) = getopt (tl argv)
       in proceed (yield (apply_opts udiConfig os 0
                     (config\<lparr>o_tgtUid := nat (r_rc u), o_tgtGid := nat (r_rc g)\<rparr>))) (\<lambda>config1.
            after_arguments remaining config1 udiConfig))))"

section \<open>What the command line means\<close>

definition option_like :: "cstring \<Rightarrow> bool" where
  "option_like a \<longleftrightarrow> prefix ''-'' a \<and> a \<noteq> ''-''"

lemma take_long_suffix: "take_long table body rest = (opt, rest') \<Longrightarrow> suffix rest' rest"
  by (auto simp: take_long_def Let_def suffix_Cons split: option.splits prod.splits has_arg.splits list.splits)

lemma take_short_suffix: "take_short table cs rest = (os, rest') \<Longrightarrow> suffix rest' rest"
  by (induction table cs rest arbitrary: os rule: take_short.induct)
     (auto simp: suffix_Cons split: option.splits prod.splits has_arg.splits list.splits if_splits)

text \<open>
  The options end at the first argument that does not look like one, or behind the argument --, and
  everything from there on is the command: it is handed on as it is, in its order and to the last
  argument, whatever it looks like.
\<close>

theorem getopt_command:
  assumes "getopt_long shorts longs argv = (os, remaining)"
  shows "suffix remaining argv \<and>
    (remaining = [] \<or> \<not> option_like (hd remaining) \<or> (\<exists>front. argv = front @ ''--'' # remaining))"
  using assms
proof (induction shorts longs argv arbitrary: os remaining rule: getopt_long.induct)
  case 1
  then show ?case by simp
next
  case (2 shorts longs a rest)
  have lift: "suffix remaining (a # rest) \<and>
      (remaining = [] \<or> \<not> option_like (hd remaining) \<or> (\<exists>front. a # rest = front @ ''--'' # remaining))"
    if "suffix r rest" and r: "suffix remaining r \<and>
      (remaining = [] \<or> \<not> option_like (hd remaining) \<or> (\<exists>front. r = front @ ''--'' # remaining))" for r
  proof -
    from that(1) obtain p where p: "rest = p @ r" by (auto simp: suffix_def)
    have "a # rest = ((a # p) @ front) @ ''--'' # remaining" if "r = front @ ''--'' # remaining" for front
      using p that by simp
    with r p show ?thesis by (auto simp: suffix_def)
  qed
  consider "a = ''--''" | "a \<noteq> ''--''" "prefix ''--'' a" | "a \<noteq> ''--''" "\<not> prefix ''--'' a" "option_like a"
    | "a \<noteq> ''--''" "\<not> prefix ''--'' a" "\<not> option_like a" by blast
  then show ?case
  proof cases
    case 1
    with "2.prems" show ?thesis by (auto simp: suffix_Cons intro: exI [of _ "[]"])
  next
    case c: 2
    obtain o1 r where t: "take_long longs (drop 2 a) rest = (o1, r)" by fastforce
    obtain os' tl' where g: "getopt_long shorts longs r = (os', tl')" by fastforce
    have "tl' = remaining" using "2.prems" c t g by simp
    with "2.IH"(1) [OF c t [symmetric] g] show ?thesis by (intro lift [OF take_long_suffix [OF t]]) simp
  next
    case c: 3
    obtain o1 r where t: "take_short shorts (tl a) rest = (o1, r)" by fastforce
    obtain os' tl' where g: "getopt_long shorts longs r = (os', tl')" by fastforce
    have "tl' = remaining" using "2.prems" c t g by (simp add: option_like_def)
    with "2.IH"(2) [OF c(1,2) c(3) [unfolded option_like_def] t [symmetric] g]
    show ?thesis by (intro lift [OF take_short_suffix [OF t]]) simp
  next
    case 4
    with "2.prems" show ?thesis by (auto simp: option_like_def)
  qed
qed

lemma getopt_command_witness:
  "getopt [''-v'', ''--image=docker:ubuntu'', ''ls'', ''-l''] =
     ([ShortOpt (CHR ''v'') None, ShortOpt (CHR ''i'') (Some ''docker:ubuntu'')], [''ls'', ''-l'']) \<and>
   suffix [''ls'', ''-l''] [''-v'', ''--image=docker:ubuntu'', ''ls'', ''-l'']"
proof -
  have g: "getopt [''-v'', ''--image=docker:ubuntu'', ''ls'', ''-l''] =
     ([ShortOpt (CHR ''v'') None, ShortOpt (CHR ''i'') (Some ''docker:ubuntu'')], [''ls'', ''-l''])"
    by code_simp
  with getopt_command [OF g] show ?thesis by blast
qed

text \<open>The arguments of the volume options, in their order.\<close>

fun volume_args :: "opt list \<Rightarrow> cstring list" where
  "volume_args [] = []"
| "volume_args (ShortOpt c (Some a) # os) = (if c = CHR ''V'' then a # volume_args os else volume_args os)"
| "volume_args (opt # os) = volume_args os"

definition volume_text :: "cstring list \<Rightarrow> cstring" where
  "volume_text vs = concat (map (\<lambda>v. '';'' @ v) vs)"

lemma long_option_volumes: "long_option name arg config = Inr config1 \<Longrightarrow> o_rawVolumes config1 = o_rawVolumes config"
  by (auto simp: long_option_def split: if_splits option.splits)

lemma short_option_volumes:
  "short_option c ch arg n config = Inr config1 \<Longrightarrow>
     o_rawVolumes config1 =
       (if ch = CHR ''V'' then (case arg of None \<Rightarrow> o_rawVolumes config | Some a \<Rightarrow> add_volume n a (o_rawVolumes config))
        else o_rawVolumes config)"
  by (auto simp: short_option_def put_option_env_def split: if_splits option.splits prod.splits)

lemma apply_opts_volumes:
  "apply_opts c os n config = Inr config' \<Longrightarrow> n = 0 \<or> o_rawVolumes config = Some raw \<Longrightarrow>
     o_rawVolumes config' =
       (if volume_args os = [] then o_rawVolumes config
        else Some ((if n = 0 then [] else raw) @ volume_text (volume_args os)))"
proof (induction c os n config arbitrary: raw rule: apply_opts.induct)
  case (3 c name arg os n config)
  then show ?case by (auto split: sum.splits dest: long_option_volumes)
next
  case (4 c ch arg os n config)
  then obtain config1 where s: "short_option c ch arg n config = Inr config1"
    and a: "apply_opts c os (if ch = CHR ''V'' \<and> arg \<noteq> None then Suc n else n) config1 = Inr config'"
    by (auto split: sum.splits)
  show ?case
  proof (cases "ch = CHR ''V'' \<and> arg \<noteq> None")
    case True
    then obtain v where v: "arg = Some v" by auto
    have raw1: "o_rawVolumes config1 = Some ((if n = 0 then [] else raw) @ '';'' @ v)"
      using short_option_volumes [OF s] "4.prems"(2) True v by (auto simp: add_volume_def split: option.split)
    have "o_rawVolumes config' = (if volume_args os = [] then o_rawVolumes config1
        else Some (((if n = 0 then [] else raw) @ '';'' @ v) @ volume_text (volume_args os)))"
      using "4.IH" [OF s a, of "(if n = 0 then [] else raw) @ '';'' @ v"] raw1 True by simp
    then show ?thesis using raw1 True v by (simp add: volume_text_def)
  next
    case False
    have "o_rawVolumes config1 = o_rawVolumes config"
      using short_option_volumes [OF s] False by (auto split: if_splits)
    moreover have "volume_args (ShortOpt ch arg # os) = volume_args os" using False by (cases arg) auto
    moreover have "(if ch = CHR ''V'' \<and> arg \<noteq> None then Suc n else n) = n" using False by simp
    ultimately show ?thesis using "4.IH" [OF s a, of raw] "4.prems"(2) by simp
  qed
qed (auto simp: volume_text_def)

text \<open>
  The volumes of the command line replace those of the environment and do not add to them: with one
  volume option or more the request is made of their arguments, in order, each behind a separator; with
  none it is what the environment asked for.
\<close>

theorem command_line_volumes:
  assumes "apply_opts udiConfig os 0 config = Inr config'"
  shows "o_rawVolumes config' =
    (if volume_args os = [] then o_rawVolumes config else Some (volume_text (volume_args os)))"
  using apply_opts_volumes [OF assms, of "[]"] by simp

lemma command_line_volumes_witness:
  "\<exists>config'. apply_opts empty_UdiRootConfig (fst (getopt [''-V'', ''/a:/b'', ''--volume=/c:/d'', ''ls''])) 0
      (empty_options\<lparr>o_rawVolumes := Some ''/x:/y''\<rparr>) = Inr config' \<and>
     o_rawVolumes config' = Some '';/a:/b;/c:/d''"
proof -
  let ?os = "[ShortOpt (CHR ''V'') (Some ''/a:/b''), ShortOpt (CHR ''V'') (Some ''/c:/d'')]"
  have g: "fst (getopt [''-V'', ''/a:/b'', ''--volume=/c:/d'', ''ls'']) = ?os" by code_simp
  obtain config' where c: "apply_opts empty_UdiRootConfig ?os 0 (empty_options\<lparr>o_rawVolumes := Some ''/x:/y''\<rparr>) = Inr config'"
    by (simp add: short_option_def)
  from command_line_volumes [OF this] c show ?thesis unfolding g by (simp add: volume_text_def)
qed

lemma short_option_uid: "short_option c ch arg n config = Inr config1 \<Longrightarrow> o_tgtUid config1 = o_tgtUid config"
  by (auto simp: short_option_def put_option_env_def split: if_splits option.splits prod.splits)

lemma long_option_uid: "long_option name arg config = Inr config1 \<Longrightarrow> o_tgtUid config1 = o_tgtUid config"
  by (auto simp: long_option_def split: if_splits option.splits)

lemma apply_opts_uid: "apply_opts c os n config = Inr config' \<Longrightarrow> o_tgtUid config' = o_tgtUid config"
  by (induction c os n config rule: apply_opts.induct)
     (auto split: sum.splits dest: short_option_uid long_option_uid)

text \<open>A program that is started has the id of the caller, from a call just before.\<close>

abbreviation started_as_caller :: "event list \<Rightarrow> event \<Rightarrow> bool" where
  "started_as_caller pre e \<equiv> (\<forall>cmd. fst e = Popen cmd \<longrightarrow>
      (\<exists>front u s. pre = front @ [(Seteuid (nat (r_rc u)), s)] \<and> r_rc s = 0 \<and> (Getuid, u) \<in> set front))"

abbreviation starts_nothing :: "'a sys \<Rightarrow> bool" where
  "starts_nothing \<equiv> only (\<lambda>e. \<forall>cmd. fst e \<noteq> Popen cmd)"

lemma starts_nothing_guarded: "starts_nothing p \<Longrightarrow> guarded started_as_caller es p"
  by (erule guarded_only) simp

lemma finish_options_starts_nothing [only_intros]: "starts_nothing (finish_options remaining config c)"
  unfolding finish_options_def shifter_getpwuid_def Let_def
  by (auto intro!: only_intros split: option.split prod.split)

lemma effects_calling_syscall: "effects (calling (syscall c)) (\<lambda>x es. \<exists>r. x = Inr r \<and> es = [(c, r)])"
  by (rule effects_mono [OF effects_calling [OF effects_syscall]]) auto

lemma effects_value: "effects (yield v) (\<lambda>x es. x = v \<and> es = [])"
  by (rule effects_yield) simp

lemma lookup_logs: "logs (calling (lookup_ImageIdentifier ty tag c))"
  unfolding calling_def lookup_ImageIdentifier_def Let_def by (intro logs_intros)

lemma lookup_as_caller:
  assumes "(Getuid, u) \<in> set front" "r_rc s = 0"
  shows "guarded started_as_caller (front @ [(Seteuid (nat (r_rc u)), s)]) (calling (lookup_ImageIdentifier ty tag c))"
  unfolding calling_def lookup_ImageIdentifier_def Let_def
  by (intro guarded_seq guarded_yield guarded_cases guarded_call guarded_logs) (use assms in auto)

lemma lookup_as_user_guarded:
  assumes "(Getuid, u) \<in> set es" "o_tgtUid config = nat (r_rc u)"
  shows "guarded started_as_caller es (lookup_as_user config c)"
  unfolding lookup_as_user_def assms(2)
proof (rule guarded_proceed [OF starts_nothing_guarded effects_calling_syscall], (intro only_intros; simp),
    rule guarded_proceed [OF starts_nothing_guarded effects_insist], (intro only_intros; simp), elim exE conjE, goal_cases)
  case (1 x n y n' r s)
  then have n: "(es @ n) @ n' = (es @ n) @ [(Seteuid (nat (r_rc u)), s)]" and s: "r_rc s = 0" by auto
  have front: "(Getuid, u) \<in> set (es @ n)" using assms(1) by simp
  show ?case
    unfolding n
    by (intro guarded_proceed [OF lookup_as_caller [OF front s] lookup_logs]
        guarded_proceed [OF starts_nothing_guarded effects_insist] starts_nothing_guarded only_intros) auto
qed

lemma after_arguments_guarded:
  assumes "(Getuid, u) \<in> set es" "o_tgtUid config = nat (r_rc u)"
  shows "guarded started_as_caller es (after_arguments remaining config c)"
proof -
  have identify: "guarded started_as_caller (es @ n)
      (case o_imageIdentifier config of None \<Rightarrow> lookup_as_user config c | Some i \<Rightarrow> yield (Inr (Some i)))" for n
    by (intro guarded_cases lookup_as_user_guarded [OF _ assms(2)] guarded_yield) (use assms(1) in simp)
  show ?thesis
    unfolding after_arguments_def
    by (intro guarded_proceed [OF starts_nothing_guarded effects_require]
        guarded_proceed [OF identify guarded_logs [OF identify]] starts_nothing_guarded only_intros)
qed

text \<open>
  C13. While the options are read, the only program that is started, the one that looks the image up in
  the gateway, is started with the effective id of the user who called, taken immediately before.
\<close>

theorem image_looked_up_as_user:
  "guarded (\<lambda>pre e. \<forall>cmd. fst e = Popen cmd \<longrightarrow>
      (\<exists>front u s. pre = front @ [(Seteuid (nat (r_rc u)), s)] \<and> r_rc s = 0 \<and> (Getuid, u) \<in> set front))
     [] (parse_options argv config udiConfig)"
  unfolding parse_options_def Let_def
proof (rule guarded_proceed [OF starts_nothing_guarded effects_calling_syscall], (intro only_intros; simp),
    rule guarded_proceed [OF starts_nothing_guarded effects_calling_syscall], (intro only_intros; simp),
    rule guarded_proceed [OF starts_nothing_guarded effects_calling_syscall], (intro only_intros; simp),
    elim exE conjE, rule guarded_pair, rule guarded_proceed [OF guarded_yield effects_value], goal_cases)
  case (1 x n y n' z n'' u g p os remaining config1 m)
  then have "o_tgtUid config1 = nat (r_rc u)" using apply_opts_uid by fastforce
  with 1 show ?case by (intro after_arguments_guarded) auto
qed

end
