(* ===== verification/ShifterMain.thy ===== *)
theory ShifterMain
  imports ShifterOptions SavedConfig ContainerRoot
begin

text \<open>
  The main program of src/src/shifter.c, which a user runs with root's rights: the decision whether the
  user may have the image, the construction of the container, and the way from there to the user's
  command without any of these rights.
\<close>

section \<open>What the program was built with and what it reads\<close>

text \<open>
  The name of the configuration file, \<open>CAP_LAST_CAP\<close>, whether the headers know no-new-privileges, and
  the content of files before the container is entered; \<open>x_eofbuf\<close> and \<open>x_junk\<close> are the bytes that are
  left in a buffer the code reads after the end of a file.
\<close>

record machine =
  x_platform :: platform
  x_configFile :: cstring
  x_capLast :: nat
  x_noNewPrivs :: bool
  x_junk :: cstring
  x_eofbuf :: "cstring \<Rightarrow> cstring"
  x_stat :: "cstring \<Rightarrow> stat_info option"
  x_readf :: "cstring \<Rightarrow> cstring option"

definition CLONE_NEWNS :: nat where "CLONE_NEWNS = 131072"
definition PR_SET_NO_NEW_PRIVS :: nat where "PR_SET_NO_NEW_PRIVS = 38"

text \<open>SIGHUP, SIGINT, SIGSTOP and SIGTERM.\<close>

definition held_signals :: "nat list" where
  "held_signals = [1, 2, 19, 15]"

fun set_signals :: "nat list \<Rightarrow> bool \<Rightarrow> unit sys" where
  "set_signals [] ignore = yield ()"
| "set_signals (n # ns) ignore = do { r \<leftarrow> syscall (Signal n ignore); set_signals ns ignore }"

section \<open>Loading the image\<close>

definition isImageLoaded :: "ImageData \<Rightarrow> options \<Rightarrow> UdiRootConfig \<Rightarrow> (int \<times> options) sys" where
  "isImageLoaded img options udiConfig =
     do {
       (cmpVal, vm) \<leftarrow> compareShifterConfig (show_str (o_username options)) img (o_volumeMap options) udiConfig;
       yield (if cmpVal = 0 then 1 else 0, options\<lparr>o_volumeMap := vm\<rparr>)
     }"

text \<open>At most so many rounds until nothing is mounted below the path any more.\<close>

fun wait_unmounted :: "nat \<Rightarrow> cstring \<Rightarrow> bool sys" where
  "wait_unmounted 0 chrootPath = yield False"
| "wait_unmounted (Suc n) chrootPath =
     do {
       v \<leftarrow> validateUnmounted chrootPath True;
       if v = 0 then yield True
       else do { u \<leftarrow> syscall (Usleep 300000); wait_unmounted n chrootPath }
     }"

text \<open>Full rights of root, and a mount table of its own that does not propagate to the system's.\<close>

definition own_namespace :: "int sys" where
  "own_namespace =
     do {
       s \<leftarrow> syscall (Setgroups [0]);
       if r_rc s \<noteq> 0 then yield 1
       else do {
         g \<leftarrow> syscall (Setresgid 0);
         if r_rc g \<noteq> 0 then yield 1
         else do {
           u \<leftarrow> syscall (Setresuid 0);
           if r_rc u \<noteq> 0 then yield 1
           else do {
             n \<leftarrow> syscall (Unshare CLONE_NEWNS);
             if r_rc n \<noteq> 0 then yield 1
             else must (Mount None ''/'' None (MS_SLAVE OR MS_REC))
           }
         }
       }
     }"

definition clear_old :: "UdiRootConfig \<Rightarrow> int sys" where
  "clear_old udiConfig =
     do {
       d \<leftarrow> destructUDI udiConfig False;
       ok \<leftarrow> wait_unmounted 10 (path_buffer (udi udiConfig));
       yield (if ok then 0 else 1)
     }"

text \<open>The user's volumes, the description of the container, and the container made read-only.\<close>

definition finish_image ::
  "platform \<Rightarrow> ImageData \<Rightarrow> options \<Rightarrow> UdiRootConfig \<Rightarrow> int option sys" where
  "finish_image pf img opts udiConfig =
     run_steps
       ([setupUserMounts pf (o_volumeMap opts) udiConfig,
         step (do {
           (rc, vm) \<leftarrow> saveShifterConfig (show_str (o_username opts)) img (o_volumeMap opts) udiConfig;
           yield rc
         })] @
        (if mountUdiRootWritable udiConfig then [] else [step (remountUdiRootReadonly udiConfig)]))"

text \<open>
  The result is 0 or 1 and the configuration with the devices of the container; None when the process
  ended or did not come back.
\<close>

definition loadImage ::
  "machine \<Rightarrow> ImageData \<Rightarrow> options \<Rightarrow> UdiRootConfig \<Rightarrow> (int option \<times> UdiRootConfig) sys" where
  "loadImage mc img opts udiConfig =
     do {
       p \<leftarrow> run_steps
         ([step own_namespace, step (clear_old udiConfig)] @
          (if i_useLoopMount img then [step (mountImageLoop (x_platform mc) img udiConfig)] else []));
       if p \<noteq> Some 0 then yield (Some 1, udiConfig)
       else do {
         (v, config) \<leftarrow> mountImageVFS (x_platform mc) (x_junk mc) img (o_username opts) None udiConfig;
         if v \<noteq> Some 0 then yield (map_option (\<lambda>rc. 1) v, config)
         else do {
           f \<leftarrow> finish_image (x_platform mc) img opts config;
           yield (map_option (\<lambda>rc. if rc = 0 then 0 else 1) f, config)
         }
       }
     }"

section \<open>From the request to the user's command\<close>

text \<open>
  The image, the command and the working directory that the user asks for. SHELL is not in the
  environment any more when the command is chosen.
\<close>

definition find_image :: "machine \<Rightarrow> options \<Rightarrow> UdiRootConfig \<Rightarrow> ImageData run" where
  "find_image mc opts udiConfig =
     (case parse_ImageData (x_eofbuf mc) (x_readf mc) (o_imageType opts) (show_str (o_imageIdentifier opts))
             udiConfig empty_ImageData of
        (rc, Ret img) \<Rightarrow> yield (if rc \<noteq> 0 then Inl (Exits 1) else Inr img)
      | (rc, Abort) \<Rightarrow> yield (Inl Aborts)
      | (rc, OutOfBounds) \<Rightarrow> yield (Inl Faults))"

definition find_workdir :: "ImageData \<Rightarrow> options \<Rightarrow> options run" where
  "find_workdir img opts =
     (if \<not> o_useWorkDir opts then yield (Inr opts)
      else
        let wd = (case o_workdir opts of None \<Rightarrow> i_workdir img | Some w \<Rightarrow> Some w)
        in yield (case wd of None \<Rightarrow> Inl (Exits 1) | Some w \<Rightarrow> Inr (opts\<lparr>o_workdir := Some w\<rparr>)))"

definition read_request ::
  "machine \<Rightarrow> cstring list \<Rightarrow> cstring list \<Rightarrow> (options \<times> UdiRootConfig \<times> ImageData \<times> cstring list) run" where
  "read_request mc argv environ =
     (case parse_UdiRootConfig (x_eofbuf mc) (x_stat mc) (x_readf mc) (x_configFile mc) empty_UdiRootConfig
             UDIROOT_VAL_ALL of
        (rc, config0) \<Rightarrow>
          proceed (require (Exits 1) (rc = 0)) (\<lambda>_.
          proceed (calling (syscall Clearenv)) (\<lambda>_.
          proceed (parse_options argv (parse_environment environ empty_options config0) config0) (\<lambda>(opts, udiConfig).
          proceed (find_image mc opts udiConfig) (\<lambda>img.
          proceed (outcome_run (calculate_args None (o_useEntryPoint opts) (o_args opts) (o_entrypoint opts) img)) (\<lambda>args.
          proceed (or_end (Exits 1) args) (\<lambda>run_args.
          proceed (find_workdir img opts) (\<lambda>opts1.
            yield (Inr (opts1, udiConfig, img, run_args))))))))))"

text \<open>Who runs the program, and whether that user may have the image.\<close>

definition authorize :: "options \<Rightarrow> UdiRootConfig \<Rightarrow> ImageData \<Rightarrow> UdiRootConfig run" where
  "authorize opts udiConfig img =
     proceed (calling (syscall Geteuid)) (\<lambda>eUid.
     proceed (calling (syscall Getegid)) (\<lambda>eGid.
     proceed (calling (syscall Getuid)) (\<lambda>actualUid.
     proceed (calling (syscall Getgid)) (\<lambda>actualGid.
     proceed (calling (shifter_getgrouplist (o_username opts) (o_tgtGid opts))) (\<lambda>grps.
       let gids = (case grps of None \<Rightarrow> [] | Some gs \<Rightarrow> gs)
       in proceed (require (Exits 1) (r_rc eUid = 0 \<or> r_rc eGid = 0)) (\<lambda>_.
          proceed (require (Exits 1) (o_tgtUid opts \<noteq> 0 \<and> o_tgtGid opts \<noteq> 0 \<and> o_username opts \<noteq> None)) (\<lambda>_.
          proceed (require (Exits 1) (o_tgtUid opts = nat (r_rc actualUid) \<and> o_tgtGid opts = nat (r_rc actualGid))) (\<lambda>_.
          proceed (require (Exits 1) (check_image_permissions (o_tgtUid opts) (o_tgtGid opts) gids img \<noteq> 0)) (\<lambda>_.
            yield (Inr (udiConfig\<lparr>auxiliary_gids := gids\<rparr>)))))))))))"

definition provide_image ::
  "machine \<Rightarrow> options \<Rightarrow> UdiRootConfig \<Rightarrow> ImageData \<Rightarrow> (options \<times> UdiRootConfig) run" where
  "provide_image mc opts udiConfig img =
     proceed (calling (syscall Getcwd)) (\<lambda>wd.
     proceed (or_end (Exits 1) (r_text wd)) (\<lambda>cwd.
     proceed (calling (isImageLoaded img
                (opts\<lparr>o_workdir := Some (case o_workdir opts of None \<Rightarrow> cwd | Some w \<Rightarrow> w)\<rparr>) udiConfig)) (\<lambda>(loaded, opts1).
       if loaded \<noteq> 0 then yield (Inr (opts1, udiConfig))
       else proceed (calling (loadImage mc img opts1 udiConfig)) (\<lambda>(r, config).
            proceed (or_end Faults r) (\<lambda>rc.
            proceed (require (Exits 1) (rc = 0)) (\<lambda>_. yield (Inr (opts1, config))))))))"

text \<open>Into the container, and out of every right that the user does not have.\<close>

definition enter_container :: "UdiRootConfig \<Rightarrow> unit run" where
  "enter_container udiConfig =
     proceed (insist (Exits 1) (Chdir (path_buffer (udi udiConfig)))) (\<lambda>_.
     proceed (insist (Exits 1) (Chroot (path_buffer (udi udiConfig)))) (\<lambda>_.
     proceed (insist Aborts (Chdir ''/'')) (\<lambda>_. yield (Inr ()))))"

definition drop_privileges :: "machine \<Rightarrow> options \<Rightarrow> UdiRootConfig \<Rightarrow> unit run" where
  "drop_privileges mc opts udiConfig =
     proceed (calling (shifter_set_capability_boundingset_null (x_capLast mc) (x_junk mc))) (\<lambda>b.
     proceed (require Aborts (b = 0)) (\<lambda>_.
     proceed (insist Aborts (Setgroups (auxiliary_gids udiConfig))) (\<lambda>_.
     proceed (insist Aborts (Setresgid (o_tgtGid opts))) (\<lambda>_.
     proceed (insist Aborts (Setresuid (o_tgtUid opts))) (\<lambda>_.
       if x_noNewPrivs mc
       then proceed (insist Aborts (Prctl PR_SET_NO_NEW_PRIVS 1)) (\<lambda>_. yield (Inr ()))
       else yield (Inr ()))))))"

text \<open>The environment of the command; the file that the user names is read inside the container.\<close>

definition put_name :: "cstring \<Rightarrow> cstring option \<Rightarrow> cstring list \<Rightarrow> cstring list" where
  "put_name name val env =
     (case val of None \<Rightarrow> env | Some v \<Rightarrow> snd (shifter_putenv env (name @ ''='' @ v)))"

definition command_environment ::
  "machine \<Rightarrow> cstring list \<Rightarrow> options \<Rightarrow> UdiRootConfig \<Rightarrow> ImageData \<Rightarrow> cstring list run" where
  "command_environment mc environ opts udiConfig img =
     (let env0 = (if o_clearenv opts then [] else environ);
          env1 = put_name ''SHIFTER_IMAGE'' (o_imageIdentifier opts)
                   (put_name ''SHIFTER_IMAGEREQUEST'' (o_request opts) env0)
      in proceed (calling (case o_envfile opts of
                    None \<Rightarrow> yield None | Some f \<Rightarrow> do { r \<leftarrow> syscall (ReadFile f); yield (r_text r) })) (\<lambda>contents.
         yield (case shifter_setupenv (x_eofbuf mc) (\<lambda>f. contents) env1 img (o_envfile opts) (o_env opts) udiConfig of
                  Ret env \<Rightarrow> Inr env | _ \<Rightarrow> Inl (Exits 1))))"

fun user_hooks :: "ShifterModule list \<Rightarrow> unit run" where
  "user_hooks [] = yield (Inr ())"
| "user_hooks (m # ms) =
     (case m_userhook m of
        None \<Rightarrow> user_hooks ms
      | Some h \<Rightarrow>
          proceed (calling (forkAndExecv [''/bin/sh'', h])) (\<lambda>rc.
          proceed (require (Exits 1) (rc = 0)) (\<lambda>_. user_hooks ms)))"

definition adoptPATH :: "cstring list \<Rightarrow> int sys" where
  "adoptPATH environ =
     (case find (prefix ''PATH='') environ of
        None \<Rightarrow> yield 1
      | Some e \<Rightarrow> do { r \<leftarrow> syscall (Setenv ''PATH'' (drop 5 e)); yield 0 })"

text \<open>Without a command there is no name for \<open>execvpe\<close> to read.\<close>

definition become :: "cstring list \<Rightarrow> cstring list \<Rightarrow> unit run" where
  "become run_args env =
     (case run_args of
        [] \<Rightarrow> yield (Inl Faults)
      | file # args \<Rightarrow> do {
          r \<leftarrow> syscall (Execve file run_args env);
          yield (Inl (if r_rc r = 0 then Becomes else Exits 127))
        })"

definition run_command ::
  "machine \<Rightarrow> cstring list \<Rightarrow> options \<Rightarrow> UdiRootConfig \<Rightarrow> ImageData \<Rightarrow> cstring list \<Rightarrow> unit run" where
  "run_command mc environ opts udiConfig img run_args =
     proceed (calling (syscall (Chdir (show_str (o_workdir opts))))) (\<lambda>_.
     proceed (command_environment mc environ opts udiConfig img) (\<lambda>env.
     proceed (user_hooks (active_list udiConfig)) (\<lambda>_.
     proceed (calling (adoptPATH env)) (\<lambda>_.
     proceed (calling (set_signals held_signals False)) (\<lambda>_. become run_args env)))))"

definition main :: "machine \<Rightarrow> cstring list \<Rightarrow> cstring list \<Rightarrow> unit run" where
  "main mc argv environ =
     proceed (calling (set_signals held_signals True)) (\<lambda>_.
     proceed (read_request mc argv environ) (\<lambda>(opts, udiConfig, img, run_args).
     proceed (authorize opts udiConfig img) (\<lambda>udiConfig1.
     proceed (provide_image mc opts udiConfig1 img) (\<lambda>(opts1, udiConfig2).
     proceed (enter_container udiConfig2) (\<lambda>_.
     proceed (drop_privileges mc opts1 udiConfig2) (\<lambda>_.
       run_command mc environ opts1 udiConfig2 img run_args))))))"

section \<open>No way back to the rights of root\<close>

text \<open>Calls that change the ids, the root or the mounts of the process.\<close>

fun keeps_rights :: "syscall \<Rightarrow> bool" where
  "keeps_rights (Setresuid u) \<longleftrightarrow> False"
| "keeps_rights (Setresgid g) \<longleftrightarrow> False"
| "keeps_rights (Setgroups gs) \<longleftrightarrow> False"
| "keeps_rights (Seteuid u) \<longleftrightarrow> False"
| "keeps_rights (Setegid g) \<longleftrightarrow> False"
| "keeps_rights (Setfsuid u) \<longleftrightarrow> False"
| "keeps_rights (Chroot p) \<longleftrightarrow> False"
| "keeps_rights (Unshare k) \<longleftrightarrow> False"
| "keeps_rights (Mount s t k fl) \<longleftrightarrow> False"
| "keeps_rights (Umount2 p k) \<longleftrightarrow> False"
| "keeps_rights c \<longleftrightarrow> True"

definition dropped :: "machine \<Rightarrow> nat \<Rightarrow> nat \<Rightarrow> nat list \<Rightarrow> event list \<Rightarrow> bool" where
  "dropped mc uid gid gids es \<longleftrightarrow>
     (\<exists>caps s g u after.
        es = caps @ [(Setgroups gids, s), (Setresgid gid, g), (Setresuid uid, u)] @ after \<and>
        r_rc s = 0 \<and> r_rc g = 0 \<and> r_rc u = 0 \<and>
        (\<forall>i\<le>x_capLast mc. \<exists>r. (Prctl PR_CAPBSET_DROP i, r) \<in> set caps \<and> r_rc r = 0) \<and>
        (x_noNewPrivs mc \<longrightarrow> (\<exists>r. (Prctl PR_SET_NO_NEW_PRIVS 1, r) \<in> set after \<and> r_rc r = 0)) \<and>
        (\<forall>e\<in>set after. keeps_rights (fst e)))"

lemma droppedI:
  assumes "\<forall>i\<le>x_capLast mc. \<exists>r. (Prctl PR_CAPBSET_DROP i, r) \<in> set caps \<and> r_rc r = 0"
    and "r_rc s = 0" "r_rc g = 0" "r_rc u = 0"
    and "x_noNewPrivs mc \<longrightarrow> (\<exists>r. (Prctl PR_SET_NO_NEW_PRIVS 1, r) \<in> set after \<and> r_rc r = 0)"
    and "\<forall>e\<in>set after. keeps_rights (fst e)"
  shows "dropped mc uid gid gids (caps @ [(Setgroups gids, s), (Setresgid gid, g), (Setresuid uid, u)] @ after)"
  unfolding dropped_def
  by (intro exI [of _ caps] exI [of _ s] exI [of _ g] exI [of _ u] exI [of _ after] conjI)
     (rule assms append_Cons append_Nil refl | simp)+

lemma dropped_more:
  assumes "dropped mc uid gid gids es" "\<forall>e\<in>set n. keeps_rights (fst e)"
  shows "dropped mc uid gid gids (es @ n)"
proof -
  from assms(1) obtain caps s g u after where
    es: "es = caps @ [(Setgroups gids, s), (Setresgid gid, g), (Setresuid uid, u)] @ after"
    and rest: "r_rc s = 0" "r_rc g = 0" "r_rc u = 0"
      "\<forall>i\<le>x_capLast mc. \<exists>r. (Prctl PR_CAPBSET_DROP i, r) \<in> set caps \<and> r_rc r = 0"
      "x_noNewPrivs mc \<longrightarrow> (\<exists>r. (Prctl PR_SET_NO_NEW_PRIVS 1, r) \<in> set after \<and> r_rc r = 0)"
      "\<forall>e\<in>set after. keeps_rights (fst e)"
    unfolding dropped_def by blast
  have "dropped mc uid gid gids (caps @ [(Setgroups gids, s), (Setresgid gid, g), (Setresuid uid, u)] @ (after @ n))"
    by (rule droppedI) (use rest assms(2) in auto)
  then show ?thesis by (simp add: es)
qed

definition confined :: "machine \<Rightarrow> nat \<Rightarrow> nat \<Rightarrow> nat list \<Rightarrow> event list \<Rightarrow> bool" where
  "confined mc uid gid gids es \<longleftrightarrow>
     (\<exists>before root c d rest.
        es = before @ [(Chroot root, c), (Chdir ''/'', d)] @ rest \<and> r_rc c = 0 \<and> r_rc d = 0 \<and>
        dropped mc uid gid gids rest)"

lemma confined_more:
  assumes "confined mc uid gid gids es" "\<forall>e\<in>set n. keeps_rights (fst e)"
  shows "confined mc uid gid gids (es @ n)"
proof -
  from assms(1) obtain before root c d rest where
    "es = before @ [(Chroot root, c), (Chdir ''/'', d)] @ rest" and ok: "r_rc c = 0" "r_rc d = 0"
    and "dropped mc uid gid gids rest"
    unfolding confined_def by blast
  then have "es @ n = before @ [(Chroot root, c), (Chdir ''/'', d)] @ (rest @ n)"
    "dropped mc uid gid gids (rest @ n)" using dropped_more [OF _ assms(2)] by simp_all
  with ok show ?thesis unfolding confined_def by blast
qed

text \<open>A command is only executed when the calls before it have a property.\<close>

abbreviation executes_after :: "(event list \<Rightarrow> bool) \<Rightarrow> event list \<Rightarrow> event \<Rightarrow> bool" where
  "executes_after Q pre e \<equiv> (\<forall>f as env. fst e = Execve f as env \<longrightarrow> Q pre)"

interpretation stays: building "\<lambda>e. \<not> leaves (fst e)"
  by unfold_locales simp

lemma stays_guarded:
  "only (\<lambda>e. \<not> leaves (fst e)) p \<Longrightarrow> guarded (executes_after Q) es p"
  by (erule guarded_only) auto

lemma run_command_guarded:
  assumes "confined mc uid gid gids es"
  shows "guarded (executes_after (confined mc uid gid gids)) es (run_command mc environ opts config img args)"
proof -
  let ?quiet = "\<lambda>e. keeps_rights (fst e) \<and> \<not> leaves (fst e)"
  have go: "guarded (executes_after (confined mc uid gid gids)) es (proceed p f)"
    if "only ?quiet p"
      "\<And>x n. confined mc uid gid gids (es @ n) \<Longrightarrow>
         guarded (executes_after (confined mc uid gid gids)) (es @ n) (f x)"
      "confined mc uid gid gids es" for p :: "'x run" and f :: "'x \<Rightarrow> unit run" and es
    by (rule guarded_proceed [OF stays_guarded [OF only_mono [OF that(1)]] that(1)])
       (blast, rule that(2), rule confined_more [OF that(3)], blast)
  have hooks: "only ?quiet (user_hooks ms)" for ms
    by (induction ms)
       (auto intro!: only_intros simp: forkAndExecv_def fork_and_exec_def split: option.split)
  have signals: "only ?quiet (set_signals ns b)" for ns b
    by (induction ns) (auto intro!: only_intros)
  have become: "guarded (executes_after (confined mc uid gid gids)) es (become args env)"
    if "confined mc uid gid gids es" for es env
    unfolding become_def using that by (auto intro!: guarded_intros guarded_syscall split: list.split)
  show ?thesis
    unfolding run_command_def command_environment_def Let_def adoptPATH_def
    by (intro go become) (use assms in \<open>auto intro!: only_intros hooks signals split: option.split\<close>)
qed

text \<open>The groups of the user are those that the system names, without the group of root.\<close>

definition groups_named :: "cstring option \<Rightarrow> nat \<Rightarrow> nat list \<Rightarrow> event list \<Rightarrow> bool" where
  "groups_named user grp gids es \<longleftrightarrow>
     gids = [] \<or> gids = [grp] \<or>
     (\<exists>u n r. user = Some u \<and> (Getgrouplist u grp n, r) \<in> set es \<and> 0 \<le> r_rc r \<and>
        gids = fill_groups grp (take n (r_ids r)))"

lemma groups_named_more: "groups_named user grp gids es \<Longrightarrow> set es \<subseteq> set es' \<Longrightarrow> groups_named user grp gids es'"
  unfolding groups_named_def by blast

lemma getgrouplist_named:
  "effects (shifter_getgrouplist user grp) (\<lambda>gl es. groups_named user grp (case gl of None \<Rightarrow> [] | Some gs \<Rightarrow> gs) es)"
proof (cases user)
  case None
  then show ?thesis by (auto simp: shifter_getgrouplist_def groups_named_def intro!: effects_yield)
next
  case (Some u)
  have named: "groups_named user grp (fill_groups grp (take n (r_ids r))) [q, (Getgrouplist u grp n, r)]"
    if "\<not> r_rc r < 0" for n q r
    unfolding groups_named_def using that Some
    by (intro disjI2 exI [of _ u] exI [of _ n] exI [of _ r]) simp
  have none: "groups_named user grp [] es" "groups_named user grp (fill_groups grp []) es" for es
    by (simp_all add: groups_named_def fill_groups_def)
  show ?thesis
    unfolding shifter_getgrouplist_def Some option.case Let_def
    by (intro effects_cases effects_call_bind effects_yield)
       (use named in \<open>auto simp: none [unfolded Some] Some\<close>)
qed

text \<open>The name of the user is that of an entry for the id.\<close>

definition names_user :: "nat \<Rightarrow> cstring \<Rightarrow> event \<Rightarrow> bool" where
  "names_user uid name e \<longleftrightarrow>
     (\<exists>us pw. r_users (snd e) = Some us \<and> pw \<in> set us \<and> pw_name pw = name \<and>
        (fst e = Getpwuid uid \<or> (\<exists>f. fst e = ReadPasswd f \<and> pw_uid pw = uid)))"

definition user_entry :: "nat \<Rightarrow> cstring option \<Rightarrow> event list \<Rightarrow> bool" where
  "user_entry uid user es \<longleftrightarrow> (\<forall>name. user = Some name \<longrightarrow> (\<exists>e\<in>set es. names_user uid name e))"

lemma user_entry_more: "user_entry uid user es \<Longrightarrow> set es \<subseteq> set es' \<Longrightarrow> user_entry uid user es'"
  unfolding user_entry_def by blast

lemma find_SomeD: "find P xs = Some x \<Longrightarrow> x \<in> set xs \<and> P x"
  by (induction xs) (auto split: if_splits)

lemma getpwuid_entry:
  "effects (shifter_getpwuid uid c) (\<lambda>p es. user_entry uid (map_option pw_name p) es)"
proof -
  have "user_entry uid (map_option pw_name (first_user (\<lambda>pw. True) r)) [(Getpwuid uid, r)]"
    "user_entry uid (map_option pw_name (first_user (\<lambda>pw. pw_uid pw = uid) r)) [(ReadPasswd f, r)]" for r f
    by (auto simp: user_entry_def names_user_def first_user_def split: option.splits dest!: find_SomeD)
  then show ?thesis
    unfolding shifter_getpwuid_def by (intro effects_cases effects_call_bind effects_yield)
qed

lemma finish_options_user:
  "effects (finish_options remaining config c) (\<lambda>x es. o_username config = None \<longrightarrow>
     (\<forall>config' c'. x = Inr (config', c') \<longrightarrow> user_entry (o_tgtUid config') (o_username config') es))"
proof -
  have val: "effects (yield v) (\<lambda>x es. es = [] \<and> x = v)" for v :: "ended + 'x"
    by (rule effects_yield) simp
  have pw: "effects (calling (case user of None \<Rightarrow> shifter_getpwuid u c | Some n \<Rightarrow> yield None))
      (\<lambda>x es. \<exists>p. x = Inr p \<and> user_entry u (map_option pw_name p) es)" for user :: "cstring option" and u
    by (rule effects_calling, cases user)
       (simp_all only: option.case, rule getpwuid_entry, rule effects_yield, simp add: user_entry_def)
  show ?thesis
    unfolding finish_options_def Let_def
    by (intro effects_proceed [OF val] effects_proceed [OF pw] effects_cases(2) effects_yield)
       (auto split: option.splits if_splits elim!: user_entry_more)
qed

lemma after_arguments_user:
  "effects (after_arguments remaining config c) (\<lambda>x es. o_username config = None \<longrightarrow>
     (\<forall>config' c'. x = Inr (config', c') \<longrightarrow> user_entry (o_tgtUid config') (o_username config') es))"
proof -
  have lookup: "logs (lookup_as_user config c)" "\<And>v. logs (yield v)" "\<And>e b. logs (require e b)"
    unfolding lookup_as_user_def
    by (auto intro!: logs_intros effects_proceed [OF lookup_logs] effects_proceed [OF effects_insist]
        effects_proceed [OF effects_calling_syscall] simp: require_def)
  show ?thesis
    unfolding after_arguments_def
    by (intro effects_proceed [OF lookup(3)] effects_proceed [OF logs_cases(3) [OF lookup(1,2)]]
          effects_mono [OF finish_options_user])
       (auto elim!: user_entry_more)
qed

lemma short_option_user: "short_option c ch arg n config = Inr config1 \<Longrightarrow> o_username config1 = o_username config"
  by (auto simp: short_option_def put_option_env_def split: if_splits option.splits prod.splits)

lemma long_option_user: "long_option name arg config = Inr config1 \<Longrightarrow> o_username config1 = o_username config"
  by (auto simp: long_option_def split: if_splits option.splits)

lemma apply_opts_user: "apply_opts c os n config = Inr config' \<Longrightarrow> o_username config' = o_username config"
  by (induction c os n config rule: apply_opts.induct)
     (auto split: sum.splits dest: short_option_user long_option_user)

lemma parse_options_user:
  "effects (parse_options argv config c) (\<lambda>x es. o_username config = None \<longrightarrow>
     (\<forall>config' c'. x = Inr (config', c') \<longrightarrow> user_entry (o_tgtUid config') (o_username config') es))"
proof -
  have val: "effects (yield v) (\<lambda>x es. es = [] \<and> x = v)" for v :: "ended + 'x"
    by (rule effects_yield) simp
  show ?thesis
    unfolding parse_options_def Let_def
    by (intro effects_proceed [OF effects_calling_syscall] effects_cases effects_proceed [OF val]
          effects_mono [OF after_arguments_user])
       (auto dest!: apply_opts_user [OF sym] elim!: user_entry_more)
qed

text \<open>The rights that are left are those of the user.\<close>

definition identified :: "options \<Rightarrow> nat list \<Rightarrow> event list \<Rightarrow> bool" where
  "identified opts gids es \<longleftrightarrow>
     o_tgtUid opts \<noteq> 0 \<and> o_tgtGid opts \<noteq> 0 \<and> 0 \<notin> set gids \<and>
     (\<exists>name. o_username opts = Some name \<and> groups_named (o_username opts) (o_tgtGid opts) gids es) \<and>
     (\<exists>u g. (Getuid, u) \<in> set es \<and> o_tgtUid opts = nat (r_rc u) \<and>
        (Getgid, g) \<in> set es \<and> o_tgtGid opts = nat (r_rc g))"

lemma authorize_effects:
  "effects (authorize opts config img) (\<lambda>x es. \<forall>config1. x = Inr config1 \<longrightarrow>
     identified opts (auxiliary_gids config1) es \<and>
     check_image_permissions (o_tgtUid opts) (o_tgtGid opts) (auxiliary_gids config1) img \<noteq> 0)"
proof -
  have grps: "effects (calling (shifter_getgrouplist us g)) (\<lambda>x es.
      \<exists>y. x = Inr y \<and> 0 \<notin> set (case y of None \<Rightarrow> [] | Some gs \<Rightarrow> gs) \<and>
        groups_named us g (case y of None \<Rightarrow> [] | Some gs \<Rightarrow> gs) es)" for us g
    by (rule effects_mono [OF effects_calling [OF effects_conj [OF groups_without_root getgrouplist_named]]])
       (auto split: option.splits)
  have call: "effects (calling (syscall c)) (\<lambda>x es. \<exists>r. x = Inr r \<and> es = [(c, r)])" for c
    by (rule effects_mono [OF effects_calling [OF effects_syscall]]) auto
  have later: "groups_named us g gs (a # b # c # d # n)" if "groups_named us g gs n" for us g gs a b c d n
    by (rule groups_named_more [OF that]) auto
  show ?thesis
    unfolding authorize_def Let_def
    by (intro effects_proceed [OF call] effects_proceed [OF grps] effects_proceed [OF effects_require] effects_yield)
       (auto split: if_splits simp: identified_def later)
qed

text \<open>What only concerns the result of a program.\<close>

abbreviation results :: "('a \<Rightarrow> bool) \<Rightarrow> 'a sys \<Rightarrow> bool" where
  "results R p \<equiv> effects p (\<lambda>x es. R x)"

named_theorems results_intros "programs whose result has a property"

lemma results_basic [results_intros]:
  "R x \<Longrightarrow> results R (yield x)"
  "logs m \<Longrightarrow> (\<And>x. results R (f x)) \<Longrightarrow> results R (State_Monad.bind m f)"
  "results R p \<Longrightarrow> results R q \<Longrightarrow> results R (if b then p else q)"
  "(\<And>a c. results R (g a c)) \<Longrightarrow> results R (case z of (a, c) \<Rightarrow> g a c)"
  "results R p \<Longrightarrow> (\<And>a. results R (h a)) \<Longrightarrow> results R (case opt of None \<Rightarrow> p | Some a \<Rightarrow> h a)"
  by (auto intro!: effects_yield elim: effects_skip split: prod.split option.split)

lemma results_first: "results Q m \<Longrightarrow> (\<And>x. Q x \<Longrightarrow> results R (f x)) \<Longrightarrow> results R (State_Monad.bind m f)"
  by (erule effects_seq)

text \<open>The container is built with the ids and groups that were found.\<close>

lemma mountImageVFS_config:
  "results (\<lambda>x. auxiliary_gids (snd x) = auxiliary_gids config) (mountImageVFS pf j img user spec config)"
proof -
  have p: "logs (prepare_root c r)" "logs (allowed_devices img c r)" for c r
    unfolding prepare_root_def allowed_devices_def
    by (intro logs_intros logs_run_steps; auto intro: logs_intros)+
  show ?thesis
    unfolding mountImageVFS_def Let_def
    by (intro results_intros p logs_prepare logs_run_steps; auto intro: logs_intros)
qed

context building
begin

lemma namespaces [only_intros]: "only P own_namespace" "only P (clear_old c)"
proof -
  have wait: "only P (wait_unmounted n path)" for n path
    by (induction n) (auto intro!: only_intros allowed)
  show "only P own_namespace" "only P (clear_old c)"
    unfolding own_namespace_def clear_old_def by (intro only_intros allowed wait; simp)+
qed

lemma finish_image [only_intros]: "only P (finish_image pf img opts c)"
  unfolding finish_image_def saveShifterConfig_def remountUdiRootReadonly_def
  by (intro run_steps) (auto intro!: only_intros allowed split: option.split)

lemma loadImage [only_intros]: "only P (loadImage mc img opts config)"
  unfolding loadImage_def by (auto intro!: only_intros run_steps)

lemma isImageLoaded [only_intros]: "only P (isImageLoaded img opts c)"
  unfolding isImageLoaded_def compareShifterConfig_def by (auto intro!: only_intros allowed split: option.split)

lemma provide_image [only_intros]: "only P (provide_image mc opts config img)"
  unfolding provide_image_def by (auto intro!: only_intros allowed split: option.split)

lemma capabilities [only_intros]: "only P (shifter_set_capability_boundingset_null k j)"
proof -
  have "only P (drop_capabilities is r)" "only P (probe_capabilities is)" for "is" r
    by (induction "is" arbitrary: r) (auto intro!: only_intros allowed)
  then show ?thesis
    unfolding shifter_set_capability_boundingset_null_def shifter_get_max_capability_def Let_def
    by (auto intro!: only_intros allowed split: option.split simp del: probe_capabilities.simps)
qed

end

lemma provide_image_keeps:
  "results (\<lambda>x. \<forall>opts1 config1. x = Inr (opts1, config1) \<longrightarrow>
     o_tgtUid opts1 = o_tgtUid opts \<and> o_tgtGid opts1 = o_tgtGid opts \<and> o_username opts1 = o_username opts \<and>
     auxiliary_gids config1 = auxiliary_gids config) (provide_image mc opts config img)"
proof -
  have loaded: "results (\<lambda>x. o_tgtUid (snd x) = o_tgtUid o' \<and> o_tgtGid (snd x) = o_tgtGid o' \<and>
      o_username (snd x) = o_username o') (isImageLoaded img o' config)" for o'
    unfolding isImageLoaded_def by (intro results_intros) (auto intro: only_intros simp: compareShifterConfig_def intro!: logs_intros)
  have load: "results (\<lambda>x. auxiliary_gids (snd x) = auxiliary_gids config) (loadImage mc img o' config)" for o'
    unfolding loadImage_def
    by (rule results_first [where Q = "\<lambda>x. True"])
       (auto intro!: results_intros results_first [OF mountImageVFS_config]
         logs_run_steps logs_helpers any_call.finish_image [THEN logs_only]
         any_call.namespaces [THEN logs_only] any_call.loops(2) [THEN logs_only])
  have cwd: "logs (calling (syscall Getcwd))" "\<And>e x. logs (or_end e x)" "\<And>e b. logs (require e b)"
    by (auto intro!: logs_intros simp: calling_def or_end_def require_def)
  show ?thesis
    unfolding provide_image_def Let_def
    by (intro effects_proceed [OF cwd(1)] effects_proceed [OF cwd(2)] effects_proceed [OF cwd(3)]
          effects_proceed [OF effects_calling [OF loaded]] effects_proceed [OF effects_calling [OF load]]
          effects_cases)
       (auto intro!: effects_yield)
qed

lemma enter_container_effects:
  "effects (enter_container config) (\<lambda>x es. x = Inr () \<longrightarrow>
     (\<exists>a root c d. es = [(Chdir root, a), (Chroot root, c), (Chdir ''/'', d)] \<and> r_rc c = 0 \<and> r_rc d = 0))"
  unfolding enter_container_def
  by (intro effects_proceed [OF effects_insist] effects_yield) auto

text \<open>The bounding set of the capabilities, once it was emptied.\<close>

lemma bounding_set_dropped:
  "effects (calling (shifter_set_capability_boundingset_null k j)) (\<lambda>x es. \<exists>b. x = Inr b \<and> (b = 0 \<longrightarrow>
      (\<forall>i\<le>k. \<exists>r. (Prctl PR_CAPBSET_DROP i, r) \<in> set es \<and> r_rc r = 0)))"
proof -
  have dropped: "\<exists>r. (Prctl PR_CAPBSET_DROP i, r) \<in> set (probe @ drops) \<and> r_rc r = 0"
    if "map fst drops = map (Prctl PR_CAPBSET_DROP) [0..<Suc m]" "\<forall>e\<in>set drops. r_rc (snd e) = 0" "i \<le> m"
    for i m drops and probe :: "event list"
  proof -
    have "Prctl PR_CAPBSET_DROP i \<in> set (map fst drops)" unfolding that(1) using that(3) by auto
    then show ?thesis using that(2) by force
  qed
  show ?thesis
  proof (rule effects_mono [OF effects_calling [OF bounding_set_emptied]])
    fix x and es :: "event list"
    assume "\<exists>y. x = Inr y \<and> (y = 0 \<longrightarrow> (\<exists>m probe drops. k \<le> m \<and> m < 100 \<and> es = probe @ drops \<and>
        (\<forall>r t. (ReadFile cap_last_file, r) \<in> set probe \<and> r_text r = Some t \<longrightarrow> strtoul10 (t @ j) \<le> m) \<and>
        map fst drops = map (Prctl PR_CAPBSET_DROP) [0..<Suc m] \<and> (\<forall>e\<in>set drops. r_rc (snd e) = 0)))"
    then obtain b where b: "x = Inr b" and seen: "b = 0 \<longrightarrow> (\<exists>m probe drops. k \<le> m \<and> es = probe @ drops \<and>
        map fst drops = map (Prctl PR_CAPBSET_DROP) [0..<Suc m] \<and> (\<forall>e\<in>set drops. r_rc (snd e) = 0))"
      by blast
    have "\<exists>r. (Prctl PR_CAPBSET_DROP i, r) \<in> set es \<and> r_rc r = 0" if "b = 0" "i \<le> k" for i
    proof -
      from seen that(1) obtain m probe drops where "k \<le> m" and es: "es = probe @ drops"
        and d: "map fst drops = map (Prctl PR_CAPBSET_DROP) [0..<Suc m]" "\<forall>e\<in>set drops. r_rc (snd e) = 0"
        by blast
      with that(2) have "i \<le> m" by simp
      from dropped [OF d this] show ?thesis unfolding es .
    qed
    with b show "\<exists>b. x = Inr b \<and> (b = 0 \<longrightarrow> (\<forall>i\<le>k. \<exists>r. (Prctl PR_CAPBSET_DROP i, r) \<in> set es \<and> r_rc r = 0))"
      by blast
  qed
qed

lemma drop_privileges_effects:
  "effects (drop_privileges mc opts config) (\<lambda>x es. x = Inr () \<longrightarrow>
     dropped mc (o_tgtUid opts) (o_tgtGid opts) (auxiliary_gids config) es)"
  unfolding drop_privileges_def
  by (intro effects_proceed [OF bounding_set_dropped] effects_proceed [OF effects_require]
        effects_proceed [OF effects_insist] effects_cases effects_yield)
     (auto split: if_splits intro!: droppedI [simplified])

text \<open>What the identification of the user only asks the system for.\<close>

fun inquires :: "syscall \<Rightarrow> bool" where
  "inquires (Signal n b) \<longleftrightarrow> True"
| "inquires Clearenv \<longleftrightarrow> True"
| "inquires (Setenv n v) \<longleftrightarrow> True"
| "inquires Getuid \<longleftrightarrow> True"
| "inquires Getgid \<longleftrightarrow> True"
| "inquires Geteuid \<longleftrightarrow> True"
| "inquires Getegid \<longleftrightarrow> True"
| "inquires (Seteuid u) \<longleftrightarrow> True"
| "inquires (Popen c) \<longleftrightarrow> True"
| "inquires (Getpwuid u) \<longleftrightarrow> True"
| "inquires (ReadPasswd f) \<longleftrightarrow> True"
| "inquires (Getgrouplist u g n) \<longleftrightarrow> True"
| "inquires c \<longleftrightarrow> False"

abbreviation inquiry :: "'a sys \<Rightarrow> bool" where
  "inquiry \<equiv> only (\<lambda>e. inquires (fst e))"

lemma inquires_stays: "inquires c \<Longrightarrow> \<not> leaves c"
  by (cases c) auto

lemma set_signals_inquiry [only_intros]: "inquiry (set_signals ns b)"
  by (induction ns) (auto intro!: only_intros)

lemma accounts_inquiry [only_intros]:
  "inquiry (shifter_getpwuid u c)" "inquiry (shifter_getgrouplist us g)"
  by (auto intro!: only_intros simp: shifter_getpwuid_def shifter_getgrouplist_def split: option.split)

lemma parse_options_inquiry [only_intros]: "inquiry (parse_options argv opts config)"
  unfolding parse_options_def after_arguments_def finish_options_def lookup_as_user_def lookup_ImageIdentifier_def Let_def
  by (auto intro!: only_intros split: option.split prod.split)

lemma find_image_inquiry [only_intros]: "inquiry (find_image mc opts config)"
  unfolding find_image_def by (auto intro!: only_intros split: prod.split outcome.split)

lemma read_request_inquiry [only_intros]: "inquiry (read_request mc argv environ)"
  unfolding read_request_def find_workdir_def Let_def
  by (auto intro!: only_intros split: option.split prod.split)

lemma authorize_inquiry [only_intros]: "inquiry (authorize opts config img)"
  unfolding authorize_def Let_def by (auto intro!: only_intros)

lemma inquiry_guarded: "inquiry p \<Longrightarrow> (\<And>pre e. inquires (fst e) \<Longrightarrow> Q pre e) \<Longrightarrow> guarded Q es p"
  by (rule guarded_only)

lemma guarded_after: "guarded P es p \<Longrightarrow> guarded (\<lambda>pre e. P pre e \<and> prefix es pre) es p"
  unfolding guarded_def by (erule effects_mono) simp

lemma guarded_logged: "logs p \<Longrightarrow> (\<And>pre e. Q (es @ pre) e) \<Longrightarrow> guarded Q es p"
  unfolding guarded_def by (erule effects_mono) simp

lemma identified_more: "identified opts gids es \<Longrightarrow> identified opts gids (es @ n)"
  unfolding identified_def using groups_named_more [of _ _ gids es "es @ n"] by auto

text \<open>The end of the run, once the user is known.\<close>

lemma enter_and_run_guarded:
  "guarded (executes_after (confined mc (o_tgtUid opts) (o_tgtGid opts) (auxiliary_gids config))) es
     (proceed (enter_container config) (\<lambda>_. proceed (drop_privileges mc opts config) (\<lambda>_.
        run_command mc environ opts config img args)))"
proof -
  have quiet: "only (\<lambda>e. \<forall>f as env. fst e \<noteq> Execve f as env) (enter_container config)"
    "only (\<lambda>e. \<forall>f as env. fst e \<noteq> Execve f as env) (drop_privileges mc opts config)"
  proof -
    have caps: "only (\<lambda>e. \<forall>f as env. fst e \<noteq> Execve f as env) (shifter_set_capability_boundingset_null k j)" for k j
      by (rule only_mono [OF stays.capabilities]) auto
    show "only (\<lambda>e. \<forall>f as env. fst e \<noteq> Execve f as env) (enter_container config)"
      "only (\<lambda>e. \<forall>f as env. fst e \<noteq> Execve f as env) (drop_privileges mc opts config)"
      unfolding enter_container_def drop_privileges_def by (auto intro!: only_intros caps)
  qed
  show ?thesis
  proof (rule guarded_proceed [OF guarded_only [OF quiet(1)] enter_container_effects], simp,
      rule guarded_proceed [OF guarded_only [OF quiet(2)] drop_privileges_effects], simp)
    fix n n' :: "event list" and x y :: unit
    assume "Inr x = Inr () \<longrightarrow>
      (\<exists>a root c d. n = [(Chdir root, a), (Chroot root, c), (Chdir ''/'', d)] \<and> r_rc c = 0 \<and> r_rc d = 0)"
      and drop: "Inr y = Inr () \<longrightarrow> dropped mc (o_tgtUid opts) (o_tgtGid opts) (auxiliary_gids config) n'"
    then obtain a root c d where n: "n = [(Chdir root, a), (Chroot root, c), (Chdir ''/'', d)]"
      and ok: "r_rc c = 0" "r_rc d = 0" by auto
    have "(es @ n) @ n' = (es @ [(Chdir root, a)]) @ [(Chroot root, c), (Chdir ''/'', d)] @ n'" using n by simp
    moreover have "dropped mc (o_tgtUid opts) (o_tgtGid opts) (auxiliary_gids config) n'" using drop by simp
    ultimately have "confined mc (o_tgtUid opts) (o_tgtGid opts) (auxiliary_gids config) ((es @ n) @ n')"
      using ok unfolding confined_def by blast
    then show "guarded (executes_after (confined mc (o_tgtUid opts) (o_tgtGid opts) (auxiliary_gids config)))
        ((es @ n) @ n') (run_command mc environ opts config img args)"
      by (rule run_command_guarded)
  qed
qed

lemma find_image_effects:
  "results (\<lambda>x. \<forall>img. x = Inr img \<longrightarrow>
     (\<exists>type ident c. parse_ImageData (x_eofbuf mc) (x_readf mc) type ident c empty_ImageData = (0, Ret img)))
   (find_image mc opts config)"
  unfolding find_image_def by (auto intro!: effects_yield split: prod.split outcome.split)

lemma parse_environment_user: "o_username (parse_environment environ opts c) = o_username opts"
  by (auto simp: parse_environment_def Let_def split: option.split)

lemma find_workdir_keeps:
  "results (\<lambda>x. \<forall>opts'. x = Inr opts' \<longrightarrow> o_tgtUid opts' = o_tgtUid opts \<and> o_username opts' = o_username opts)
     (find_workdir img opts)"
  unfolding find_workdir_def Let_def by (auto intro!: effects_yield split: option.split)

lemma read_request_effects:
  "effects (read_request mc argv environ) (\<lambda>x es. \<forall>opts config img args. x = Inr (opts, config, img, args) \<longrightarrow>
     user_entry (o_tgtUid opts) (o_username opts) es \<and>
     (\<exists>type ident c. parse_ImageData (x_eofbuf mc) (x_readf mc) type ident c empty_ImageData = (0, Ret img)))"
proof -
  have logged: "logs (require e b)" "logs (calling (syscall Clearenv))" "logs (outcome_run y)" "logs (or_end e z)"
    for e b and y :: "'x outcome" and z :: "'y option"
    by (rule logs_only [where P = "\<lambda>e. inquires (fst e)"], auto intro!: only_intros)+
  have opts: "effects (parse_options argv (parse_environment environ empty_options c) c)
      (\<lambda>x es. \<forall>config' c'. x = Inr (config', c') \<longrightarrow> user_entry (o_tgtUid config') (o_username config') es)" for c
    by (rule effects_mono [OF parse_options_user]) (simp add: parse_environment_user empty_options_def)
  show ?thesis
    unfolding read_request_def
    by (intro effects_cases effects_yield effects_proceed [OF logged(1)] effects_proceed [OF logged(2)]
          effects_proceed [OF opts] effects_proceed [OF logged(3)] effects_proceed [OF logged(4)]
          effects_proceed [OF find_workdir_keeps] effects_proceed [OF find_image_effects])
       (auto elim!: user_entry_more)
qed

text \<open>Who the caller is, once the request is read and authorized.\<close>

definition caller :: "nat \<Rightarrow> nat \<Rightarrow> nat list \<Rightarrow> event list \<Rightarrow> bool" where
  "caller uid gid gids es \<longleftrightarrow>
     uid \<noteq> 0 \<and> gid \<noteq> 0 \<and> 0 \<notin> set gids \<and>
     (\<exists>u. (Getuid, u) \<in> set es \<and> uid = nat (r_rc u)) \<and> (\<exists>g. (Getgid, g) \<in> set es \<and> gid = nat (r_rc g)) \<and>
     (\<exists>name. user_entry uid (Some name) es \<and> groups_named (Some name) gid gids es)"

lemma caller_more: "caller uid gid gids es \<Longrightarrow> set es \<subseteq> set es' \<Longrightarrow> caller uid gid gids es'"
  unfolding caller_def using user_entry_more groups_named_more by (metis subsetD)

lemma caller_identified:
  assumes "user_entry (o_tgtUid opts) (o_username opts) na" "identified opts gids nb"
  shows "caller (o_tgtUid opts) (o_tgtGid opts) gids (na @ nb)"
proof -
  from assms(2) obtain name where n: "o_username opts = Some name" "groups_named (Some name) (o_tgtGid opts) gids nb"
    unfolding identified_def by auto
  then have "user_entry (o_tgtUid opts) (Some name) (na @ nb)" "groups_named (Some name) (o_tgtGid opts) gids (na @ nb)"
    using user_entry_more [OF assms(1)] groups_named_more [OF n(2)] by auto
  with assms(2) show ?thesis unfolding identified_def caller_def by auto
qed

text \<open>The user and the container's rights, as the calls before the user's command show them.\<close>

definition runs_as_caller :: "machine \<Rightarrow> event list \<Rightarrow> bool" where
  "runs_as_caller mc pre \<longleftrightarrow> (\<exists>uid gid gids. caller uid gid gids pre \<and> confined mc uid gid gids pre)"

text \<open>
  C1. Whatever the user passes and whatever the system answers, the user's command is only executed by a
  process that has entered the container by chroot and chdir, and has then given up, in this order and
  with success, every capability the program knows, all groups but the user's (never the group of root),
  and the group and user ids of root for those of the caller, who is not root; nothing after that changes
  an id, the root or a mount, and no-new-privileges is set where it is known.
\<close>

theorem command_confined:
  "guarded (\<lambda>pre e. \<forall>f as env. fst e = Execve f as env \<longrightarrow> runs_as_caller mc pre) [] (main mc argv environ)"
proof -
  have signals: "logs (calling (set_signals ns b))" for ns b
    by (rule logs_only [where P = "\<lambda>e. inquires (fst e)"]) (intro only_intros)
  have quiet: "guarded (executes_after Q) es p" if "inquiry p" for Q es and p :: "'x sys"
    by (rule inquiry_guarded [OF that]) (auto dest: inquires_stays)
  have final: "guarded (executes_after (runs_as_caller mc)) es
      (proceed (enter_container config) (\<lambda>_. proceed (drop_privileges mc opts config) (\<lambda>_.
        run_command mc environ opts config img args)))"
    if "caller (o_tgtUid opts) (o_tgtGid opts) (auxiliary_gids config) es" for es opts config img args
  proof (rule guarded_mono [OF guarded_after [OF enter_and_run_guarded]], intro allI impI)
    fix pre e f as env
    assume "executes_after (confined mc (o_tgtUid opts) (o_tgtGid opts) (auxiliary_gids config)) pre e \<and> prefix es pre"
      and "fst e = Execve f as env"
    then have c: "confined mc (o_tgtUid opts) (o_tgtGid opts) (auxiliary_gids config) pre" and "prefix es pre" by auto
    then have "caller (o_tgtUid opts) (o_tgtGid opts) (auxiliary_gids config) pre"
      by (intro caller_more [OF that]) (auto dest: set_mono_prefix)
    with c show "runs_as_caller mc pre" unfolding runs_as_caller_def by blast
  qed
  show ?thesis
    unfolding main_def
  proof (intro guarded_proceed [OF quiet signals] guarded_proceed [OF quiet read_request_effects]
      guarded_proceed [OF quiet authorize_effects] guarded_proceed [OF stays_guarded provide_image_keeps] only_intros
      guarded_pair, goal_cases)
    case (1 x n z na opts c1 udiConfig c2 img run_args config nb z' nc opts1 config1)
    have "user_entry (o_tgtUid opts) (o_username opts) na" using 1(2) [unfolded 1(3-5)] by blast
    moreover have "identified opts (auxiliary_gids config) nb" using 1(6) by blast
    ultimately have "caller (o_tgtUid opts) (o_tgtGid opts) (auxiliary_gids config) (na @ nb)"
      by (rule caller_identified)
    moreover have "o_tgtUid opts1 = o_tgtUid opts" "o_tgtGid opts1 = o_tgtGid opts"
      "auxiliary_gids config1 = auxiliary_gids config" using 1(7) [unfolded 1(8)] by blast+
    ultimately have "caller (o_tgtUid opts1) (o_tgtGid opts1) (auxiliary_gids config1) (((([] @ n) @ na) @ nb) @ nc)"
      by (simp, elim caller_more) auto
    then show ?case by (rule final)
  qed
qed

text \<open>An image whose access list admits the caller.\<close>

definition admitted :: "machine \<Rightarrow> event list \<Rightarrow> bool" where
  "admitted mc pre \<longleftrightarrow>
     (\<exists>uid gid gids type ident config img.
        caller uid gid gids pre \<and>
        parse_ImageData (x_eofbuf mc) (x_readf mc) type ident config empty_ImageData = (0, Ret img) \<and>
        check_image_permissions uid gid gids img \<noteq> 0)"

lemma admittedI:
  "caller uid gid gids es \<Longrightarrow> set es \<subseteq> set es' \<Longrightarrow>
     parse_ImageData (x_eofbuf mc) (x_readf mc) type ident config empty_ImageData = (0, Ret img) \<Longrightarrow>
     check_image_permissions uid gid gids img \<noteq> 0 \<Longrightarrow> admitted mc es'"
  unfolding admitted_def using caller_more by blast


end
