(* ===== verification/SampleRun.thy ===== *)
theory SampleRun
  imports ShifterMain
begin

text \<open>
  One run of the main program from its arguments to the user's command, worked out in the kernel: the
  caller ann asks for the command id in the local image /i, whose container is loaded. The run shows
  that the statements on all runs speak of runs that reach the command.
\<close>

section \<open>The machine and the system\<close>

definition run_settings :: "(cstring \<times> cstring) list" where
  "run_settings =
     [(''udiMount'', ''/m''), (''loopMount'', ''/l''), (''imagePath'', ''/img''), (''udiRootPath'', ''/o''),
      (''etcPath'', ''/e''), (''rootfsType'', ''t''), (''modprobePath'', ''/b''), (''insmodPath'', ''/b''),
      (''cpPath'', ''/b''), (''mvPath'', ''/b''), (''chmodPath'', ''/b''), (''ddPath'', ''/b'')]"

definition run_config :: UdiRootConfig where
  "run_config = empty_UdiRootConfig\<lparr>udiMountPoint := Some ''/m'', loopMountPoint := Some ''/l'',
     imageBasePath := Some ''/img'', udiRootPath := Some ''/o'', etcPath := Some ''/e'', rootfsType := Some ''t'',
     modprobePath := Some ''/b'', insmodPath := Some ''/b'', cpPath := Some ''/b'', mvPath := Some ''/b'',
     chmodPath := Some ''/b'', ddPath := Some ''/b''\<rparr>"

definition sample_machine :: machine where
  "sample_machine = \<lparr>x_platform = sample_platform, x_configFile = ''/c'', x_capLast = 1, x_noNewPrivs = True,
     x_junk = [], x_eofbuf = (\<lambda>b. b), x_stat = (\<lambda>p. Some sample_stat),
     x_readf = (\<lambda>p. Some (concat (map (entry_line (CHR ''='')) run_settings)))\<rparr>"

lemma sample_config:
  "parse_UdiRootConfig (x_eofbuf sample_machine) (x_stat sample_machine) (x_readf sample_machine) ''/c''
     empty_UdiRootConfig UDIROOT_VAL_ALL = (0, run_config)"
proof -
  have simple: "\<forall>kv\<in>set run_settings. simple_entry (CHR ''='') kv"
    by (simp add: run_settings_def simple_entry_def trimmed_def char_class_defs special_char_defs)
  have c: "assign_all assign_config run_settings empty_UdiRootConfig = (0, run_config)"
    by (simp add: run_settings_def run_config_def assign_config_def empty_UdiRootConfig_def Let_def)
  have conf: "shifter_parseConfig (\<lambda>b. b) (Some (concat (map (entry_line (CHR ''='')) run_settings))) (CHR ''='')
      empty_UdiRootConfig assign_config = (0, run_config)"
    using parseConfig_entries [OF simple, where eofbuf = "\<lambda>b. b" and obj = empty_UdiRootConfig
        and assign = assign_config] c
    by (simp add: NL_def)
  have v: "validate_UdiRootConfig (\<lambda>p. Some sample_stat) run_config UDIROOT_VAL_ALL = 0"
    by (auto simp: validate_UdiRootConfig_def required_programs_def required_settings_def run_config_def
        empty_UdiRootConfig_def unset_def not_executable_def S_IXUSR_def sample_stat_def)
  show ?thesis
    using conf v
    by (simp add: parse_UdiRootConfig_def validateConfigFile_def sample_machine_def sample_stat_def S_IWOTH_def S_IWGRP_def
        ShifterModule_postprocessing_def run_config_def empty_UdiRootConfig_def)
qed

definition sample_opts :: options where
  "sample_opts = empty_options\<lparr>o_tgtUid := 1000, o_tgtGid := 100, o_request := Some ''local:/i'',
     o_imageType := Some ''local'', o_imageTag := Some ''/i'', o_imageIdentifier := Some ''/i'',
     o_args := Some [''/bin/id''], o_username := Some ''ann''\<rparr>"

definition sample_image :: ImageData where
  "sample_image = empty_ImageData\<lparr>i_identifier := Some ''/i'', i_filename := Some ''/i''\<rparr>"

text \<open>The caller is ann; the container of the image /i is loaded.\<close>

definition loaded_env :: "event list \<Rightarrow> syscall \<Rightarrow> reply" where
  "loaded_env es c =
     (case c of
        Getuid \<Rightarrow> success\<lparr>r_rc := 1000\<rparr>
      | Getgid \<Rightarrow> success\<lparr>r_rc := 100\<rparr>
      | ReadPasswd f \<Rightarrow> success\<lparr>r_users := Some [\<lparr>pw_name = ''ann'', pw_uid = 1000, pw_gid = 100,
          pw_gecos = [], pw_dir = ''/'', pw_shell = ''/b''\<rparr>]\<rparr>
      | Getcwd \<Rightarrow> success\<lparr>r_text := Some ''/''\<rparr>
      | ReadFile f \<Rightarrow> success\<lparr>r_text := Some (fst (generateShifterConfigString ''ann'' sample_image
          empty_VolumeMap run_config))\<rparr>
      | Access p m \<Rightarrow> success\<lparr>r_rc := -1\<rparr>
      | Prctl o' k \<Rightarrow>
          if o' = PR_CAPBSET_READ \<and> 2 < k then success\<lparr>r_rc := -1, r_errno := EINVAL\<rparr> else success
      | _ \<Rightarrow> success)"

section \<open>The run\<close>

text \<open>What a program gives in that system, whatever was called before.\<close>

definition outputs :: "'a sys \<Rightarrow> 'a \<Rightarrow> bool" where
  "outputs p x \<longleftrightarrow>
     (\<forall>w. w_env w = loaded_env \<longrightarrow> fst (run_state p w) = x \<and> w_env (snd (run_state p w)) = loaded_env)"

lemma run_proceed:
  "run_state (proceed p f) w = (case run_state p w of (Inl e, w') \<Rightarrow> (Inl e, w') | (Inr x, w') \<Rightarrow> run_state (f x) w')"
  by (simp add: proceed_def run_bind split: prod.split sum.split)

lemma run_endings [simp]:
  "run_state (require e b) w = (if b then Inr () else Inl e, w)"
  "run_state (calling p) w = (case run_state p w of (x, w') \<Rightarrow> (Inr x, w'))"
  "run_state (or_end e z) w = (case z of None \<Rightarrow> Inl e | Some y \<Rightarrow> Inr y, w)"
  "run_state (outcome_run (Ret a)) w = (Inr a, w)"
  "run_state (insist e c) w = (case run_state (syscall c) w of (r, w') \<Rightarrow> (if r_rc r \<noteq> 0 then Inl e else Inr r, w'))"
  by (simp_all add: require_def calling_def or_end_def outcome_run_def insist_def run_bind)

lemma outputs_proceed: "outputs p (Inr x) \<Longrightarrow> outputs (f x) y \<Longrightarrow> outputs (proceed p f) y"
  by (simp add: outputs_def run_proceed split: prod.split) (metis fst_conv snd_conv sum.case(2))

lemma outputs_calling: "outputs p x \<Longrightarrow> outputs (calling p) (Inr x)"
  by (simp add: outputs_def split: prod.split) (metis fst_conv snd_conv)

lemmas run_defs = outputs_def run_proceed run_bind loaded_env_def success_def

lemma run_config_simps [simp]:
  "udiMountPoint run_config = Some ''/m''" "etcPath run_config = Some ''/e''" "allowLibcPwdCalls run_config = False"
  "modules run_config = []" "active_modules run_config = []" "siteEnv run_config = sa_empty"
  "siteEnvAppend run_config = sa_empty" "siteEnvPrepend run_config = sa_empty" "siteEnvUnset run_config = sa_empty"
  by (simp_all add: run_config_def empty_UdiRootConfig_def)

lemma sample_descriptor: "parse_ImageDescriptor (Some ''local:/i'') run_config = Some (''local'', ''/i'')"
  by code_simp

lemma sample_getopt:
  "getopt [''--image=local:/i'', ''/bin/id''] = ([ShortOpt (CHR ''i'') (Some ''local:/i'')], [''/bin/id''])"
  by code_simp

lemma sample_parse_options:
  "outputs (parse_options [''shifter'', ''--image=local:/i'', ''/bin/id''] empty_options run_config)
     (Inr (sample_opts, run_config\<lparr>target_uid := 1000, target_gid := 100\<rparr>))"
  by (simp add: run_defs parse_options_def sample_getopt Let_def short_option_def sample_descriptor after_arguments_def
      lookup_as_user_def lookup_ImageIdentifier_def finish_options_def trim_volumes_def volumes_of_options_def
      empty_options_def shifter_getpwuid_def first_user_def sample_opts_def show_str_def
      del: getopt_long.simps)

lemma sample_find_image: "outputs (find_image sample_machine sample_opts c) (Inr sample_image)"
  by (simp add: run_defs find_image_def parse_ImageData_def sample_opts_def sample_image_def empty_options_def
     empty_ImageData_def show_str_def)

lemma sample_args: "calculate_args None False (Some [''/bin/id'']) None img = Ret (Some [''/bin/id''])"
  by (simp add: calculate_args_def dup_string_array_def)

lemma sample_read_request:
  "outputs (read_request sample_machine [''shifter'', ''--image=local:/i'', ''/bin/id''] [''PATH=/bin''])
     (Inr (sample_opts, run_config\<lparr>target_uid := 1000, target_gid := 100\<rparr>, sample_image, [''/bin/id'']))"
proof -
  have env: "parse_environment [''PATH=/bin''] empty_options run_config = empty_options"
    by (simp add: parse_environment_def environment_image_def getenv2_def getvar_def setting_def var_name_def empty_options_def)
  have c: "parse_UdiRootConfig (x_eofbuf sample_machine) (x_stat sample_machine) (x_readf sample_machine)
      (x_configFile sample_machine) empty_UdiRootConfig UDIROOT_VAL_ALL = (0, run_config)"
    using sample_config by (simp add: sample_machine_def)
  have tail: "outputs (proceed (outcome_run (calculate_args None (o_useEntryPoint sample_opts) (o_args sample_opts)
      (o_entrypoint sample_opts) sample_image)) (\<lambda>args. proceed (or_end (Exits 1) args) (\<lambda>run_args.
      proceed (find_workdir sample_image sample_opts) (\<lambda>opts1. yield (Inr (opts1, c, sample_image, run_args))))))
      (Inr (sample_opts, c, sample_image, [''/bin/id'']))" for c
    using sample_args by (simp add: outputs_def run_proceed sample_opts_def empty_options_def find_workdir_def)
  have "outputs (calling (syscall Clearenv)) (Inr success)" by (simp add: run_defs)
  then show ?thesis
    unfolding read_request_def c prod.case env
    by (intro outputs_proceed [of _ "()"] outputs_proceed [of _ success] outputs_proceed [OF sample_parse_options]
        outputs_proceed [OF sample_find_image] tail | (simp add: outputs_def; fail) | simp only: prod.case)+
qed

lemma sample_authorize:
  "outputs (authorize sample_opts (run_config\<lparr>target_uid := 1000, target_gid := 100\<rparr>) sample_image)
     (Inr (run_config\<lparr>target_uid := 1000, target_gid := 100, auxiliary_gids := [100]\<rparr>))"
  by (simp add: run_defs authorize_def shifter_getgrouplist_def fill_groups_def sample_opts_def empty_options_def
      check_image_permissions_def sample_image_def empty_ImageData_def Let_def)

abbreviation sample_udi :: UdiRootConfig where
  "sample_udi \<equiv> run_config\<lparr>target_uid := 1000, target_gid := 100, auxiliary_gids := [100]\<rparr>"

lemma sample_provide:
  "outputs (provide_image sample_machine sample_opts sample_udi sample_image)
     (Inr (sample_opts\<lparr>o_workdir := Some ''/''\<rparr>, sample_udi))"
proof -
  have same: "generateShifterConfigString ''ann'' sample_image empty_VolumeMap sample_udi =
      generateShifterConfigString ''ann'' sample_image empty_VolumeMap run_config"
    by (simp add: generateShifterConfigString_def module_list_def module_names_def)
  have vm: "snd (generateShifterConfigString ''ann'' sample_image empty_VolumeMap run_config) = empty_VolumeMap"
    by (simp add: generateShifterConfigString_def getVolMapSignature_def empty_VolumeMap_def split: prod.split)
  obtain t where t: "generateShifterConfigString ''ann'' sample_image empty_VolumeMap run_config = (t, empty_VolumeMap)"
    using vm by (metis prod.collapse)
  show ?thesis
    unfolding provide_image_def isImageLoaded_def compareShifterConfig_def
    by (simp add: run_defs sample_opts_def empty_options_def show_str_def same t)
qed

lemma sample_bounding_set: "outputs (shifter_set_capability_boundingset_null 1 []) 0"
proof -
  have up: "[0..<100] = 0 # 1 # 2 # 3 # [4..<100::nat]" by (simp add: upt_rec)
  show ?thesis
    by (simp add: run_defs shifter_set_capability_boundingset_null_def shifter_get_max_capability_def up
        Let_def PR_CAPBSET_READ_def PR_CAPBSET_DROP_def EINVAL_def upt_rec)
qed

lemma sample_drop:
  "outputs (drop_privileges sample_machine (sample_opts\<lparr>o_workdir := Some ''/''\<rparr>) sample_udi) (Inr ())"
proof -
  have "outputs (calling (shifter_set_capability_boundingset_null 1 [])) (Inr 0)"
    by (rule outputs_calling [OF sample_bounding_set])
  then show ?thesis
    unfolding drop_privileges_def
    by (simp add: sample_machine_def, elim outputs_proceed)
       (simp add: run_defs PR_SET_NO_NEW_PRIVS_def PR_CAPBSET_READ_def)
qed

lemma sample_putenv:
  "shifter_putenv [''PATH=/bin''] ''SHIFTER_IMAGEREQUEST=local:/i'' = (0, [''PATH=/bin'', ''SHIFTER_IMAGEREQUEST=local:/i''])"
  "shifter_putenv [''PATH=/bin'', ''SHIFTER_IMAGEREQUEST=local:/i''] ''SHIFTER_IMAGE=/i'' =
     (0, [''PATH=/bin'', ''SHIFTER_IMAGEREQUEST=local:/i'', ''SHIFTER_IMAGE=/i''])"
  by code_simp+

text \<open>The last call of a run is the execution of the command.\<close>

abbreviation id_command :: syscall where
  "id_command \<equiv> Execve ''/bin/id'' [''/bin/id''] [''PATH=/bin'', ''SHIFTER_IMAGEREQUEST=local:/i'', ''SHIFTER_IMAGE=/i'']"

definition reaches_command :: "'a sys \<Rightarrow> bool" where
  "reaches_command p \<longleftrightarrow>
     (\<forall>w. w_env w = loaded_env \<longrightarrow> (\<exists>pre r. w_trace (snd (run_state p w)) = pre @ [(id_command, r)]))"

lemma reaches_proceed:
  assumes "outputs p (Inr x)" "reaches_command (f x)"
  shows "reaches_command (proceed p f)"
  unfolding reaches_command_def
proof (intro allI impI)
  fix w :: world
  assume "w_env w = loaded_env"
  then have "fst (run_state p w) = Inr x" and w': "w_env (snd (run_state p w)) = loaded_env"
    using assms(1) by (auto simp: outputs_def)
  then have "run_state (proceed p f) w = run_state (f x) (snd (run_state p w))"
    by (cases "run_state p w") (simp add: run_proceed)
  with assms(2) w' show "\<exists>pre r. w_trace (snd (run_state (proceed p f) w)) = pre @ [(id_command, r)]"
    by (simp add: reaches_command_def)
qed

lemma sample_command:
  "reaches_command (run_command sample_machine [''PATH=/bin''] (sample_opts\<lparr>o_workdir := Some ''/''\<rparr>) sample_udi
     sample_image [''/bin/id''])"
  by (simp add: run_defs reaches_command_def run_command_def command_environment_def become_def adoptPATH_def
      held_signals_def active_list_def sample_opts_def empty_options_def shifter_setupenv_def sample_image_def
      empty_ImageData_def sample_machine_def apply_site_settings_def put_name_def Let_def sa_empty_def show_str_def
      sample_putenv)

lemma sample_run:
  "reaches_command (main sample_machine [''shifter'', ''--image=local:/i'', ''/bin/id''] [''PATH=/bin''])"
proof -
  have s: "outputs (calling (set_signals held_signals b)) (Inr ())" for b
    by (simp add: run_defs held_signals_def)
  have e: "outputs (enter_container sample_udi) (Inr ())"
    by (simp add: run_defs enter_container_def)
  show ?thesis
    unfolding main_def
    by (rule reaches_proceed [OF s], rule reaches_proceed [OF sample_read_request], simp only: prod.case,
        rule reaches_proceed [OF sample_authorize], rule reaches_proceed [OF sample_provide], simp only: prod.case,
        rule reaches_proceed [OF e], rule reaches_proceed [OF sample_drop], rule sample_command)
qed

lemma guarded_trace:
  assumes "guarded P [] p" "w_trace (snd (run_state p w)) = pre @ e # post" "w_trace w = []"
  shows "P pre e"
proof -
  from assms(1) obtain new where "w_trace (snd (run_state p w)) = w_trace w @ new"
    "\<forall>pre e post. new = pre @ e # post \<longrightarrow> P ([] @ pre) e"
    unfolding guarded_def effects_def by blast
  with assms(2,3) show ?thesis by (simp only: append_Nil)
qed

lemma guarded_last:
  assumes "guarded P [] p" "reaches_command p"
  shows "\<exists>pre r. w_trace (snd (run_state p \<lparr>w_env = loaded_env, w_trace = []\<rparr>)) = pre @ [(id_command, r)] \<and>
    P pre (id_command, r)"
proof -
  obtain pre r where t: "w_trace (snd (run_state p \<lparr>w_env = loaded_env, w_trace = []\<rparr>)) = pre @ [(id_command, r)]"
    using assms(2) unfolding reaches_command_def by fastforce
  moreover from t have "P pre (id_command, r)" by (rule guarded_trace [OF assms(1)]) simp
  ultimately show ?thesis by blast
qed

section \<open>What the run shows\<close>

lemma command_confined_witness:
  "\<exists>pre r. w_trace (snd (run_state (main sample_machine [''shifter'', ''--image=local:/i'', ''/bin/id''] [''PATH=/bin''])
       \<lparr>w_env = loaded_env, w_trace = []\<rparr>)) = pre @ [(id_command, r)] \<and>
     runs_as_caller sample_machine pre"
  using guarded_last [OF command_confined sample_run] by simp


lemma image_looked_up_as_user_witness:
  "\<exists>pre r post cmd. w_trace (snd (run_state (parse_options [''shifter'', ''--image=docker:u'', ''/bin/id''] empty_options run_config)
       \<lparr>w_env = loaded_env, w_trace = []\<rparr>)) = pre @ (Popen cmd, r) # post \<and>
     (\<exists>front u s. pre = front @ [(Seteuid (nat (r_rc u)), s)] \<and> r_rc s = 0 \<and> (Getuid, u) \<in> set front)"
proof -
  let ?p = "parse_options [''shifter'', ''--image=docker:u'', ''/bin/id''] empty_options run_config"
  let ?w = "\<lparr>w_env = loaded_env, w_trace = []\<rparr>"
  have d: "parse_ImageDescriptor (Some ''docker:u'') run_config = Some (''docker'', ''u'')"
    and g: "getopt [''--image=docker:u'', ''/bin/id''] = ([ShortOpt (CHR ''i'') (Some ''docker:u'')], [''/bin/id''])"
    by code_simp+
  have "\<exists>cmd r. (Popen cmd, r) \<in> set (w_trace (snd (run_state ?p ?w)))"
    by (simp add: run_defs parse_options_def g Let_def short_option_def d after_arguments_def
        lookup_as_user_def lookup_ImageIdentifier_def empty_options_def show_str_def del: getopt_long.simps)
  then obtain cmd r pre post where t: "w_trace (snd (run_state ?p ?w)) = pre @ (Popen cmd, r) # post"
    by (meson split_list)
  have "\<exists>front u s. pre = front @ [(Seteuid (nat (r_rc u)), s)] \<and> r_rc s = 0 \<and> (Getuid, u) \<in> set front"
    using guarded_trace [OF image_looked_up_as_user t] by simp
  with t show ?thesis by blast
qed

end
