(* ===== verification/SshDaemon.thy ===== *)
theory SshDaemon
  imports ShifterMain
begin

text \<open>
  src/src/shifter_core.c, the secure shell daemon of a container: its keys and its configuration, made
  for one user only (\<open>setupImageSsh\<close>), and the start of the daemon inside the container with the rights
  of that user (\<open>startSshd\<close>).
\<close>

section \<open>Keys and configuration\<close>

definition keyType :: "cstring list" where
  "keyType = [''dsa'', ''ecdsa'', ''rsa'', ''ed25519'']"

definition udi_image :: "UdiRootConfig \<Rightarrow> cstring" where
  "udi_image udiConfig = path_buffer (udi udiConfig @ ''/opt/udiImage'')"

definition key_file :: "UdiRootConfig \<Rightarrow> cstring \<Rightarrow> cstring" where
  "key_file udiConfig k = path_buffer (udi_image udiConfig @ ''/etc/ssh_host_'' @ k @ ''_key'')"

definition generate_key :: "UdiRootConfig \<Rightarrow> nat \<Rightarrow> nat \<Rightarrow> cstring \<Rightarrow> int option sys" where
  "generate_key udiConfig uid gid k =
     run_steps
       [step (forkAndExecv [path_buffer (udi_image udiConfig @ ''/bin/ssh-keygen''), ''-t'', k, ''-f'',
                            key_file udiConfig k, ''-N'', []]),
        step (must (Chown (key_file udiConfig k) (int uid) (int gid)))]"

text \<open>
  The lines of the configuration. The loop tests for the end of the file before it reads, so the last
  line is written twice when it ends with a newline, the second time from the trimmed buffer, which the
  GNU library leaves as it is.
\<close>

definition sshd_lines :: "cstring \<Rightarrow> cstring \<Rightarrow> cstring list" where
  "sshd_lines junk contents =
     (let ls = file_lines contents
      in if ls = [] then [junk]
         else if last (last ls) = NL then ls @ [trimmed_buffer (last ls)] else ls)"

definition sshd_line :: "cstring \<Rightarrow> cstring \<Rightarrow> cstring" where
  "sshd_line uname line =
     (let ptr = shifter_trim line
      in (if ptr = ''AllowUsers ToBeReplaced'' then ''AllowUsers '' @ uname else ptr) @ [NL])"

definition sshd_text :: "cstring \<Rightarrow> cstring \<Rightarrow> cstring \<Rightarrow> cstring" where
  "sshd_text junk uname contents = concat (map (sshd_line uname) (sshd_lines junk contents))"

definition sshd_config :: "UdiRootConfig \<Rightarrow> cstring" where
  "sshd_config udiConfig = path_buffer (udi_image udiConfig @ ''/etc/sshd_config'')"

definition sshd_config_new :: "UdiRootConfig \<Rightarrow> cstring" where
  "sshd_config_new udiConfig = path_buffer (udi_image udiConfig @ ''/etc/sshd_config.new'')"

definition rewrite_sshd_config :: "cstring \<Rightarrow> cstring \<Rightarrow> UdiRootConfig \<Rightarrow> int sys" where
  "rewrite_sshd_config junk uname udiConfig =
     do {
       i \<leftarrow> syscall (ReadFile (sshd_config udiConfig));
       f \<leftarrow> syscall (CreateFile (sshd_config_new udiConfig));
       (case r_text i of
          None \<Rightarrow> yield 1
        | Some contents \<Rightarrow>
            if r_rc f \<noteq> 0 then yield 1
            else do {
              w \<leftarrow> syscall (AppendFile (sshd_config_new udiConfig) (sshd_text junk uname contents));
              yield 0
            })
     }"

text \<open>The mode 404 in octal lets the owner and everybody else read, the mode 400 only the owner.\<close>

definition install_sshd_config ::
  "cstring \<Rightarrow> cstring \<Rightarrow> nat \<Rightarrow> nat \<Rightarrow> UdiRootConfig \<Rightarrow> int option sys" where
  "install_sshd_config junk uname uid gid udiConfig =
     run_steps
       [step (rewrite_sshd_config junk uname udiConfig), step (must (Stat (sshd_config_new udiConfig))),
        step (forkAndExecv [show_str (mvPath udiConfig), sshd_config_new udiConfig, sshd_config udiConfig]),
        step (must (Chown (sshd_config udiConfig) (int uid) (int gid))),
        step (must (Chmod (sshd_config udiConfig) 260))]"

definition auth_keys :: "UdiRootConfig \<Rightarrow> cstring" where
  "auth_keys udiConfig = path_buffer (udi_image udiConfig @ ''/etc/user_auth_keys'')"

definition authorize_key :: "cstring option \<Rightarrow> nat \<Rightarrow> UdiRootConfig \<Rightarrow> int option sys" where
  "authorize_key pubKey uid udiConfig =
     (case pubKey of
        None \<Rightarrow> yield (Some 0)
      | Some key \<Rightarrow>
          if key = [] then yield (Some 0)
          else run_steps
            [step (write_file (auth_keys udiConfig) (key @ [NL])),
             step (must (Chown (auth_keys udiConfig) (int uid) 0)), step (must (Chmod (auth_keys udiConfig) 256))])"

text \<open>The client of the image, where there is one, is covered by that of the site.\<close>

definition bind_ssh :: "UdiRootConfig \<Rightarrow> cstring \<Rightarrow> MountList \<Rightarrow> (int \<times> MountList) sys" where
  "bind_ssh udiConfig name mountCache =
     (let to = path_buffer (udi udiConfig @ name)
      in do {
        s \<leftarrow> syscall (Stat to);
        if r_rc s \<noteq> 0 then yield (0, mountCache)
        else do {
          (r, mountCache1) \<leftarrow> shifterCore_bindMount udiConfig mountCache
             (path_buffer (udi_image udiConfig @ ''/bin/ssh'')) to VOLMAP_FLAG_READONLY True;
          yield (if r \<noteq> 0 then 1 else 0, mountCache1)
        }
      })"

definition ssh_client :: "UdiRootConfig \<Rightarrow> MountList \<Rightarrow> int sys" where
  "ssh_client udiConfig mountCache =
     do {
       (r, mountCache1) \<leftarrow> bind_ssh udiConfig ''/usr/bin/ssh'' mountCache;
       if r \<noteq> 0 then yield 1
       else do {
         (r2, mountCache2) \<leftarrow> bind_ssh udiConfig ''/bin/ssh'' mountCache1;
         if r2 \<noteq> 0 then yield 1
         else do {
           c \<leftarrow> shifterCore_copyFile (cpPath udiConfig) (path_buffer (udi_image udiConfig @ ''/etc/ssh_config''))
                  (path_buffer (udi udiConfig @ ''/etc/ssh/ssh_config'')) False 0 0 0;
           yield (if c \<noteq> 0 then 1 else 0)
         }
       }
     }"

definition setupImageSsh ::
  "cstring \<Rightarrow> cstring option \<Rightarrow> cstring \<Rightarrow> nat \<Rightarrow> nat \<Rightarrow> UdiRootConfig \<Rightarrow> int option sys" where
  "setupImageSsh junk pubKey uname uid gid udiConfig =
     (if uid = 0 \<or> gid = 0 then yield (Some 1)
      else do {
        (p, mountCache) \<leftarrow> read_mounts empty_MountList;
        if p \<noteq> 0 then yield (Some 1)
        else do {
          r \<leftarrow> run_steps
            ([step (must (Stat (udi_image udiConfig))), step (must (Chdir (udi_image udiConfig)))] @
             map (generate_key udiConfig uid gid) keyType @
             [install_sshd_config junk uname uid gid udiConfig, authorize_key pubKey uid udiConfig,
              step (ssh_client udiConfig mountCache)]);
          yield (map_option (\<lambda>rc. if rc \<noteq> 0 then 1 else 0) r)
        }
      })"

section \<open>The daemon\<close>

text \<open>
  The child looks up the groups, enters the container, gives up its rights and becomes the daemon; every
  failure ends it. The environment is the one the process has.
\<close>

definition sshd_enter :: "UdiRootConfig \<Rightarrow> unit run" where
  "sshd_enter udiConfig =
     proceed (insist (Exits 1) (Chdir (path_buffer (udi udiConfig)))) (\<lambda>_.
     proceed (insist (Exits 1) (Chroot (path_buffer (udi udiConfig)))) (\<lambda>_.
     proceed (insist (Exits 1) (Chdir ''/'')) (\<lambda>_. yield (Inr ()))))"

definition sshd_drop :: "machine \<Rightarrow> nat list \<Rightarrow> UdiRootConfig \<Rightarrow> unit run" where
  "sshd_drop mc gidList udiConfig =
     proceed (calling (shifter_set_capability_boundingset_null (x_capLast mc) (x_junk mc))) (\<lambda>b.
     proceed (require (Exits 1) (b = 0)) (\<lambda>_.
     proceed (insist (Exits 1) (Setgroups gidList)) (\<lambda>_.
     proceed (insist (Exits 1) (Setresgid (target_gid udiConfig))) (\<lambda>_.
     proceed (insist (Exits 1) (Setresuid (target_uid udiConfig))) (\<lambda>_.
       if x_noNewPrivs mc
       then proceed (insist (Exits 1) (Prctl PR_SET_NO_NEW_PRIVS 1)) (\<lambda>_. yield (Inr ()))
       else yield (Inr ()))))))"

definition sshd_path :: cstring where
  "sshd_path = ''/opt/udiImage/sbin/sshd''"

definition sshd_child :: "machine \<Rightarrow> cstring list \<Rightarrow> cstring \<Rightarrow> UdiRootConfig \<Rightarrow> int run" where
  "sshd_child mc environ user udiConfig =
     proceed (calling (shifter_getgrouplist (Some user) (target_gid udiConfig))) (\<lambda>gl.
     proceed (or_end (Exits 1) gl) (\<lambda>gidList.
     proceed (sshd_enter udiConfig) (\<lambda>_.
     proceed (sshd_drop mc gidList udiConfig) (\<lambda>_. do {
       r \<leftarrow> syscall (Execve sshd_path [sshd_path] environ);
       yield (Inl (if r_rc r = 0 then Becomes else Exits 1))
     }))))"

definition sshd_parent :: "int \<Rightarrow> int sys" where
  "sshd_parent pid =
     do {
       st \<leftarrow> syscall (Waitpid pid);
       yield (if r_rc st \<noteq> pid then 1 else case r_text st of None \<Rightarrow> 1 | Some status \<Rightarrow> fst (strtol10 status))
     }"

definition startSshd :: "machine \<Rightarrow> cstring list \<Rightarrow> cstring \<Rightarrow> UdiRootConfig \<Rightarrow> int run" where
  "startSshd mc environ user udiConfig =
     proceed (calling (syscall (Chdir (path_buffer (udi udiConfig))))) (\<lambda>d.
       if r_rc d \<noteq> 0 \<or> target_uid udiConfig = 0 \<or> target_gid udiConfig = 0 then yield (Inr 1)
       else proceed (calling (syscall ForkSelf)) (\<lambda>pid.
         if r_rc pid < 0 then yield (Inr 1)
         else if r_rc pid = 0 then sshd_child mc environ user udiConfig
         else calling (sshd_parent (r_rc pid))))"

section \<open>The daemon has the user's rights only\<close>

lemma sshd_enter_effects:
  "effects (sshd_enter config) (\<lambda>x es. x = Inr () \<longrightarrow>
     (\<exists>a root c d. es = [(Chdir root, a), (Chroot root, c), (Chdir ''/'', d)] \<and> r_rc c = 0 \<and> r_rc d = 0))"
  unfolding sshd_enter_def by (intro effects_proceed [OF effects_insist] effects_yield) auto

lemma sshd_drop_effects:
  "effects (sshd_drop mc gids config) (\<lambda>x es. x = Inr () \<longrightarrow>
     dropped mc (target_uid config) (target_gid config) gids es)"
  unfolding sshd_drop_def
  by (intro effects_proceed [OF bounding_set_dropped] effects_proceed [OF effects_require]
        effects_proceed [OF effects_insist] effects_cases effects_yield)
     (auto split: if_splits intro!: droppedI [simplified])

abbreviation executes_nothing :: "'a sys \<Rightarrow> bool" where
  "executes_nothing \<equiv> only (\<lambda>e. \<forall>f as env. fst e \<noteq> Execve f as env)"

lemma stays_executes_nothing: "only (\<lambda>e. \<not> leaves (fst e)) p \<Longrightarrow> executes_nothing p"
  by (erule only_mono) auto

lemma sshd_steps_execute_nothing: "executes_nothing (sshd_enter config)" "executes_nothing (sshd_drop mc gids config)"
proof -
  have "executes_nothing (shifter_set_capability_boundingset_null k j)" for k j
    by (rule stays_executes_nothing [OF stays.capabilities])
  then show "executes_nothing (sshd_enter config)" "executes_nothing (sshd_drop mc gids config)"
    unfolding sshd_enter_def sshd_drop_def by (auto intro!: only_intros)
qed

lemma executes_nothing_guarded:
  "executes_nothing p \<Longrightarrow> guarded (\<lambda>pre e. \<forall>f as env. fst e = Execve f as env \<longrightarrow> Q f pre) es p"
  by (erule guarded_only) blast

lemma guarded_if: "(b \<Longrightarrow> guarded P es p) \<Longrightarrow> (\<not> b \<Longrightarrow> guarded P es q) \<Longrightarrow> guarded P es (if b then p else q)"
  by simp

definition daemon_confined :: "machine \<Rightarrow> UdiRootConfig \<Rightarrow> event list \<Rightarrow> bool" where
  "daemon_confined mc config pre \<longleftrightarrow>
     target_uid config \<noteq> 0 \<and> target_gid config \<noteq> 0 \<and>
     (\<exists>gids. 0 \<notin> set gids \<and> confined mc (target_uid config) (target_gid config) gids pre)"

lemma sshd_child_guarded:
  assumes "target_uid config \<noteq> 0" "target_gid config \<noteq> 0"
  shows "guarded (\<lambda>pre e. \<forall>f as env. fst e = Execve f as env \<longrightarrow> f = sshd_path \<and> daemon_confined mc config pre)
    es (sshd_child mc environ user config)"
proof -
  let ?ok = "\<lambda>f pre. f = sshd_path \<and> daemon_confined mc config pre"
  have grps: "effects (calling (shifter_getgrouplist us g)) (\<lambda>x es.
      \<exists>y. x = Inr y \<and> 0 \<notin> set (case y of None \<Rightarrow> [] | Some gs \<Rightarrow> gs))" for us g
    by (rule effects_mono [OF effects_calling [OF groups_without_root]]) (auto split: option.splits)
  have ends: "effects (or_end e y) (\<lambda>x es. es = [] \<and> (\<forall>z. x = Inr z \<longrightarrow> y = Some z))" for e :: ended and y :: "nat list option"
    unfolding or_end_def by (auto intro!: effects_yield split: option.split)
  have quiet: "executes_nothing (calling (shifter_getgrouplist us g))" "executes_nothing (or_end e y)" for us g e and y :: "nat list option"
    by (auto intro!: only_intros stays_executes_nothing [OF stays.users(3)])
  show ?thesis
    unfolding sshd_child_def
  proof (rule guarded_proceed [OF executes_nothing_guarded [OF quiet(1)] grps],
      rule guarded_proceed [OF executes_nothing_guarded [OF quiet(2)] ends],
      rule guarded_proceed [OF executes_nothing_guarded [OF sshd_steps_execute_nothing(1)] sshd_enter_effects],
      rule guarded_proceed [OF executes_nothing_guarded [OF sshd_steps_execute_nothing(2)] sshd_drop_effects], goal_cases)
    case (1 gl n1 gids n2 u n3 v n4)
    then have "0 \<notin> set gids" by auto
    moreover from 1(3) obtain a root c d where n: "n3 = [(Chdir root, a), (Chroot root, c), (Chdir ''/'', d)]"
      and ok: "r_rc c = 0" "r_rc d = 0" by auto
    have "confined mc (target_uid config) (target_gid config) gids ((((es @ n1) @ n2) @ n3) @ n4)"
      unfolding confined_def
      by (rule exI [of _ "es @ n1 @ n2 @ [(Chdir root, a)]"], rule exI [of _ root], rule exI [of _ c],
          rule exI [of _ d], rule exI [of _ n4]) (use n ok 1(4) in simp)
    ultimately have "daemon_confined mc config ((((es @ n1) @ n2) @ n3) @ n4)"
      using assms unfolding daemon_confined_def by blast
    then show ?case by (intro guarded_call guarded_yield) simp
  qed
qed

text \<open>Nothing else is executed, and there is no daemon when the container's user would be root.\<close>

lemma startSshd_guarded:
  "guarded (\<lambda>pre e. \<forall>f as env. fst e = Execve f as env \<longrightarrow> f = sshd_path \<and> daemon_confined mc config pre)
     es (startSshd mc environ user config)"
proof -
  have call: "executes_nothing (calling (syscall (Chdir p)))" "executes_nothing (calling (syscall ForkSelf))"
    "executes_nothing (calling (sshd_parent pid))" for p pid
    by (auto intro!: only_intros simp: sshd_parent_def)
  show ?thesis
    unfolding startSshd_def
  proof (rule guarded_proceed [OF executes_nothing_guarded [OF call(1)] effects_calling_syscall],
      rule guarded_if [OF guarded_yield],
      rule guarded_proceed [OF executes_nothing_guarded [OF call(2)] effects_calling_syscall],
      rule guarded_if [OF guarded_yield], rule guarded_if, goal_cases)
    case 1
    then show ?case by (intro sshd_child_guarded) auto
  qed (rule executes_nothing_guarded [OF call(3)])
qed

section \<open>The configuration of the daemon\<close>

lemma trim_line: "trimmed l \<Longrightarrow> shifter_trim (l @ [NL]) = l"
  using shifter_trim_pad [of "[]" "[NL]" l] by (simp add: char_class_defs special_char_defs)



section \<open>What a successful set-up has done\<close>

lemma steps_keep:
  assumes "p \<in> set ps" "effects p (\<lambda>r es. r = Some 0 \<longrightarrow> R es)" "\<And>a m b. R m \<Longrightarrow> R (a @ m @ b)" "\<forall>q\<in>set ps. logs q"
  shows "effects (run_steps ps) (\<lambda>r es. r = Some 0 \<longrightarrow> R es)"
  using assms(1,4)
proof (induction ps)
  case (Cons q ps)
  have logged: "logs q" "logs (run_steps ps)" using Cons.prems(2) by (auto intro: logs_run_steps)
  have after: "R (n @ n')" if "R n'" for n n' using assms(3) [OF that, of n "[]"] by simp
  have before: "R (n @ n')" if "R n" for n n' using assms(3) [OF that, of "[]" n'] by simp
  show ?case
  proof (cases "p = q")
    case True
    show ?thesis
      unfolding run_steps.simps True [symmetric]
      by (rule effects_seq [OF assms(2)])
         (auto intro!: effects_yield effects_mono [OF logged(2)] before)
  next
    case False
    then have IH: "effects (run_steps ps) (\<lambda>r es. r = Some 0 \<longrightarrow> R es)" using Cons by simp
    show ?thesis
      unfolding run_steps.simps
      by (rule effects_skip [OF logged(1)]) (auto intro!: effects_yield effects_mono [OF IH] after)
  qed
qed simp

lemma success_conj:
  assumes "effects p (\<lambda>r es. r = z \<longrightarrow> R es)" "effects p (\<lambda>r es. r = z \<longrightarrow> S es)"
  shows "effects p (\<lambda>r es. r = z \<longrightarrow> R es \<and> S es)"
  by (rule effects_mono [OF effects_conj [OF assms]]) simp

lemma success_each:
  assumes "logs p" "\<And>k. k \<in> A \<Longrightarrow> effects p (\<lambda>r es. r = z \<longrightarrow> T k es)"
  shows "effects p (\<lambda>r es. r = z \<longrightarrow> (\<forall>k\<in>A. T k es))"
  by (rule effects_mono [OF effects_all [OF assms]]) simp_all

definition succeeded :: "syscall \<Rightarrow> event list \<Rightarrow> bool" where
  "succeeded c es \<longleftrightarrow> (\<exists>r. (c, r) \<in> set es \<and> r_rc r = 0)"

lemma succeeded_part: "succeeded c m \<Longrightarrow> succeeded c (a @ m @ b)"
  by (auto simp: succeeded_def)

lemma must_succeeds: "effects (step (must c)) (\<lambda>r es. r = Some 0 \<longrightarrow> succeeded c es)"
  unfolding step_def must_def succeeded_def
  by (rule effects_seq [where Q = "\<lambda>r n. r = 0 \<longrightarrow> (\<exists>x. (c, x) \<in> set n \<and> r_rc x = 0)"])
     (auto intro!: effects_call_bind effects_yield split: if_splits)

lemma steps_succeed:
  "step (must c) \<in> set ps \<Longrightarrow> \<forall>q\<in>set ps. logs q \<Longrightarrow> effects (run_steps ps) (\<lambda>r es. r = Some 0 \<longrightarrow> succeeded c es)"
  by (rule steps_keep [OF _ must_succeeds succeeded_part])

definition sshd_config_written :: "cstring \<Rightarrow> cstring \<Rightarrow> UdiRootConfig \<Rightarrow> event list \<Rightarrow> bool" where
  "sshd_config_written junk uname config es \<longleftrightarrow>
     (\<exists>r t w. (ReadFile (sshd_config config), r) \<in> set es \<and> r_text r = Some t \<and>
        (AppendFile (sshd_config_new config) (sshd_text junk uname t), w) \<in> set es)"

definition key_authorized :: "cstring option \<Rightarrow> nat \<Rightarrow> UdiRootConfig \<Rightarrow> event list \<Rightarrow> bool" where
  "key_authorized pk uid config es \<longleftrightarrow>
     (case pk of
        None \<Rightarrow> True
      | Some key \<Rightarrow> key = [] \<or>
          (\<exists>w. (AppendFile (auth_keys config) (key @ [NL]), w) \<in> set es) \<and>
          succeeded (Chown (auth_keys config) (int uid) 0) es \<and> succeeded (Chmod (auth_keys config) 256) es)"

lemma ssh_logs [logs_intros]:
  "logs (generate_key c uid gid k)" "logs (rewrite_sshd_config j u c)" "logs (install_sshd_config j u uid gid c)"
  "logs (authorize_key pk uid c)" "logs (ssh_client c m)"
proof -
  show r: "logs (rewrite_sshd_config j u c)"
    unfolding rewrite_sshd_config_def by (intro logs_intros)
  show "logs (generate_key c uid gid k)" "logs (install_sshd_config j u uid gid c)" "logs (authorize_key pk uid c)"
    unfolding generate_key_def install_sshd_config_def authorize_key_def
    by (auto intro!: logs_run_steps logs_intros r split: option.split)
  show "logs (ssh_client c m)"
    unfolding ssh_client_def bind_ssh_def Let_def by (intro logs_intros)
qed

lemma rewrite_writes:
  "effects (step (rewrite_sshd_config j u c)) (\<lambda>r es. r = Some 0 \<longrightarrow> sshd_config_written j u c es)"
  unfolding step_def rewrite_sshd_config_def sshd_config_written_def
  by (rule effects_seq [where Q = "\<lambda>r n. r = 0 \<longrightarrow> (\<exists>r t w. (ReadFile (sshd_config c), r) \<in> set n \<and> r_text r = Some t \<and>
        (AppendFile (sshd_config_new c) (sshd_text j u t), w) \<in> set n)"])
     (auto intro!: effects_call_bind effects_yield split: option.split)

lemma install_does:
  "effects (install_sshd_config j u uid gid c) (\<lambda>r es. r = Some 0 \<longrightarrow> sshd_config_written j u c es)"
  "effects (install_sshd_config j u uid gid c) (\<lambda>r es. r = Some 0 \<longrightarrow> succeeded (Chown (sshd_config c) (int uid) (int gid)) es)"
  "effects (install_sshd_config j u uid gid c) (\<lambda>r es. r = Some 0 \<longrightarrow> succeeded (Chmod (sshd_config c) 260) es)"
  unfolding install_sshd_config_def
  by ((rule steps_keep [OF _ rewrite_writes] steps_succeed; auto intro: logs_intros simp: sshd_config_written_def)+)

lemma authorize_does:
  "effects (authorize_key pk uid c) (\<lambda>r es. r = Some 0 \<longrightarrow> key_authorized pk uid c es)"
proof (cases "pk = None \<or> pk = Some []")
  case True
  then show ?thesis by (auto simp: authorize_key_def key_authorized_def intro!: effects_yield)
next
  case False
  then obtain key where k: "pk = Some key" "key \<noteq> []" by auto
  let ?ps = "[step (write_file (auth_keys c) (key @ [NL])),
             step (must (Chown (auth_keys c) (int uid) 0)), step (must (Chmod (auth_keys c) 256))]"
  have l: "\<forall>q\<in>set ?ps. logs q" by (auto intro: logs_intros)
  have w: "effects (step (write_file (auth_keys c) (key @ [NL])))
      (\<lambda>r es. r = Some 0 \<longrightarrow> (\<exists>w. (AppendFile (auth_keys c) (key @ [NL]), w) \<in> set es))"
    unfolding step_def write_file_def
    by (rule effects_seq [where Q = "\<lambda>r n. r = 0 \<longrightarrow> (\<exists>w. (AppendFile (auth_keys c) (key @ [NL]), w) \<in> set n)"])
       (auto intro!: effects_call_bind effects_yield)
  have w': "effects (run_steps ?ps) (\<lambda>r es. r = Some 0 \<longrightarrow> (\<exists>w. (AppendFile (auth_keys c) (key @ [NL]), w) \<in> set es))"
    by (rule steps_keep [OF _ w _ l]) auto
  have owned: "effects (run_steps ?ps) (\<lambda>r es. r = Some 0 \<longrightarrow> succeeded (Chown (auth_keys c) (int uid) 0) es)"
    "effects (run_steps ?ps) (\<lambda>r es. r = Some 0 \<longrightarrow> succeeded (Chmod (auth_keys c) 256) es)"
    by (rule steps_succeed [OF _ l]; simp)+
  have "authorize_key pk uid c = run_steps ?ps" using k by (simp add: authorize_key_def del: run_steps.simps)
  with success_conj [OF w' success_conj [OF owned]] show ?thesis
    by (simp add: key_authorized_def k del: run_steps.simps)
qed


end
