(* ===== verification/SetupRoot.thy ===== *)
theory SetupRoot
  imports SshDaemon
begin

text \<open>
  src/src/setupRoot.c and src/src/unsetupRoot.c, the programs that a workload manager runs with root's
  rights before and after a job: the first builds the container of the job's user, starts the secure
  shell daemon when there is a key for it and mounts the user's volumes, the second takes it down.
\<close>

section \<open>The command line\<close>

record SetupRootConfig =
  sr_sshPubKey :: "cstring option"
  sr_user :: "cstring option"
  sr_imageType :: cstring
  sr_imageIdentifier :: cstring
  sr_modules :: "cstring option"
  sr_uid :: nat
  sr_gid :: nat
  sr_minNodeSpec :: "cstring option"
  sr_volumeMap :: VolumeMap
  sr_verbose :: bool

definition empty_SetupRootConfig :: SetupRootConfig where
  "empty_SetupRootConfig =
     \<lparr>sr_sshPubKey = None, sr_user = None, sr_imageType = [], sr_imageIdentifier = [], sr_modules = None,
      sr_uid = 0, sr_gid = 0, sr_minNodeSpec = None, sr_volumeMap = empty_VolumeMap, sr_verbose = False\<rparr>"

text \<open>The text "v:s:u:U:G:N:m:V".\<close>

definition setup_options :: "(char \<times> has_arg) list" where
  "setup_options =
     [(CHR ''v'', RequiredArg), (CHR ''s'', RequiredArg), (CHR ''u'', RequiredArg), (CHR ''U'', RequiredArg),
      (CHR ''G'', RequiredArg), (CHR ''N'', RequiredArg), (CHR ''m'', RequiredArg), (CHR ''V'', NoArg)]"

text \<open>
  \<open>getopt\<close> without POSIXLY_CORRECT, which \<open>clearenv\<close> has taken away: options are found anywhere before
  an argument --, the other arguments keep their order.
\<close>

function getopt_anywhere :: "(char \<times> has_arg) list \<Rightarrow> cstring list \<Rightarrow> opt list \<times> cstring list" where
  "getopt_anywhere table [] = ([], [])"
| "getopt_anywhere table (a # rest) =
     (if a = ''--'' then ([], rest)
      else if prefix ''-'' a \<and> a \<noteq> ''-'' then
        (case take_short table (tl a) rest of
           (os1, rest') \<Rightarrow> (case getopt_anywhere table rest' of (os, others) \<Rightarrow> (os1 @ os, others)))
      else (case getopt_anywhere table rest of (os, others) \<Rightarrow> (os, a # others)))"
  by pat_completeness auto
termination
proof (relation "measure (\<lambda>(table, args). length args)", goal_cases)
  case 2
  then show ?case by (simp, metis le_imp_less_Suc snd_conv take_short_rest)
qed simp_all

text \<open>An id is cut to the width of \<open>uid_t\<close>.\<close>

definition setup_option :: "opt \<Rightarrow> SetupRootConfig \<Rightarrow> ended + SetupRootConfig" where
  "setup_option op config =
     (case op of
        ShortOpt c arg \<Rightarrow>
          if c = CHR ''V'' then Inr (config\<lparr>sr_verbose := True\<rparr>)
          else if c = CHR ''v'' then
            (case parseVolumeMap arg (sr_volumeMap config) of
               (rc, vm) \<Rightarrow> if rc \<noteq> 0 then Inl (Exits 1) else Inr (config\<lparr>sr_volumeMap := vm\<rparr>))
          else if c = CHR ''s'' then Inr (config\<lparr>sr_sshPubKey := arg\<rparr>)
          else if c = CHR ''u'' then Inr (config\<lparr>sr_user := arg\<rparr>)
          else if c = CHR ''U'' then Inr (config\<lparr>sr_uid := strtoul10 (show_str arg) mod 2 ^ 32\<rparr>)
          else if c = CHR ''G'' then Inr (config\<lparr>sr_gid := strtoul10 (show_str arg) mod 2 ^ 32\<rparr>)
          else if c = CHR ''N'' then Inr (config\<lparr>sr_minNodeSpec := arg\<rparr>)
          else if c = CHR ''m'' then Inr (config\<lparr>sr_modules := arg\<rparr>)
          else Inr config
      | _ \<Rightarrow> Inl (Exits 1))"

fun setup_option_list :: "opt list \<Rightarrow> SetupRootConfig \<Rightarrow> ended + SetupRootConfig" where
  "setup_option_list [] config = Inr config"
| "setup_option_list (op # os) config =
     (case setup_option op config of Inl e \<Rightarrow> Inl e | Inr config1 \<Rightarrow> setup_option_list os config1)"

definition parse_SetupRootConfig :: "cstring list \<Rightarrow> SetupRootConfig \<Rightarrow> ended + SetupRootConfig" where
  "parse_SetupRootConfig argv config =
     (case getopt_anywhere setup_options (tl argv) of
        (os, remaining) \<Rightarrow>
          (case setup_option_list os config of
             Inl e \<Rightarrow> Inl e
           | Inr config1 \<Rightarrow>
               (case remaining of
                  [a, b] \<Rightarrow>
                    let type = imageDesc_filterString a None
                    in Inr (config1\<lparr>sr_imageType := type, sr_imageIdentifier := imageDesc_filterString b (Some type)\<rparr>)
                | _ \<Rightarrow> Inl (Exits 1))))"

section \<open>Building the container of a job\<close>

definition clean_environ :: "cstring list" where
  "clean_environ = [''PATH=/usr/bin:/usr/sbin:/bin:/sbin'']"

definition getImage :: "machine \<Rightarrow> SetupRootConfig \<Rightarrow> UdiRootConfig \<Rightarrow> ImageData run" where
  "getImage mc config udiConfig =
     (case parse_ImageData (x_eofbuf mc) (x_readf mc) (Some (sr_imageType config)) (sr_imageIdentifier config)
             udiConfig empty_ImageData of
        (rc, Ret img) \<Rightarrow> yield (if rc \<noteq> 0 then Inl (Exits 1) else Inr img)
      | (rc, Abort) \<Rightarrow> yield (Inl Aborts)
      | (rc, OutOfBounds) \<Rightarrow> yield (Inl Faults))"

definition setup_request :: "machine \<Rightarrow> cstring list \<Rightarrow> (SetupRootConfig \<times> UdiRootConfig) run" where
  "setup_request mc argv =
     proceed (calling (syscall Clearenv)) (\<lambda>_.
     proceed (calling (syscall (Setenv ''PATH'' ''/usr/bin:/usr/sbin:/bin:/sbin''))) (\<lambda>_.
     proceed (yield (parse_SetupRootConfig argv empty_SetupRootConfig)) (\<lambda>config.
       (case parse_UdiRootConfig (x_eofbuf mc) (x_stat mc) (x_readf mc) (x_configFile mc) empty_UdiRootConfig
               UDIROOT_VAL_ALL of
          (rc, udiConfig) \<Rightarrow>
            proceed (require (Exits 1) (rc = 0)) (\<lambda>_.
            proceed (calling (shifter_getgrouplist (sr_user config) (sr_gid config))) (\<lambda>gl.
            proceed (or_end (Exits 1) gl) (\<lambda>gids.
              let udiConfig1 = udiConfig\<lparr>target_uid := sr_uid config, target_gid := sr_gid config,
                                         auxiliary_gids := gids\<rparr>;
                  (mrc, udiConfig2) = (case sr_modules config of
                                         None \<Rightarrow> (0, udiConfig1)
                                       | Some m \<Rightarrow> parse_selected_ShifterModule (Some m) udiConfig1)
              in proceed (require (Exits 1) (gids \<noteq> [] \<and> mrc = 0)) (\<lambda>_. yield (Inr (config, udiConfig2))))))))))"

text \<open>A step of the program whose failure ends it.\<close>

definition insist_step :: "int option sys \<Rightarrow> unit run" where
  "insist_step p =
     do {
       r \<leftarrow> p;
       yield (case r of None \<Rightarrow> Inl Faults | Some rc \<Rightarrow> if rc \<noteq> 0 then Inl (Exits 1) else Inr ())
     }"

definition insist_ok :: "int run \<Rightarrow> unit run" where
  "insist_ok p = proceed p (\<lambda>rc. require (Exits 1) (rc = 0))"

text \<open>A text that is there and not empty.\<close>

definition given :: "cstring option \<Rightarrow> bool" where
  "given t \<longleftrightarrow> t \<noteq> None \<and> t \<noteq> Some []"

definition provide_sshd :: "machine \<Rightarrow> SetupRootConfig \<Rightarrow> UdiRootConfig \<Rightarrow> unit run" where
  "provide_sshd mc config udiConfig =
     (if given (sr_sshPubKey config) \<and> given (sr_user config) \<and> sr_uid config \<noteq> 0
      then proceed (insist_step (setupImageSsh (x_junk mc) (sr_sshPubKey config) (show_str (sr_user config))
                      (sr_uid config) (sr_gid config) udiConfig)) (\<lambda>_.
           insist_ok (startSshd mc clean_environ (show_str (sr_user config)) udiConfig))
      else yield (Inr ()))"

definition setup_container :: "machine \<Rightarrow> SetupRootConfig \<Rightarrow> UdiRootConfig \<Rightarrow> ImageData \<Rightarrow> unit run" where
  "setup_container mc config udiConfig img =
     proceed (insist_step (if i_useLoopMount img then step (mountImageLoop (x_platform mc) img udiConfig)
                           else yield (Some 0))) (\<lambda>_.
     proceed (calling (mountImageVFS (x_platform mc) (x_junk mc) img (sr_user config) (sr_minNodeSpec config) udiConfig))
       (\<lambda>(v, udiConfig1).
     proceed (insist_step (yield v)) (\<lambda>_.
     proceed (provide_sshd mc config udiConfig1) (\<lambda>_.
       insist_step (run_steps
         ([setupUserMounts (x_platform mc) (sr_volumeMap config) udiConfig1,
           step (do {
             (rc, vm) \<leftarrow> saveShifterConfig (show_str (sr_user config)) img (sr_volumeMap config) udiConfig1;
             yield rc
           })] @
          (if mountUdiRootWritable udiConfig1 then [] else [step (remountUdiRootReadonly udiConfig1)])))))))"

definition setupRoot_main :: "machine \<Rightarrow> cstring list \<Rightarrow> unit run" where
  "setupRoot_main mc argv =
     proceed (setup_request mc argv) (\<lambda>(config, udiConfig).
     proceed (getImage mc config udiConfig) (\<lambda>img.
     proceed (require (Exits 1)
                (check_image_permissions (sr_uid config) (sr_gid config) (auxiliary_gids udiConfig) img \<noteq> 0)) (\<lambda>_.
       setup_container mc config udiConfig img)))"

section \<open>Taking it down\<close>

definition unsetupRoot_main :: "machine \<Rightarrow> unit run" where
  "unsetupRoot_main mc =
     proceed (calling (syscall Clearenv)) (\<lambda>_.
     proceed (calling (syscall (Setenv ''PATH'' ''/usr/bin:/usr/sbin:/bin:/sbin''))) (\<lambda>_.
       (case parse_UdiRootConfig (x_eofbuf mc) (x_stat mc) (x_readf mc) (x_configFile mc) empty_UdiRootConfig
               UDIROOT_VAL_ALL of
          (rc, udiConfig) \<Rightarrow>
            proceed (require (Exits 1) (rc = 0)) (\<lambda>_.
            proceed (calling (destructUDI udiConfig True)) (\<lambda>r. yield (Inr ()))))))"

section \<open>What it does before the image is known to be the user's\<close>

text \<open>The choice of modules changes nothing else.\<close>

definition but_modules :: "UdiRootConfig \<Rightarrow> UdiRootConfig" where
  "but_modules c = c\<lparr>selectedModulesStr := None, active_modules := []\<rparr>"

lemma select_modules_keep: "select_modules ns c = (rc, c') \<Longrightarrow> but_modules c' = but_modules c"
proof (induction ns arbitrary: c)
  case (Cons n ns)
  obtain r c1 where f: "select_from n 0 c = (r, c1)" by fastforce
  then have "but_modules c1 = but_modules c" using select_from_result [OF f] by (auto simp: but_modules_def)
  with Cons f show ?case by (auto split: if_splits)
qed simp

lemma parse_selected_keeps: "parse_selected_ShifterModule m c = (rc, c') \<Longrightarrow> but_modules c' = but_modules c"
  by (auto simp: parse_selected_ShifterModule_def Let_def split: option.splits if_splits dest!: select_modules_keep)
     (simp_all add: but_modules_def)

lemma but_modules_fields:
  "but_modules c' = but_modules c \<Longrightarrow> target_uid c' = target_uid c \<and> target_gid c' = target_gid c \<and>
     auxiliary_gids c' = auxiliary_gids c \<and> udiRootPath c' = udiRootPath c"
proof -
  have f: "target_uid (but_modules c) = target_uid c" "target_gid (but_modules c) = target_gid c"
    "auxiliary_gids (but_modules c) = auxiliary_gids c" "udiRootPath (but_modules c) = udiRootPath c" for c
    by (simp_all add: but_modules_def)
  show "but_modules c' = but_modules c \<Longrightarrow> ?thesis" using f [of c] f [of c'] by simp
qed

lemma parse_selected_ids:
  "parse_selected_ShifterModule m c = (rc, c') \<Longrightarrow>
     target_uid c' = target_uid c \<and> target_gid c' = target_gid c \<and> auxiliary_gids c' = auxiliary_gids c"
  by (auto dest!: parse_selected_keeps but_modules_fields)

lemma setup_request_effects:
  "effects (setup_request mc argv) (\<lambda>x es. \<forall>config c. x = Inr (config, c) \<longrightarrow>
     parse_SetupRootConfig argv empty_SetupRootConfig = Inr config \<and> sr_gid config \<noteq> 0 \<and> sr_user config \<noteq> None \<and>
     target_uid c = sr_uid config \<and> target_gid c = sr_gid config \<and> 0 \<notin> set (auxiliary_gids c) \<and>
     groups_named (sr_user config) (sr_gid config) (auxiliary_gids c) es)"
proof -
  have val: "effects (yield v) (\<lambda>x es. es = [] \<and> x = v)" for v :: "ended + 'x"
    by (rule effects_yield) simp
  have grps: "effects (calling (shifter_getgrouplist us g)) (\<lambda>x es. \<exists>y. x = Inr y \<and>
      (\<forall>gs. y = Some gs \<longrightarrow> us \<noteq> None \<and> g \<noteq> 0 \<and> 0 \<notin> set gs \<and> groups_named us g gs es))" for us g
    by (rule effects_mono [OF effects_calling [OF effects_conj [OF groups_without_root getgrouplist_named]]])
       (auto split: option.splits)
  have ends: "effects (or_end e y) (\<lambda>x es. es = [] \<and> (\<forall>z. x = Inr z \<longrightarrow> y = Some z))" for e :: ended and y :: "nat list option"
    unfolding or_end_def by (auto intro!: effects_yield split: option.split)
  show ?thesis
    unfolding setup_request_def Let_def
    by (intro effects_proceed [OF effects_calling_syscall] effects_proceed [OF val] effects_cases(2)
          effects_proceed [OF effects_require] effects_proceed [OF grps] effects_proceed [OF ends] effects_yield)
       (auto split: if_splits option.splits prod.splits dest!: parse_selected_ids elim!: groups_named_more)
qed

lemma setup_inquiry: "inquiry (setup_request mc argv)" "inquiry (getImage mc config c)"
  unfolding setup_request_def getImage_def Let_def
  by (auto intro!: only_intros split: option.split prod.split outcome.split)

lemma getImage_effects:
  "results (\<lambda>x. \<forall>img. x = Inr img \<longrightarrow>
     parse_ImageData (x_eofbuf mc) (x_readf mc) (Some (sr_imageType config)) (sr_imageIdentifier config) c empty_ImageData =
       (0, Ret img)) (getImage mc config c)"
  unfolding getImage_def by (auto intro!: effects_yield split: prod.split outcome.split)

text \<open>The image that the arguments name admits the user that they name.\<close>

definition job_admitted :: "machine \<Rightarrow> cstring list \<Rightarrow> event list \<Rightarrow> bool" where
  "job_admitted mc argv es \<longleftrightarrow>
     (\<exists>config gids c img.
        parse_SetupRootConfig argv empty_SetupRootConfig = Inr config \<and> sr_gid config \<noteq> 0 \<and> sr_user config \<noteq> None \<and>
        0 \<notin> set gids \<and> groups_named (sr_user config) (sr_gid config) gids es \<and>
        parse_ImageData (x_eofbuf mc) (x_readf mc) (Some (sr_imageType config)) (sr_imageIdentifier config) c
          empty_ImageData = (0, Ret img) \<and>
        check_image_permissions (sr_uid config) (sr_gid config) gids img \<noteq> 0)"

lemma mountImageVFS_devices:
  "results (\<lambda>x. \<exists>d. snd x = config \<or> snd x = config\<lparr>bindMountAllowedDevices := d\<rparr>) (mountImageVFS pf j img user spec config)"
proof -
  have p: "logs (prepare_root c r)" "logs (allowed_devices img c r)" for c r
    unfolding prepare_root_def allowed_devices_def
    by (intro logs_intros logs_run_steps; auto intro: logs_intros)+
  show ?thesis
    unfolding mountImageVFS_def Let_def
    by (intro results_intros p logs_prepare logs_run_steps; auto intro: logs_intros)
qed

lemma insist_step_only [only_intros]: "only P p \<Longrightarrow> only P (insist_step p)"
  unfolding insist_step_def by (auto intro!: only_intros)

context building
begin

lemma bind_ssh [only_intros]: "only P (bind_ssh c n m)"
  unfolding bind_ssh_def Let_def by (auto intro!: only_intros allowed)

lemma image_ssh [only_intros]: "only P (setupImageSsh j pk u uid gid c)"
  unfolding setupImageSsh_def
  by (intro only_intros run_steps)
     (auto intro!: only_intros run_steps allowed split: option.split
       simp: generate_key_def install_sshd_config_def rewrite_sshd_config_def authorize_key_def ssh_client_def)

lemma saved [only_intros]: "only P (saveShifterConfig u img vm c)" "only P (remountUdiRootReadonly c)"
  unfolding saveShifterConfig_def remountUdiRootReadonly_def by (auto intro!: only_intros allowed)

end

lemma provide_sshd_guarded:
  "guarded (\<lambda>pre e. \<forall>f as env. fst e = Execve f as env \<longrightarrow> f = sshd_path \<and> daemon_confined mc c pre)
     es (provide_sshd mc config c)"
proof -
  have ssh: "executes_nothing (insist_step (setupImageSsh j pk u uid gid c))" for j pk u uid gid
    by (intro insist_step_only stays_executes_nothing stays.image_ssh)
  have req: "executes_nothing (require e b)" for e b by (intro only_intros)
  show ?thesis
    unfolding provide_sshd_def insist_ok_def
    by (intro guarded_cases guarded_yield guarded_proceed [OF executes_nothing_guarded [OF ssh] logs_only [OF ssh]]
          guarded_proceed [OF startSshd_guarded guarded_logs [OF startSshd_guarded]] executes_nothing_guarded [OF req])
qed

lemma setup_container_guarded:
  assumes "target_uid c = uid" "target_gid c = gid"
  shows "guarded (\<lambda>pre e. \<forall>f as env. fst e = Execve f as env \<longrightarrow> f = sshd_path \<and> uid \<noteq> 0 \<and> gid \<noteq> 0 \<and>
      (\<exists>gids. 0 \<notin> set gids \<and> confined mc uid gid gids pre)) es (setup_container mc config c img)"
proof -
  have loop: "executes_nothing (insist_step (if b then step (mountImageLoop pf img c) else yield (Some 0)))" for b pf
    by (auto intro!: only_intros stays_executes_nothing [OF stays.loops(2)] stays_executes_nothing [OF stays.helpers(1)] stays.loops)
  have vfs: "executes_nothing (calling (mountImageVFS pf j img u spec c))" for pf j u spec
    by (intro only_intros stays_executes_nothing [OF stays.mountImageVFS])
  have val: "executes_nothing (insist_step (yield v))" for v by (intro only_intros)
  have last: "executes_nothing (insist_step (run_steps
         ([setupUserMounts pf vm c1, step (do { (rc, vm') \<leftarrow> saveShifterConfig u img vm c1; yield rc })] @
          (if b then [] else [step (remountUdiRootReadonly c1)]))))" for pf vm c1 u b
    by (intro insist_step_only stays_executes_nothing stays.run_steps) (auto intro!: only_intros)
  have devs: "effects (calling (mountImageVFS pf j img u spec c)) (\<lambda>x es. \<exists>y. x = Inr y \<and>
      target_uid (snd y) = uid \<and> target_gid (snd y) = gid)" for pf j u spec
    by (rule effects_mono [OF effects_calling [OF mountImageVFS_devices]]) (use assms in auto)
  have sshd: "guarded (\<lambda>pre e. \<forall>f as env. fst e = Execve f as env \<longrightarrow> f = sshd_path \<and> uid \<noteq> 0 \<and> gid \<noteq> 0 \<and>
      (\<exists>gids. 0 \<notin> set gids \<and> confined mc uid gid gids pre)) es (provide_sshd mc config c1)"
    if "target_uid c1 = uid" "target_gid c1 = gid" for c1 es
    by (rule guarded_mono [OF provide_sshd_guarded]) (use that in \<open>simp add: daemon_confined_def\<close>)
  show ?thesis
    unfolding setup_container_def
  proof (intro guarded_proceed [OF executes_nothing_guarded [OF loop] logs_only [OF loop]]
      guarded_proceed [OF executes_nothing_guarded [OF vfs] devs] guarded_pair
      guarded_proceed [OF executes_nothing_guarded [OF val] logs_only [OF val]], goal_cases)
    case (1 x n y n' v c1 u m)
    then have ids: "target_uid c1 = uid" "target_gid c1 = gid" by auto
    show ?case
      by (rule guarded_proceed [OF sshd [OF ids] guarded_logs [OF sshd [OF ids]]], rule executes_nothing_guarded [OF last])
  qed
qed

lemmas setup_container_logs = guarded_logs [OF setup_container_guarded [OF refl refl]]

text \<open>
  C4. Before the access list of the job's image has been found to admit the job's user, with the groups
  that the system names for that user, the program that sets up a job makes no call but those that ask for
  these groups: it does not mount, write, run or start anything.
\<close>

theorem setupRoot_admitted:
  "guarded (\<lambda>pre e. inquires (fst e) \<or> job_admitted mc argv pre) [] (setupRoot_main mc argv)"
proof -
  have ask: "guarded (\<lambda>pre e. inquires (fst e) \<or> job_admitted mc argv pre) es p" if "inquiry p" for es and p :: "'x sys"
    by (rule inquiry_guarded [OF that]) simp
  have req: "inquiry (require e b)" for e b by (intro only_intros)
  show ?thesis
    unfolding setupRoot_main_def
  proof (intro guarded_proceed [OF ask [OF setup_inquiry(1)] setup_request_effects] guarded_pair
      guarded_proceed [OF ask [OF setup_inquiry(2)] getImage_effects] guarded_proceed [OF ask [OF req] effects_require],
      goal_cases)
    case (1 x n config c img n' u n'')
    then have "groups_named (sr_user config) (sr_gid config) (auxiliary_gids c) n" by blast
    then have "groups_named (sr_user config) (sr_gid config) (auxiliary_gids c) (((([] @ n) @ n') @ n'') @ m)" for m
      by (rule groups_named_more) auto
    moreover have "check_image_permissions (sr_uid config) (sr_gid config) (auxiliary_gids c) img \<noteq> 0"
      using 1(4) by (auto split: if_splits)
    ultimately have "job_admitted mc argv (((([] @ n) @ n') @ n'') @ m)" for m
      unfolding job_admitted_def using 1 by blast
    then show ?case by (intro guarded_logged [OF setup_container_logs]) blast
  qed
qed

section \<open>What it executes\<close>

text \<open>What may be executed, after what calls.\<close>

definition becomes_sshd :: "machine \<Rightarrow> cstring list \<Rightarrow> event list \<Rightarrow> event \<Rightarrow> bool" where
  "becomes_sshd mc argv pre e =
     (case fst e of
        Execve f as env \<Rightarrow>
          f = sshd_path \<and>
          (\<exists>config gids. parse_SetupRootConfig argv empty_SetupRootConfig = Inr config \<and>
             sr_uid config \<noteq> 0 \<and> sr_gid config \<noteq> 0 \<and> 0 \<notin> set gids \<and>
             confined mc (sr_uid config) (sr_gid config) gids pre)
      | _ \<Rightarrow> True)"


end
