(* ===== verification/SampleSetup.thy ===== *)
theory SampleSetup
  imports SetupRoot SampleRun
begin

text \<open>
  A run of the daemon's set-up for the user ann that succeeds, worked out in the kernel.
\<close>

section \<open>Setting up the daemon\<close>

definition sshd_env :: "event list \<Rightarrow> syscall \<Rightarrow> reply" where
  "sshd_env es c =
     (case c of
        Stat p \<Rightarrow>
          if p \<in> {''/m/opt/udiImage'', ''/m/opt/udiImage/etc/ssh_config'', ''/m/opt/udiImage/etc/sshd_config.new''}
          then success else success\<lparr>r_rc := -1\<rparr>
      | Waitpid p \<Rightarrow> success\<lparr>r_text := Some ''0''\<rparr>
      | ReadFile p \<Rightarrow> success\<lparr>r_text := Some []\<rparr>
      | _ \<Rightarrow> success)"

definition gives :: "'a sys \<Rightarrow> 'a \<Rightarrow> bool" where
  "gives p x \<longleftrightarrow> (\<forall>w. w_env w = sshd_env \<longrightarrow> fst (run_state p w) = x \<and> w_env (snd (run_state p w)) = sshd_env)"

lemma gives_bind: "gives p x \<Longrightarrow> gives (f x) y \<Longrightarrow> gives (State_Monad.bind p f) y"
  by (simp add: gives_def run_bind split: prod.split) (metis fst_conv snd_conv)

lemma gives_steps: "\<forall>p\<in>set ps. gives p (Some 0) \<Longrightarrow> gives (run_steps ps) (Some 0)"
proof (induction ps)
  case (Cons p ps)
  then show ?case
    unfolding run_steps.simps by (intro gives_bind [of p "Some 0"]) simp_all
qed (simp add: gives_def)

lemma gives_step: "gives p 0 \<Longrightarrow> gives (step p) (Some 0)"
  unfolding step_def by (erule gives_bind) (simp add: gives_def)

lemma zero_status: "fst (strtol10 ''0'') = 0"
  by code_simp

lemma gives_exec: "gives (forkAndExecv args) 0"
  using zero_status
  by (simp add: gives_def forkAndExecv_def fork_and_exec_def run_bind sshd_env_def success_def)

lemmas gives_defs = gives_def run_bind sshd_env_def success_def no_stat_def path_buffer_def udi_def show_str_def PATH_MAX_def

lemma paths:
  "udi_image run_config = ''/m/opt/udiImage''" "sshd_config_new run_config = ''/m/opt/udiImage/etc/sshd_config.new''"
  by (simp_all add: udi_image_def sshd_config_new_def path_buffer_def udi_def show_str_def PATH_MAX_def)

lemma ssh_setup_succeeds: "gives (setupImageSsh [] (Some ''key'') ''ann'' 1000 100 run_config) (Some 0)"
proof -
  have mounts: "gives (read_mounts empty_MountList) (parse_MountList (Some []) empty_MountList)"
    by (simp add: gives_defs read_mounts_def)
  have must: "gives (step (must c)) (Some 0)" if "\<And>w. w_env w = sshd_env \<Longrightarrow> r_rc (fst (run_state (syscall c) w)) = 0" for c
    by (rule gives_step) (use that in \<open>simp add: gives_defs must_def\<close>)
  have calls: "gives (step (must (Stat ''/m/opt/udiImage''))) (Some 0)" "gives (step (must (Chdir p))) (Some 0)"
    "gives (step (must (Chown p u g))) (Some 0)" "gives (step (must (Chmod p k))) (Some 0)"
    "gives (step (must (Stat ''/m/opt/udiImage/etc/sshd_config.new''))) (Some 0)" for p u g k
    by (rule must, simp add: gives_defs)+
  have keys: "gives (generate_key run_config 1000 100 k) (Some 0)" for k
    unfolding generate_key_def
    by (rule gives_steps) (auto intro!: gives_step gives_exec calls)
  have rewrite: "gives (step (rewrite_sshd_config [] ''ann'' run_config)) (Some 0)"
    by (rule gives_step) (simp add: gives_defs rewrite_sshd_config_def)
  have install: "gives (install_sshd_config [] ''ann'' 1000 100 run_config) (Some 0)"
    unfolding install_sshd_config_def
    by (intro gives_steps) (auto intro!: rewrite calls gives_step gives_exec simp: paths)
  have auth: "gives (authorize_key (Some ''key'') 1000 run_config) (Some 0)"
  proof -
    have "gives (step (write_file p t)) (Some 0)" for p t
      by (rule gives_step) (simp add: gives_defs write_file_def)
    then show ?thesis
      unfolding authorize_key_def by (auto intro!: gives_steps calls simp del: run_steps.simps)
  qed
  have call: "gives (syscall c) (sshd_env [] c)" for c
    by (simp add: gives_def) (auto simp: sshd_env_def split: syscall.split)
  have copy: "gives (shifterCore_copyFile (Some ''/b'') ''/m/opt/udiImage/etc/ssh_config'' ''/m/etc/ssh/ssh_config'' False 0 0 0) 0"
    unfolding shifterCore_copyFile_def Let_def option.case
    by (simp, rule gives_bind [OF call], simp add: sshd_env_def success_def, rule gives_bind [OF call],
        simp add: sshd_env_def success_def no_stat_def INVALID_USER_def INVALID_GROUP_def,
        rule gives_bind [OF gives_exec], simp, rule gives_bind [of _ 0], simp add: gives_def, simp,
        rule gives_bind [OF call], simp add: sshd_env_def success_def, rule gives_bind [OF call],
        simp add: sshd_env_def success_def gives_def)
  have copied: "gives (shifterCore_copyFile (cpPath run_config) (path_buffer (udi_image run_config @ ''/etc/ssh_config''))
      (path_buffer (udi run_config @ ''/etc/ssh/ssh_config'')) False 0 0 0) 0"
  proof -
    have "cpPath run_config = Some ''/b''" by (simp add: run_config_def)
    moreover have "path_buffer (udi_image run_config @ ''/etc/ssh_config'') = ''/m/opt/udiImage/etc/ssh_config''"
      "path_buffer (udi run_config @ ''/etc/ssh/ssh_config'') = ''/m/etc/ssh/ssh_config''"
      by (simp_all add: paths path_buffer_def udi_def show_str_def PATH_MAX_def)
    ultimately show ?thesis using copy by (simp only:)
  qed
  have bind: "gives (bind_ssh run_config n m) (0, m)" if "n \<in> {''/usr/bin/ssh'', ''/bin/ssh''}" for n m
    using that by (auto simp: gives_defs bind_ssh_def Let_def)
  have client: "gives (step (ssh_client run_config m)) (Some 0)" for m
    unfolding ssh_client_def
    by (rule gives_step, rule gives_bind [OF bind], simp, simp, rule gives_bind [OF bind], simp, simp,
        rule gives_bind [OF copied]) (simp add: gives_def)
  have start: "gives (step (must (Stat (udi_image run_config)))) (Some 0)" unfolding paths(1) by (rule calls(1))
  have parsed: "parse_MountList (Some []) empty_MountList = (0, empty_MountList)" by (simp add: parse_MountList_def)
  have done_ok: "gives (yield (map_option (\<lambda>rc. if rc \<noteq> 0 then 1 else 0) (Some (0 :: int)))) (Some (0 :: int))"
    by (simp add: gives_def)
  show ?thesis
    unfolding setupImageSsh_def
    by (simp del: run_steps.simps, rule gives_bind [OF mounts [unfolded parsed]], simp del: run_steps.simps,
        rule gives_bind [OF gives_steps])
       (use done_ok in \<open>auto simp: keyType_def intro: start calls keys install auth client\<close>)
qed


end
