(* ===== verification/SlurmPlugin.thy ===== *)
theory SlurmPlugin
  imports SetupRoot
begin

text \<open>
  src/wlm_integration/slurm/shifterSpank.c, the part of the plugin for Slurm that runs where a user submits
  a job: its configuration, the options that it adds to Slurm's commands, their validation, and what it
  leaves in the job's environment for the nodes of the job. The functions of wrapper.c that only pass a
  question on to Slurm are calls whose answers the system gives.
\<close>

section \<open>Configuration\<close>

record shifterSpank_config =
  ss_shifter_config :: "cstring option"
  ss_extern_setup :: "cstring option"
  ss_memory_cgroup :: "cstring option"
  ss_extern_cgroup :: int
  ss_ccmEnabled :: int
  ss_sshdEnabled :: int
  ss_useLongOptions :: bool
  ss_image :: "cstring option"
  ss_imageType :: "cstring option"
  ss_imageRequest :: "cstring option"
  ss_volume :: "cstring option"
  ss_modules :: "cstring option"
  ss_ccmMode :: bool
  ss_udiConfig :: UdiRootConfig
  ss_args_parsed :: bool

definition empty_spank :: shifterSpank_config where
  "empty_spank =
     \<lparr>ss_shifter_config = None, ss_extern_setup = None, ss_memory_cgroup = None, ss_extern_cgroup = 0,
      ss_ccmEnabled = 0, ss_sshdEnabled = 0, ss_useLongOptions = False, ss_image = None, ss_imageType = None,
      ss_imageRequest = None, ss_volume = None, ss_modules = None, ss_ccmMode = False,
      ss_udiConfig = empty_UdiRootConfig, ss_args_parsed = False\<rparr>"

text \<open>\<open>strncasecmp(p, s, strlen(p)) == 0\<close>.\<close>

definition prefix_nocase :: "cstring \<Rightarrow> cstring \<Rightarrow> bool" where
  "prefix_nocase p s \<longleftrightarrow> strcasecmp_eq p (take (length p) s)"

definition arg_text :: "nat \<Rightarrow> cstring \<Rightarrow> cstring option" where
  "arg_text n arg = Some (shifter_trim (path_buffer (drop n arg)))"

definition plugin_arg :: "cstring \<Rightarrow> shifterSpank_config \<Rightarrow> shifterSpank_config" where
  "plugin_arg arg ss =
     (if prefix ''shifter_config='' arg then ss\<lparr>ss_shifter_config := arg_text 15 arg\<rparr>
      else if prefix_nocase ''extern_setup='' arg then ss\<lparr>ss_extern_setup := arg_text 13 arg\<rparr>
      else if prefix_nocase ''extern_cgroup='' arg then ss\<lparr>ss_extern_cgroup := strtol_int (drop 14 arg)\<rparr>
      else if prefix_nocase ''memory_cgroup='' arg then ss\<lparr>ss_memory_cgroup := arg_text 14 arg\<rparr>
      else if prefix_nocase ''enable_ccm='' arg then ss\<lparr>ss_ccmEnabled := strtol_int (drop 11 arg)\<rparr>
      else if strcasecmp_eq ''long_options'' arg then ss\<lparr>ss_useLongOptions := True\<rparr>
      else if prefix_nocase ''enable_sshd='' arg then ss\<lparr>ss_sshdEnabled := strtol_int (drop 12 arg)\<rparr>
      else ss)"

section \<open>Options\<close>

datatype spank_callback = WrapImage | WrapVolume | WrapModule | WrapCcm

definition spank_option_array :: "(cstring \<times> spank_callback) list" where
  "spank_option_array =
     [(''image'', WrapImage), (''shifter.image'', WrapImage), (''volume'', WrapVolume),
      (''shifter.volume'', WrapVolume), (''module'', WrapModule), (''shifter.module'', WrapModule), (''ccm'', WrapCcm)]"

text \<open>The result of a callback is 0 for success and 1 for an error; two of them may end the process.\<close>

definition shifterSpank_process_option_ccm :: "shifterSpank_config \<Rightarrow> shifterSpank_config" where
  "shifterSpank_process_option_ccm ss =
     ss\<lparr>ss_ccmMode := (ss_ccmEnabled ss \<noteq> 0 \<or> ss_ccmMode ss),
        ss_image := (case ss_image ss of None \<Rightarrow> Some ''/'' | Some i \<Rightarrow> Some i),
        ss_imageType := (case ss_imageType ss of None \<Rightarrow> Some ''local'' | Some t \<Rightarrow> Some t)\<rparr>"

definition shifterSpank_process_option_image ::
  "cstring option \<Rightarrow> shifterSpank_config \<Rightarrow> int \<times> shifterSpank_config" where
  "shifterSpank_process_option_image optarg ss =
     (case optarg of
        None \<Rightarrow> (0, ss)
      | Some a \<Rightarrow>
          if a = [] then (0, ss)
          else (case parse_ImageDescriptor (Some a) (ss_udiConfig ss) of
                  None \<Rightarrow> (1, ss)
                | Some (type, tag) \<Rightarrow> (0, ss\<lparr>ss_imageType := Some type, ss_image := Some tag\<rparr>)))"

definition shifterSpank_process_option_volume ::
  "cstring option \<Rightarrow> shifterSpank_config \<Rightarrow> ended + int \<times> shifterSpank_config" where
  "shifterSpank_process_option_volume optarg ss =
     (case optarg of
        None \<Rightarrow> Inr (1, ss)
      | Some a \<Rightarrow>
          if a = [] then Inr (1, ss)
          else if fst (parseVolumeMap (Some a) empty_VolumeMap) \<noteq> 0 then Inl (Exits 1)
          else Inr (0, ss\<lparr>ss_volume := Some a\<rparr>))"

definition shifterSpank_process_option_module ::
  "cstring option \<Rightarrow> shifterSpank_config \<Rightarrow> ended + int \<times> shifterSpank_config" where
  "shifterSpank_process_option_module optarg ss =
     (case optarg of
        None \<Rightarrow> Inr (1, ss)
      | Some a \<Rightarrow>
          if a = [] then Inr (1, ss)
          else (case parse_selected_ShifterModule (Some a) (ss_udiConfig ss) of
                  (rc, config) \<Rightarrow>
                    if rc \<noteq> 0 then Inl (Exits 1)
                    else Inr (0, ss\<lparr>ss_modules := Some a, ss_udiConfig := config\<rparr>)))"

definition spank_callback_run ::
  "spank_callback \<Rightarrow> cstring option \<Rightarrow> shifterSpank_config \<Rightarrow> ended + int \<times> shifterSpank_config" where
  "spank_callback_run cb optarg ss =
     (case cb of
        WrapCcm \<Rightarrow> Inr (0, shifterSpank_process_option_ccm ss)
      | WrapImage \<Rightarrow> Inr (shifterSpank_process_option_image optarg ss)
      | WrapVolume \<Rightarrow> shifterSpank_process_option_volume optarg ss
      | WrapModule \<Rightarrow> shifterSpank_process_option_module optarg ss)"

fun force_options ::
  "(cstring \<times> spank_callback) list \<Rightarrow> shifterSpank_config \<Rightarrow> (int \<times> shifterSpank_config) run" where
  "force_options [] ss = yield (Inr (0, ss))"
| "force_options ((name, cb) # os) ss =
     proceed (calling (syscall (Slurm (SpankOption name)))) (\<lambda>r.
       if r_rc r \<noteq> 0 then force_options os ss
       else proceed (yield (spank_callback_run cb (r_text r) ss)) (\<lambda>(rc, ss1).
         if rc \<noteq> 0 then yield (Inr (1, ss1)) else force_options os ss1))"

definition wrap_force_arg_parse :: "shifterSpank_config \<Rightarrow> (int \<times> shifterSpank_config) run" where
  "wrap_force_arg_parse ss = force_options spank_option_array ss"

text \<open>On the nodes of a job what does not fit together is dropped, where the job is submitted it is an error.\<close>

definition drop_ccm :: "bool \<Rightarrow> shifterSpank_config \<Rightarrow> ended + shifterSpank_config" where
  "drop_ccm allocator ss =
     (if ss_ccmMode ss \<and>
         ((ss_imageType ss \<noteq> None \<and> ss_imageType ss \<noteq> Some ''local'') \<or>
          (ss_image ss \<noteq> None \<and> ss_image ss \<noteq> Some ''/''))
      then (if allocator then Inl (Exits 1) else Inr (ss\<lparr>ss_ccmMode := False\<rparr>))
      else Inr ss)"

definition drop_volume :: "bool \<Rightarrow> shifterSpank_config \<Rightarrow> ended + shifterSpank_config" where
  "drop_volume allocator ss =
     (if given (ss_volume ss) \<and> \<not> given (ss_image ss)
      then (if allocator then Inl (Exits (-1)) else Inr (ss\<lparr>ss_volume := None\<rparr>))
      else Inr ss)"

definition shifterSpank_validate_input :: "bool \<Rightarrow> shifterSpank_config \<Rightarrow> ended + shifterSpank_config" where
  "shifterSpank_validate_input allocator ss =
     (case drop_ccm allocator ss of
        Inl e \<Rightarrow> Inl e
      | Inr ss1 \<Rightarrow>
          (case drop_volume allocator ss1 of
             Inl e \<Rightarrow> Inl e
           | Inr ss2 \<Rightarrow>
               Inr (ss2\<lparr>ss_image := (if ss_image ss2 = Some [] then None else ss_image ss2), ss_args_parsed := True\<rparr>)))"

text \<open>None when the configuration cannot be read.\<close>

definition shifterSpank_init :: "machine \<Rightarrow> cstring list \<Rightarrow> bool \<Rightarrow> shifterSpank_config option run" where
  "shifterSpank_init mc argv getoptValues =
     (let ss = fold plugin_arg argv empty_spank;
          ss1 = ss\<lparr>ss_shifter_config := (case ss_shifter_config ss of None \<Rightarrow> Some (x_configFile mc) | Some f \<Rightarrow> Some f)\<rparr>
      in case parse_UdiRootConfig (x_eofbuf mc) (x_stat mc) (x_readf mc) (show_str (ss_shifter_config ss1))
                empty_UdiRootConfig UDIROOT_VAL_ALL of
           (rc, config) \<Rightarrow>
             let ss2 = ss1\<lparr>ss_udiConfig := config\<rparr>
             in if rc \<noteq> 0 then yield (Inr None)
                else if \<not> getoptValues then yield (Inr (Some ss2))
                else proceed (wrap_force_arg_parse ss2) (\<lambda>(r, ss3).
                  if r \<noteq> 0 then yield (Inr (Some ss3))
                  else proceed (yield (shifterSpank_validate_input False ss3)) (\<lambda>ss4. yield (Inr (Some ss4)))))"

section \<open>The user's key\<close>

definition key_path :: "passwd \<Rightarrow> cstring \<Rightarrow> cstring" where
  "key_path pwd name = pw_dir pwd @ name"

definition fits_path :: "cstring \<Rightarrow> bool" where
  "fits_path s \<longleftrightarrow> length s < PATH_MAX"

definition make_key :: "passwd \<Rightarrow> int sys" where
  "make_key pwd =
     (if \<not> fits_path (key_path pwd ''/.udiRoot'') then yield 1
      else do {
        d \<leftarrow> syscall (Mkdir (key_path pwd ''/.udiRoot'') 448);
        if r_rc d = -1 \<and> r_errno d \<noteq> EEXIST then yield 1
        else
          let cmd = ''ssh-keygen -t rsa -f '' @ key_path pwd ''/.udiRoot/id_rsa.key'' @
                    '' -N '' @ [CHR 0x27, CHR 0x27] @ '' >/dev/null 2>/dev/null''
          in if \<not> fits_path (key_path pwd ''/.udiRoot/id_rsa.key'') \<or> \<not> fits_path cmd then yield 1
             else do { r \<leftarrow> syscall (Slurm (System cmd)); yield (r_rc r) }
      })"

text \<open>The first line of the file; the buffer of an empty file holds what was there before.\<close>

definition send_key :: "cstring \<Rightarrow> passwd \<Rightarrow> int sys" where
  "send_key junk pwd =
     (if \<not> fits_path (key_path pwd ''/.udiRoot/id_rsa.key.pub'') then yield 1
      else do {
        f \<leftarrow> syscall (ReadFile (key_path pwd ''/.udiRoot/id_rsa.key.pub''));
        (case r_text f of
           None \<Rightarrow> yield 1
         | Some contents \<Rightarrow> do {
             s \<leftarrow> syscall (Slurm (JobSetenv ''SHIFTER_SSH_PUBKEY''
                    (case file_lines contents of [] \<Rightarrow> junk | l # ls \<Rightarrow> l)));
             yield 0
           })
      })"

definition generateSshKey :: "cstring \<Rightarrow> int sys" where
  "generateSshKey junk =
     do {
       u \<leftarrow> syscall Getuid;
       p \<leftarrow> syscall (Getpwuid (nat (r_rc u)));
       (case first_user (\<lambda>pw. True) p of
          None \<Rightarrow> yield 1
        | Some pwd \<Rightarrow>
            if \<not> fits_path (key_path pwd ''/.udiRoot/id_rsa.key'') then yield 1
            else do {
              k \<leftarrow> syscall (Stat (key_path pwd ''/.udiRoot/id_rsa.key''));
              if \<not> fits_path (key_path pwd ''/.udiRoot/id_rsa.key.pub'') then yield 1
              else do {
                s \<leftarrow> syscall (Stat (key_path pwd ''/.udiRoot/id_rsa.key.pub''));
                g \<leftarrow> (if r_rc k \<noteq> 0 \<or> r_rc s \<noteq> 0 then make_key pwd else yield 0);
                if g \<noteq> 0 then yield g else send_key junk pwd
              }
            })
     }"

section \<open>The environment of the job\<close>

fun set_vars :: "slurm_call list \<Rightarrow> unit sys" where
  "set_vars [] = yield ()"
| "set_vars (c # cs) = do { r \<leftarrow> syscall (Slurm c); set_vars cs }"

definition image_vars :: "shifterSpank_config \<Rightarrow> slurm_call list" where
  "image_vars ss =
     (let type = show_str (ss_imageType ss); img = show_str (ss_image ss)
      in [SpankSetenv ''SHIFTER_IMAGE'' img, SpankSetenv ''SHIFTER_IMAGETYPE'' type,
          JobSetenv ''SHIFTER_IMAGE'' img, JobSetenv ''SHIFTER_IMAGETYPE'' type] @
         (case ss_imageRequest ss of
            None \<Rightarrow> []
          | Some r \<Rightarrow> [SpankSetenv ''SHIFTER_IMAGEREQUEST'' r, JobSetenv ''SHIFTER_IMAGEREQUEST'' r]) @
         [SpankSetenv ''_SLURM_SPANK_OPTION_shifter_image'' (type @ '':'' @ img)])"

text \<open>The image is looked up once, where the job is submitted; the job gets its identifier.\<close>

definition identify_image :: "shifterSpank_config \<Rightarrow> shifterSpank_config run" where
  "identify_image ss =
     (if ss_imageType ss = Some ''id'' \<or> ss_imageType ss = Some ''local'' then yield (Inr ss)
      else proceed (calling (lookup_ImageIdentifier (show_str (ss_imageType ss)) (show_str (ss_image ss)) (ss_udiConfig ss)))
        (\<lambda>i. proceed (or_end (Exits (-1)) i) (\<lambda>image_id.
           yield (Inr (ss\<lparr>ss_imageRequest := ss_image ss, ss_image := Some image_id, ss_imageType := Some ''id''\<rparr>)))))"

definition shifterSpank_init_allocator_setup :: "cstring \<Rightarrow> shifterSpank_config \<Rightarrow> shifterSpank_config run" where
  "shifterSpank_init_allocator_setup junk ss =
     (if ss_imageType ss = None \<or> ss_image ss = None then yield (Inr ss)
      else proceed (identify_image ss) (\<lambda>ss1.
        if \<not> given (ss_image ss1) then yield (Inr ss1)
        else proceed (calling (if ss_sshdEnabled ss1 \<noteq> 0 then generateSshKey junk else yield 0)) (\<lambda>k.
             proceed (calling (set_vars (image_vars ss1))) (\<lambda>_. yield (Inr ss1)))))"

definition request_vars :: "shifterSpank_config \<Rightarrow> slurm_call list" where
  "request_vars ss =
     (let var = (\<lambda>name v. if given v then [SpankSetenv name (show_str v), JobSetenv name (show_str v)] else [])
      in var ''SHIFTER_VOLUME'' (ss_volume ss) @ var ''SHIFTER_MODULE'' (ss_modules ss) @
         (if ss_ccmMode ss
          then [SpankSetenv ''SHIFTER_CCM'' ''1'', JobSetenv ''SHIFTER_CCM'' ''1'',
                SpankSetenv ''_SLURM_SPANK_OPTION_shifter_ccm'' []]
          else []))"

definition shifterSpank_init_setup :: "shifterSpank_config \<Rightarrow> unit sys" where
  "shifterSpank_init_setup ss = (if ss_image ss = Some [] then yield () else set_vars (request_vars ss))"

end
