(* ===== verification/SlurmJob.thy ===== *)
theory SlurmJob
  imports SlurmPlugin
begin

text \<open>
  src/wlm_integration/slurm/shifterSpank.c and wrapper.c, the part of the plugin for Slurm that runs on the
  nodes of a job: the prolog, which starts setupRoot with what the user asked for, the epilog, which starts
  unsetupRoot, the steps around the tasks of a job, and the entry points that Slurm calls.
\<close>

section \<open>Questions to Slurm\<close>

text \<open>
  The answer to \<open>SpankItem\<close> has the item in \<open>r_ids\<close>. That of \<open>LoadJob\<close> has the number of records, of
  processors, of nodes and the flag for shared nodes in \<open>r_ids\<close> and the names of the hosts, separated by
  commas, in \<open>r_text\<close>; a library that cannot be loaded counts as a failure of the call.
\<close>

definition spank_item :: "cstring \<Rightarrow> nat option sys" where
  "spank_item name =
     do {
       r \<leftarrow> syscall (Slurm (SpankItem name));
       yield (if r_rc r \<noteq> 0 then None else Some (case r_ids r of [] \<Rightarrow> 0 | v # vs \<Rightarrow> v mod 2 ^ 32))
     }"

definition wrap_spank_get_supplementary_gids :: "nat list option sys" where
  "wrap_spank_get_supplementary_gids =
     do {
       r \<leftarrow> syscall (Slurm (SpankItem ''S_JOB_SUPPLEMENTARY_GIDS''));
       yield (if r_rc r \<noteq> 0 then None else Some (r_ids r))
     }"

text \<open>The hosts, the number of nodes, the tasks on each node and whether the nodes are shared.\<close>

definition wrap_spank_extra_job_attributes :: "nat \<Rightarrow> (cstring option \<times> nat \<times> nat \<times> nat) option run" where
  "wrap_spank_extra_job_attributes jobid =
     proceed (calling (syscall (Slurm (LoadJob jobid)))) (\<lambda>r.
       if r_rc r \<noteq> 0 then yield (Inr None)
       else (case r_ids r of
               [record_count, num_cpus, num_nodes, shared] \<Rightarrow>
                 if record_count \<noteq> 1 then yield (Inr None)
                 else if num_nodes = 0 then yield (Inl Faults)
                 else yield (Inr (Some (r_text r, num_nodes, num_cpus div num_nodes, shared)))
             | _ \<Rightarrow> yield (Inr None)))"

text \<open>None when the list has fewer names than the job has nodes: the scan leaves the text.\<close>

definition node_list :: "cstring \<Rightarrow> nat \<Rightarrow> nat \<Rightarrow> cstring option" where
  "node_list raw n tasks =
     (let names = split_on (\<lambda>c. c = CHR '','') raw
      in if length names < n then None
         else Some (join_with '' '' (map (\<lambda>h. h @ ''/'' @ show_nat tasks) (take n names))))"

definition read_data_from_job :: "(nat \<times> cstring option \<times> nat) option run" where
  "read_data_from_job =
     proceed (calling (spank_item ''S_JOB_ID'')) (\<lambda>j.
       (case j of
          None \<Rightarrow> yield (Inr None)
        | Some jobid \<Rightarrow>
            proceed (wrap_spank_extra_job_attributes jobid) (\<lambda>a.
              (case a of
                 None \<Rightarrow> yield (Inr None)
               | Some (None, n, tasks, shared) \<Rightarrow> yield (Inr (Some (jobid, None, shared)))
               | Some (Some raw, n, tasks, shared) \<Rightarrow>
                   proceed (or_end Faults (node_list raw n tasks)) (\<lambda>nodes.
                     yield (Inr (Some (jobid, Some nodes, shared))))))))"

section \<open>Control groups\<close>

definition create_cgroup_dir :: "cstring \<Rightarrow> int sys" where
  "create_cgroup_dir path =
     do { r \<leftarrow> syscall (Mkdir path 493); yield (if r_rc r = 0 \<or> r_errno r = EEXIST then 0 else 1) }"

definition cgroup_components :: "cstring \<Rightarrow> nat \<Rightarrow> nat \<Rightarrow> cstring list" where
  "cgroup_components base job uid =
     (let shifter = base @ ''/shifter'';
          user = shifter @ ''/uid_'' @ show_int (to_i32 (int uid))
      in [shifter, user, user @ ''/job_'' @ show_nat job])"

fun cgroup_actions :: "(cstring \<Rightarrow> int sys) \<Rightarrow> cstring list \<Rightarrow> bool sys" where
  "cgroup_actions act [] = yield True"
| "cgroup_actions act (p # ps) = do { r \<leftarrow> act p; if r \<noteq> 0 then yield False else cgroup_actions act ps }"

definition setup_memory_cgroup ::
  "shifterSpank_config \<Rightarrow> nat \<Rightarrow> nat \<Rightarrow> (cstring \<Rightarrow> int sys) \<Rightarrow> cstring option sys" where
  "setup_memory_cgroup ss job uid act =
     (case ss_memory_cgroup ss of
        None \<Rightarrow> yield None
      | Some base \<Rightarrow> do {
          s \<leftarrow> syscall (Stat base);
          if r_rc s \<noteq> 0 then yield None
          else do {
            made \<leftarrow> cgroup_actions act (cgroup_components base job uid);
            yield (if made then Some (last (cgroup_components base job uid)) else None)
          }
        })"

section \<open>Programs that the plugin starts\<close>

text \<open>
  The output of the program goes to the log of Slurm through two pipes. The parent does not look at the
  result of \<open>waitpid\<close>: when it fails the status stays 0.
\<close>

definition forkAndExecvLogToSlurm :: "cstring list \<Rightarrow> int sys" where
  "forkAndExecvLogToSlurm args =
     do {
       p1 \<leftarrow> syscall (Slurm Pipe);
       if r_rc p1 \<noteq> 0 then yield 1
       else do {
         p2 \<leftarrow> syscall (Slurm Pipe);
         if r_rc p2 \<noteq> 0 then yield 1
         else do {
           pid \<leftarrow> syscall (Fork args False);
           if r_rc pid < 0 then yield 1
           else do {
             st \<leftarrow> syscall (Waitpid (r_rc pid));
             yield (if r_rc st < 0 then 0
                    else (case r_text st of None \<Rightarrow> 1 | Some status \<Rightarrow> if fst (strtol10 status) \<noteq> 0 then 1 else 0))
           }
         }
       }
     }"

section \<open>The prolog\<close>

text \<open>What the environment of the prolog says overrides the options; the later variable of two wins.\<close>

fun override :: "cstring list \<Rightarrow> cstring list \<Rightarrow> (cstring \<Rightarrow> 'a \<Rightarrow> 'a) \<Rightarrow> 'a \<Rightarrow> 'a" where
  "override environ [] f x = x"
| "override environ (name # names) f x =
     override environ names f (case getvar environ name of None \<Rightarrow> x | Some v \<Rightarrow> f v x)"

definition select_modules_text :: "cstring \<Rightarrow> shifterSpank_config \<Rightarrow> shifterSpank_config" where
  "select_modules_text v ss =
     (case parse_selected_ShifterModule (Some v) (ss_udiConfig ss) of
        (rc, config) \<Rightarrow> ss\<lparr>ss_modules := (if rc = 0 then Some v else None), ss_udiConfig := config\<rparr>)"

definition prolog_environment :: "cstring list \<Rightarrow> shifterSpank_config \<Rightarrow> shifterSpank_config" where
  "prolog_environment environ ss =
     (let type = (case getvar environ ''SPANK_SHIFTER_IMAGETYPE'' of
                    Some t \<Rightarrow> Some t | None \<Rightarrow> getvar environ ''SHIFTER_IMAGETYPE'');
          kind = map_option (\<lambda>t. imageDesc_filterString t None) type;
          ss1 = (if kind = None then ss else ss\<lparr>ss_imageType := kind\<rparr>);
          ss2 = override environ [''SPANK_SHIFTER_IMAGE'', ''SHIFTER_IMAGE'']
                  (\<lambda>v s. s\<lparr>ss_image := Some (imageDesc_filterString v kind)\<rparr>) ss1;
          ss3 = override environ [''SPANK_SHIFTER_VOLUME'', ''SHIFTER_VOLUME''] (\<lambda>v s. s\<lparr>ss_volume := Some v\<rparr>) ss2
      in override environ [''SPANK_SHIFTER_MODULE'', ''SHIFTER_MODULE''] select_modules_text ss3)"

definition job_ssh_key :: "cstring list \<Rightarrow> shifterSpank_config \<Rightarrow> cstring option" where
  "job_ssh_key environ ss =
     (if ss_sshdEnabled ss = 0 then None
      else map_option shifter_trim
             (case getvar environ ''SPANK_SHIFTER_SSH_PUBKEY'' of
                Some k \<Rightarrow> Some k | None \<Rightarrow> getvar environ ''SHIFTER_SSH_PUBKEY''))"

definition job_uid :: "cstring list \<Rightarrow> nat option sys" where
  "job_uid environ =
     (case getvar environ ''SLURM_JOB_UID'' of
        Some s \<Rightarrow> yield (Some (to_u32 (max (- (2 ^ 63)) (min (2 ^ 63 - 1) (fst (strtol10 s))))))
      | None \<Rightarrow> spank_item ''S_JOB_UID'')"

text \<open>\<open>getpwuid_r\<close>, asked again as long as it is interrupted: its result and the entry.\<close>

definition job_user :: "nat \<Rightarrow> (int \<times> passwd option) sys" where
  "job_user uid =
     do {
       r \<leftarrow> syscall (Getpwuid uid);
       yield (r_rc r, if r_rc r \<noteq> 0 then None else first_user (\<lambda>pw. True) r)
     }"

definition job_gid :: "nat \<Rightarrow> nat option sys" where
  "job_gid uid =
     do {
       g \<leftarrow> spank_item ''S_JOB_GID'';
       (case g of
          Some gid \<Rightarrow> yield (Some gid)
        | None \<Rightarrow> do { (rc, u) \<leftarrow> job_user uid; yield (map_option (\<lambda>pw. pw_gid pw mod 2 ^ 32) u) })
     }"

definition volume_pieces :: "cstring option \<Rightarrow> cstring list" where
  "volume_pieces volume =
     (if given volume then split_on (\<lambda>c. c = CHR '';'') (show_str volume) else [])"

definition with_opt :: "cstring \<Rightarrow> cstring option \<Rightarrow> cstring list" where
  "with_opt name v = (case v of None \<Rightarrow> [] | Some x \<Rightarrow> [name, x])"

definition setupRoot_args ::
  "UdiRootConfig \<Rightarrow> nat \<Rightarrow> nat \<Rightarrow> cstring option \<Rightarrow> cstring option \<Rightarrow> cstring option \<Rightarrow> shifterSpank_config \<Rightarrow>
   cstring list" where
  "setupRoot_args config uid gid user key nodes ss =
     [path_buffer (show_str (udiRootPath config) @ ''/sbin/setupRoot'')] @
     (if uid \<noteq> 0 then [''-U'', show_nat uid] else []) @
     (if gid \<noteq> 0 then [''-G'', show_nat gid] else []) @
     with_opt ''-u'' user @ with_opt ''-s'' key @ with_opt ''-N'' nodes @
     concat (map (\<lambda>v. [''-v'', v]) (volume_pieces (ss_volume ss))) @
     with_opt ''-m'' (ss_modules ss) @
     [show_str (ss_imageType ss), show_str (ss_image ss)]"

text \<open>The process joins the control group, so that the programs that it starts are in it.\<close>

definition join_cgroup :: "shifterSpank_config \<Rightarrow> nat \<Rightarrow> nat \<Rightarrow> unit sys" where
  "join_cgroup ss job uid =
     do {
       g \<leftarrow> setup_memory_cgroup ss job uid create_cgroup_dir;
       (case g of
          None \<Rightarrow> yield ()
        | Some p \<Rightarrow> do {
            pid \<leftarrow> syscall Getpid;
            w \<leftarrow> syscall (WriteFile (p @ ''/tasks'') (show_int (r_rc pid) @ [NL]));
            yield ()
          })
     }"

definition run_setupRoot :: "shifterSpank_config \<Rightarrow> nat \<Rightarrow> nat \<Rightarrow> cstring list \<Rightarrow> unit sys" where
  "run_setupRoot ss job uid args =
     do {
       c \<leftarrow> join_cgroup ss job uid;
       status \<leftarrow> forkAndExecvLogToSlurm args;
       w \<leftarrow> (if status = 0
             then do {
               r \<leftarrow> syscall (WriteFile (path_buffer (udi (ss_udiConfig ss) @ ''/var/shifterSlurm.jobid''))
                              (show_int (to_i32 (int job))));
               yield ()
             } else yield ());
       pid \<leftarrow> findSshd;
       yield ()
     }"

text \<open>
  The result is that of the last look at the user data base, whatever setupRoot did; the volumes are cut
  at the first semicolon because the text is split in place.
\<close>

definition prolog_setup ::
  "cstring list \<Rightarrow> shifterSpank_config \<Rightarrow> nat \<Rightarrow> cstring option \<Rightarrow> nat \<Rightarrow> nat \<Rightarrow> (int \<times> shifterSpank_config) run" where
  "prolog_setup environ ss job nodes uid gid =
     proceed (calling (job_user uid)) (\<lambda>(rc, pw).
       if given (ss_volume ss) \<and> fst (parseVolumeMap (ss_volume ss) empty_VolumeMap) \<noteq> 0 then yield (Inr (1, ss))
       else proceed (calling (run_setupRoot ss job uid
              (setupRoot_args (ss_udiConfig ss) uid gid (map_option pw_name pw) (job_ssh_key environ ss) nodes ss)))
              (\<lambda>_. yield (Inr (rc, if given (ss_volume ss)
                                  then ss\<lparr>ss_volume := Some (hd (volume_pieces (ss_volume ss)))\<rparr> else ss))))"

definition prolog_job ::
  "cstring list \<Rightarrow> shifterSpank_config \<Rightarrow> nat \<Rightarrow> cstring option \<Rightarrow> (int \<times> shifterSpank_config) run" where
  "prolog_job environ ss job nodes =
     proceed (calling (job_uid environ)) (\<lambda>u.
       (case u of
          None \<Rightarrow> yield (Inr (1, ss))
        | Some uid \<Rightarrow>
            if uid = 0 then yield (Inr (1, ss))
            else proceed (calling (job_gid uid)) (\<lambda>g.
              (case g of
                 None \<Rightarrow> yield (Inr (1, ss))
               | Some gid \<Rightarrow> prolog_setup environ ss job nodes uid gid))))"

definition shifterSpank_job_prolog ::
  "cstring list \<Rightarrow> shifterSpank_config \<Rightarrow> (int \<times> shifterSpank_config) run" where
  "shifterSpank_job_prolog environ ss =
     (if \<not> given (ss_image ss) \<or> \<not> given (ss_imageType ss) then yield (Inr (0, ss))
      else
        let ss1 = prolog_environment environ ss
        in proceed (calling (syscall (Stat (path_buffer (udi (ss_udiConfig ss1) @ ''/var/shifterConfig.json''))))) (\<lambda>c.
             if r_rc c = 0 then yield (Inr (0, ss1))
             else
               let ss2 = ss1\<lparr>ss_imageType := map_option (map tolower) (ss_imageType ss1)\<rparr>
               in proceed read_data_from_job (\<lambda>d.
                    (case d of
                       None \<Rightarrow> yield (Inr (1, ss2))
                     | Some (job, nodes, shared) \<Rightarrow>
                         if shared \<noteq> 0 then yield (Inr (0, ss2)) else prolog_job environ ss2 job nodes))))"

section \<open>The epilog\<close>

fun kill_tasks :: "cstring list \<Rightarrow> unit sys" where
  "kill_tasks [] = yield ()"
| "kill_tasks (l # ls) =
     (let pid = strtol_int l
      in if pid = 0 then kill_tasks ls else do { k \<leftarrow> syscall (Kill pid 9); kill_tasks ls })"

text \<open>
  Every process of the job's control group is killed. The loop that should then remove the empty groups
  starts at the NULL behind the last of them and ends there, so that it makes no call.
\<close>

definition clear_cgroup :: "shifterSpank_config \<Rightarrow> nat \<Rightarrow> nat \<Rightarrow> unit sys" where
  "clear_cgroup ss job uid =
     do {
       g \<leftarrow> setup_memory_cgroup ss job uid (\<lambda>p. yield 0);
       (case g of
          None \<Rightarrow> yield ()
        | Some p \<Rightarrow> do {
            f \<leftarrow> syscall (ReadFile (p @ ''/tasks''));
            (case r_text f of None \<Rightarrow> yield () | Some text \<Rightarrow> kill_tasks (file_lines text))
          })
     }"

definition unsetupRoot_path :: "UdiRootConfig \<Rightarrow> cstring" where
  "unsetupRoot_path config = path_buffer (show_str (udiRootPath config) @ ''/sbin/unsetupRoot'')"

definition shifterSpank_job_epilog :: "shifterSpank_config \<Rightarrow> int sys" where
  "shifterSpank_job_epilog ss =
     (if \<not> given (ss_image ss) then yield 0
      else do {
        u \<leftarrow> spank_item ''S_JOB_UID'';
        (case u of
           None \<Rightarrow> yield 1
         | Some uid \<Rightarrow> do {
             j \<leftarrow> spank_item ''S_JOB_ID'';
             (case j of
                None \<Rightarrow> yield 1
              | Some job \<Rightarrow> do {
                  c \<leftarrow> clear_cgroup ss job uid;
                  status \<leftarrow> forkAndExecvLogToSlurm [unsetupRoot_path (ss_udiConfig ss)];
                  yield (if status \<noteq> 0 then -1 else 0)
                })
           })
      })"

section \<open>The external step of a job\<close>

text \<open>\<open>fgets\<close> with a buffer of \<open>n\<close> bytes reads a line in pieces of at most \<open>n\<close> - 1 bytes.\<close>

fun pieces :: "nat \<Rightarrow> cstring \<Rightarrow> cstring list" where
  "pieces n l = (if length l \<le> n \<or> n = 0 then [l] else take n l # pieces n (drop n l))"

declare pieces.simps [simp del]

fun move_pids :: "int \<Rightarrow> nat \<Rightarrow> cstring list \<Rightarrow> unit sys" where
  "move_pids fd protocol [] = yield ()"
| "move_pids fd protocol (l # ls) =
     (let pid = strtol_int l
      in if pid = 0 then move_pids fd protocol ls
         else do { a \<leftarrow> syscall (Slurm (StepdAddPid fd protocol pid)); move_pids fd protocol ls })"

definition reply_protocol :: "reply \<Rightarrow> nat" where
  "reply_protocol r = (case r_ids r of [] \<Rightarrow> 0 | v # vs \<Rightarrow> v mod 2 ^ 16)"

text \<open>The number that Slurm gives to its external step is a parameter.\<close>

definition move_cgroup :: "nat \<Rightarrow> nat \<Rightarrow> cstring \<Rightarrow> unit sys" where
  "move_cgroup extern jobid p =
     do {
       f \<leftarrow> syscall (ReadFile (p @ ''/tasks''));
       (case r_text f of
          None \<Rightarrow> yield ()
        | Some text \<Rightarrow> do {
            fd \<leftarrow> syscall (Slurm (StepdConnect jobid extern));
            if r_rc fd < 0 then yield ()
            else move_pids (r_rc fd) (reply_protocol fd) (concat (map (pieces (PATH_MAX - 1)) (file_lines text)))
          })
     }"

definition move_sshd :: "nat \<Rightarrow> nat \<Rightarrow> unit sys" where
  "move_sshd extern jobid =
     do {
       pid \<leftarrow> findSshd;
       fd \<leftarrow> syscall (Slurm (StepdConnect jobid extern));
       if pid > 2 \<and> r_rc fd \<ge> 0
       then do { a \<leftarrow> syscall (Slurm (StepdAddPid (r_rc fd) (reply_protocol fd) pid)); yield () }
       else yield ()
     }"

definition extern_processes :: "nat \<Rightarrow> shifterSpank_config \<Rightarrow> nat \<Rightarrow> nat \<Rightarrow> unit sys" where
  "extern_processes extern ss jobid uid =
     (if ss_extern_cgroup ss = 0 then yield ()
      else do {
        g \<leftarrow> setup_memory_cgroup ss jobid uid (\<lambda>p. yield 0);
        (case g of None \<Rightarrow> move_sshd extern jobid | Some p \<Rightarrow> move_cgroup extern jobid p)
      })"

definition extern_complete :: "UdiRootConfig \<Rightarrow> cstring" where
  "extern_complete config = path_buffer (udi config @ ''/var/shifterExtern.complete'')"

definition extern_script :: "shifterSpank_config \<Rightarrow> int sys" where
  "extern_script ss =
     do {
       rc \<leftarrow> (case ss_extern_setup ss of None \<Rightarrow> yield 0 | Some script \<Rightarrow> forkAndExecvLogToSlurm [script]);
       c \<leftarrow> syscall (CreateFile (extern_complete (ss_udiConfig ss)));
       yield (if rc = 0 then 0 else 1)
     }"

text \<open>The name of the first file is cut to 1023 bytes.\<close>

definition doExternStepTaskSetup :: "nat \<Rightarrow> shifterSpank_config \<Rightarrow> int sys" where
  "doExternStepTaskSetup extern ss =
     do {
       s \<leftarrow> syscall (Stat (take 1023 (udi (ss_udiConfig ss) @ ''/var/shifterConfig.json'')));
       if r_rc s \<noteq> 0 then yield 1
       else do {
         j \<leftarrow> spank_item ''S_JOB_ID'';
         (case j of
            None \<Rightarrow> yield 1
          | Some jobid \<Rightarrow> do {
              u \<leftarrow> spank_item ''S_JOB_UID'';
              (case u of
                 None \<Rightarrow> yield 1
               | Some uid \<Rightarrow> do { e \<leftarrow> extern_processes extern ss jobid uid; extern_script ss })
            })
       }
     }"

text \<open>A step without a number counts as step 0. A configuration that cannot be read is used all the same.\<close>

definition shifterSpank_task_post_fork :: "machine \<Rightarrow> nat \<Rightarrow> cstring list \<Rightarrow> int run" where
  "shifterSpank_task_post_fork mc extern argv =
     proceed (calling (spank_item ''S_JOB_STEPID'')) (\<lambda>s.
       if (case s of None \<Rightarrow> 0 | Some stepid \<Rightarrow> stepid) \<noteq> extern then yield (Inr 0)
       else proceed (shifterSpank_init mc argv True) (\<lambda>c.
         proceed (or_end Faults c) (\<lambda>ss.
           if ss_extern_cgroup ss \<noteq> 0 \<or> ss_extern_setup ss \<noteq> None
           then calling (doExternStepTaskSetup extern ss) else yield (Inr 0))))"

section \<open>The tasks of a job\<close>

fun await_extern :: "nat \<Rightarrow> UdiRootConfig \<Rightarrow> unit sys" where
  "await_extern 0 config = yield ()"
| "await_extern (Suc tries) config =
     do {
       s \<leftarrow> syscall (Stat (extern_complete config));
       if r_rc s = 0 then yield ()
       else do { w \<leftarrow> syscall (Slurm (Sleep 1)); await_extern tries config }
     }"

text \<open>The groups of the process; None is a failure, a negative number of groups is kept until it is used.\<close>

definition current_groups :: "(nat list option) option sys" where
  "current_groups =
     do {
       n \<leftarrow> syscall (Getgroups 0);
       if r_rc n < 0 then yield (Some None)
       else if r_rc n = 0 then yield (Some (Some []))
       else do {
         g \<leftarrow> syscall (Getgroups (nat (r_rc n)));
         yield (if r_rc g < 0 then None else Some (Some (take (nat (r_rc n)) (r_ids g))))
       }
     }"

text \<open>The result of \<open>seteuid\<close> is compared with 0 in its own way.\<close>

definition failed :: "syscall \<Rightarrow> reply \<Rightarrow> bool" where
  "failed c r \<longleftrightarrow> (case c of Seteuid u \<Rightarrow> r_rc r < 0 | _ \<Rightarrow> r_rc r \<noteq> 0)"

fun each_ok :: "syscall list \<Rightarrow> bool sys" where
  "each_ok [] = yield True"
| "each_ok (c # cs) = do { r \<leftarrow> syscall c; if failed c r then yield False else each_ok cs }"

definition enter_container_task :: "UdiRootConfig \<Rightarrow> bool sys" where
  "enter_container_task config =
     each_ok [Stat (path_buffer (udi config)), Chdir (path_buffer (udi config)), Chroot (udi config), Chdir ''/'']"

text \<open>As the user, and with /tmp as the last resort.\<close>

definition back_to_directory :: "cstring \<Rightarrow> bool sys" where
  "back_to_directory cwd =
     do {
       d \<leftarrow> syscall (Chdir cwd);
       if r_rc d = 0 then yield True
       else do { t \<leftarrow> syscall (Chdir ''/tmp''); yield (r_rc t = 0) }
     }"

text \<open>A number of groups below 0 is refused by \<open>setgroups\<close>.\<close>

definition resume_ids :: "nat \<Rightarrow> nat \<Rightarrow> nat list option \<Rightarrow> bool sys" where
  "resume_ids uid gid groups =
     do {
       ok1 \<leftarrow> each_ok [Seteuid uid, Setegid gid];
       if \<not> ok1 then yield False
       else (case groups of None \<Rightarrow> yield False | Some gs \<Rightarrow> each_ok [Setgroups gs])
     }"

definition visit_as_user :: "nat \<Rightarrow> nat \<Rightarrow> nat \<Rightarrow> cstring \<Rightarrow> nat list \<Rightarrow> nat \<Rightarrow> bool sys" where
  "visit_as_user euid egid juid cwd gids gid =
     do {
       gr \<leftarrow> current_groups;
       (case gr of
          None \<Rightarrow> yield False
        | Some groups \<Rightarrow> do {
            assumed \<leftarrow> each_ok [Setgroups gids, Setegid gid, Seteuid juid];
            if \<not> assumed then yield False
            else do {
              there \<leftarrow> back_to_directory cwd;
              if \<not> there then yield False else resume_ids euid egid groups
            }
          })
     }"

definition container_task :: "nat \<Rightarrow> nat \<Rightarrow> nat \<Rightarrow> UdiRootConfig \<Rightarrow> bool sys" where
  "container_task euid egid juid config =
     do {
       wd \<leftarrow> syscall Getcwd;
       (case r_text wd of
          None \<Rightarrow> yield False
        | Some cwd \<Rightarrow> do {
            entered \<leftarrow> enter_container_task config;
            if \<not> entered then yield False
            else do {
              gs \<leftarrow> wrap_spank_get_supplementary_gids;
              (case gs of
                 None \<Rightarrow> yield False
               | Some gids \<Rightarrow> do {
                   g \<leftarrow> spank_item ''S_JOB_GID'';
                   (case g of None \<Rightarrow> yield False | Some gid \<Rightarrow> visit_as_user euid egid juid cwd gids gid)
                 })
            }
          })
     }"

text \<open>
  The image is read for its side effects only: it may end the process, what it yields is not used. The
  mode for cluster compatibility puts the task into the container; otherwise the task starts outside.
\<close>

definition ccm_task :: "machine \<Rightarrow> nat \<Rightarrow> nat \<Rightarrow> shifterSpank_config \<Rightarrow> int run" where
  "ccm_task mc euid egid ss =
     proceed (outcome_run (snd (parse_ImageData (x_eofbuf mc) (x_readf mc) (ss_imageType ss) (show_str (ss_image ss))
                (ss_udiConfig ss) empty_ImageData))) (\<lambda>img.
     proceed (calling (spank_item ''S_JOB_UID'')) (\<lambda>u.
       (case u of
          None \<Rightarrow> yield (Inr 1)
        | Some juid \<Rightarrow>
            if udi (ss_udiConfig ss) = [] then yield (Inr 0)
            else proceed (calling (container_task euid egid juid (ss_udiConfig ss))) (\<lambda>b.
                   yield (Inr (if b then 0 else 1))))))"

definition shifterSpank_task_init_privileged :: "machine \<Rightarrow> nat \<Rightarrow> shifterSpank_config \<Rightarrow> int run" where
  "shifterSpank_task_init_privileged mc extern ss =
     proceed (calling (syscall Geteuid)) (\<lambda>eu.
     proceed (calling (syscall Getegid)) (\<lambda>eg.
     proceed (calling (spank_item ''S_JOB_STEPID'')) (\<lambda>s.
       if \<not> given (ss_image ss) \<or> \<not> given (ss_imageType ss) then yield (Inr 0)
       else if (case s of None \<Rightarrow> 0 | Some stepid \<Rightarrow> stepid) = extern then yield (Inr 0)
       else proceed (calling (if ss_extern_setup ss \<noteq> None \<or> ss_extern_cgroup ss \<noteq> 0
                              then await_extern 10 (ss_udiConfig ss) else yield ())) (\<lambda>_.
         if \<not> ss_ccmMode ss then yield (Inr 0)
         else ccm_task mc (nat (r_rc eu)) (nat (r_rc eg)) ss))))"

section \<open>The entry points\<close>

text \<open>
  The configuration of the plugin is a variable of the process, None before it is read. A result of 0 is
  success for Slurm, 1 an error.
\<close>

datatype spank_context = S_CTX_LOCAL | S_CTX_REMOTE | S_CTX_ALLOCATOR | S_CTX_OTHER

definition offered :: "shifterSpank_config \<Rightarrow> cstring \<Rightarrow> bool" where
  "offered ss name \<longleftrightarrow>
     \<not> (name = ''ccm'' \<and> ss_ccmEnabled ss = 0) \<and>
     (prefix ''shifter'' name \<longleftrightarrow> ss_useLongOptions ss)"

fun register_options :: "cstring list \<Rightarrow> int \<Rightarrow> int sys" where
  "register_options [] rc = yield rc"
| "register_options (name # names) rc =
     do { r \<leftarrow> syscall (Slurm (SpankRegister name)); register_options names (if r_rc r \<noteq> 0 then 1 else rc) }"

definition slurm_spank_init ::
  "machine \<Rightarrow> spank_context \<Rightarrow> cstring list \<Rightarrow> shifterSpank_config option \<Rightarrow>
   (int \<times> shifterSpank_config option) run" where
  "slurm_spank_init mc ctx argv conf =
     (if ctx = S_CTX_OTHER then yield (Inr (0, conf))
      else proceed (case conf of None \<Rightarrow> shifterSpank_init mc argv False | Some ss \<Rightarrow> yield (Inr (Some ss))) (\<lambda>c.
        proceed (or_end Faults c) (\<lambda>ss.
        proceed (calling (register_options (filter (offered ss) (map fst spank_option_array)) 0)) (\<lambda>rc.
          yield (Inr (rc, Some ss))))))"

definition slurm_spank_init_post_opt ::
  "cstring \<Rightarrow> spank_context \<Rightarrow> shifterSpank_config option \<Rightarrow> (int \<times> shifterSpank_config option) run" where
  "slurm_spank_init_post_opt junk ctx conf =
     (let allocator = (ctx = S_CTX_ALLOCATOR \<or> ctx = S_CTX_LOCAL)
      in proceed (or_end Faults conf) (\<lambda>ss.
         proceed (yield (shifterSpank_validate_input allocator ss)) (\<lambda>ss1.
         proceed (if allocator then shifterSpank_init_allocator_setup junk ss1 else yield (Inr ss1)) (\<lambda>ss2.
         proceed (calling (shifterSpank_init_setup ss2)) (\<lambda>_. yield (Inr (0, Some ss2)))))))"

text \<open>What the calls on a node have in common: the configuration is read and the options are parsed once.\<close>

definition with_config ::
  "machine \<Rightarrow> cstring list \<Rightarrow> shifterSpank_config option \<Rightarrow> (shifterSpank_config \<Rightarrow> (int \<times> shifterSpank_config) run) \<Rightarrow>
   (int \<times> shifterSpank_config option) run" where
  "with_config mc argv conf body =
     proceed (case conf of None \<Rightarrow> shifterSpank_init mc argv True | Some ss \<Rightarrow> yield (Inr (Some ss))) (\<lambda>c.
       (case c of
          None \<Rightarrow> yield (Inr (1, None))
        | Some ss \<Rightarrow>
            proceed (if ss_args_parsed ss then yield (Inr (0, ss)) else wrap_force_arg_parse ss) (\<lambda>(p, ss1).
              if p \<noteq> 0 then yield (Inr (1, Some ss1))
              else proceed (body ss1) (\<lambda>(rc, ss2). yield (Inr (if rc = 0 then 0 else 1, Some ss2))))))"

definition slurm_spank_job_prolog ::
  "machine \<Rightarrow> cstring list \<Rightarrow> cstring list \<Rightarrow> shifterSpank_config option \<Rightarrow>
   (int \<times> shifterSpank_config option) run" where
  "slurm_spank_job_prolog mc environ argv conf = with_config mc argv conf (shifterSpank_job_prolog environ)"

definition slurm_spank_job_epilog ::
  "machine \<Rightarrow> cstring list \<Rightarrow> shifterSpank_config option \<Rightarrow> (int \<times> shifterSpank_config option) run" where
  "slurm_spank_job_epilog mc argv conf =
     with_config mc argv conf (\<lambda>ss. proceed (calling (shifterSpank_job_epilog ss)) (\<lambda>rc. yield (Inr (rc, ss))))"

definition slurm_spank_task_init_privileged ::
  "machine \<Rightarrow> nat \<Rightarrow> cstring list \<Rightarrow> shifterSpank_config option \<Rightarrow> (int \<times> shifterSpank_config option) run" where
  "slurm_spank_task_init_privileged mc extern argv conf =
     with_config mc argv conf
       (\<lambda>ss. proceed (shifterSpank_task_init_privileged mc extern ss) (\<lambda>rc. yield (Inr (rc, ss))))"

definition slurm_spank_task_post_fork :: "machine \<Rightarrow> nat \<Rightarrow> cstring list \<Rightarrow> int run" where
  "slurm_spank_task_post_fork mc extern argv =
     proceed (shifterSpank_task_post_fork mc extern argv) (\<lambda>rc. yield (Inr (if rc = 0 then 0 else 1)))"

end
