(* ===== verification/SlurmFacts.thy ===== *)
theory SlurmFacts
  imports SlurmJob
begin

text \<open>
  What the plugin for Slurm guarantees: the options that it accepts fit together, setupRoot understands the
  arguments that the prolog makes for it, the set-up is started for the owner of the job only, the hosts
  file lists the nodes of the job, and a task that is put into the container keeps its ids.
\<close>

section \<open>Volumes in pieces\<close>

lemma parse_entries_append:
  assumes "CHR '';'' \<notin> set a"
  shows "parse_entries v r (a @ CHR '';'' # b) vm =
    (case parse_entries v r a vm of (x, vm') \<Rightarrow> if x \<noteq> 0 then (x, vm') else parse_entries v r b vm')"
proof -
  have no: "\<forall>c\<in>set a. c \<noteq> CHR '';''" using assms by auto
  have e: "findEndVolumeMapString a = (a, [])" "findEndVolumeMapString (a @ CHR '';'' # b) = (a, CHR '';'' # b)"
    using no by (auto simp: findEndVolumeMapString_def takeWhile_append2 dropWhile_append2)
  have "findEndVolumeMapString (CHR '';'' # b) = ([], CHR '';'' # b)" by (simp add: findEndVolumeMapString_def)
  with e show ?thesis
    by (cases "a = []")
       (simp_all add: parse_entries.simps [of _ _ a] parse_entries.simps [of _ _ "a @ _"]
          parse_entries.simps [of _ _ "CHR '';'' # _"] parse_entries.simps [of _ _ "[]"] split: option.split prod.split)
qed

fun parse_pieces :: "cstring list \<Rightarrow> VolumeMap \<Rightarrow> int \<times> VolumeMap" where
  "parse_pieces [] vm = (0, vm)"
| "parse_pieces (p # ps) vm =
     (case parseVolumeMap (Some p) vm of (x, vm') \<Rightarrow> if x \<noteq> 0 then (x, vm') else parse_pieces ps vm')"

lemma parse_pieces_whole: "parse_pieces (split_on (\<lambda>c. c = CHR '';'') s) vm = parseVolumeMap (Some s) vm"
proof (induction "length s" arbitrary: s vm rule: less_induct)
  case less
  show ?case
  proof (cases "CHR '';'' \<in> set s")
    case False
    then have "split_on (\<lambda>c. c = CHR '';'') s = [s]" by (intro split_on_none) auto
    then show ?thesis by (simp split: prod.split)
  next
    case True
    then obtain a b where s: "s = a @ CHR '';'' # b" "CHR '';'' \<notin> set a" by (meson split_list_first)
    then have "split_on (\<lambda>c. c = CHR '';'') s = a # split_on (\<lambda>c. c = CHR '';'') b" by (auto intro!: split_on_append)
    with less [of b] s show ?thesis
      by (simp add: parseVolumeMap_def parseVolumeMap_with_def parse_entries_append [OF s(2)] split: prod.split)
  qed
qed

section \<open>The arguments of setupRoot\<close>

definition arg_pairs :: "(char \<times> cstring) list \<Rightarrow> cstring list" where
  "arg_pairs ps = concat (map (\<lambda>(c, x). [[CHR ''-'', c], x]) ps)"

definition opt_pairs :: "(char \<times> cstring) list \<Rightarrow> opt list" where
  "opt_pairs ps = map (\<lambda>(c, x). ShortOpt c (Some x)) ps"

lemma getopt_pairs:
  "\<forall>(c, x)\<in>set ps. map_of setup_options c = Some RequiredArg \<Longrightarrow>
     getopt_anywhere setup_options (arg_pairs ps @ r) =
       (case getopt_anywhere setup_options r of (os, others) \<Rightarrow> (opt_pairs ps @ os, others))"
proof (induction ps)
  case (Cons p ps)
  obtain c x where p: "p = (c, x)" by fastforce
  with Cons.prems have c: "map_of setup_options c = Some RequiredArg" by simp
  moreover have "map_of setup_options CHR ''-'' = None" by (simp add: setup_options_def)
  ultimately have "c \<noteq> CHR ''-''" by auto
  then show ?case
    using c Cons by (simp add: p arg_pairs_def opt_pairs_def split: prod.split)
qed (simp add: arg_pairs_def opt_pairs_def split: prod.split)

lemma setup_option_exits: "setup_option op config = Inl e \<Longrightarrow> e = Exits 1"
  by (auto simp: setup_option_def split: opt.splits if_splits prod.splits)

lemma setup_options_exit: "setup_option_list os config = Inl e \<Longrightarrow> e = Exits 1"
  by (induction os arbitrary: config) (auto split: sum.splits dest: setup_option_exits)

lemma setup_options_append:
  "setup_option_list (as @ bs) config =
     (case setup_option_list as config of Inl e \<Rightarrow> Inl e | Inr config1 \<Rightarrow> setup_option_list bs config1)"
  by (induction as arbitrary: config) (auto split: sum.split)

text \<open>What looks like an option takes at least itself away, so that too few arguments are left.\<close>

lemma getopt_anywhere_length: "length (snd (getopt_anywhere table args)) \<le> length args"
proof (induction table args rule: getopt_anywhere.induct)
  case (2 table a rest)
  show ?case
  proof (cases "prefix ''-'' a \<and> a \<noteq> ''-''")
    case True
    obtain os rest' where t: "take_short table (tl a) rest = (os, rest')" by fastforce
    then have "length rest' \<le> length rest" using take_short_rest [of table "tl a" rest] by simp
    with 2(1) [OF _ True t [symmetric]] t True show ?thesis by (auto split: prod.split)
  next
    case False
    with 2(2) show ?thesis by (auto split: prod.split)
  qed
qed simp

lemma getopt_anywhere_option:
  "option_like a \<Longrightarrow> length (snd (getopt_anywhere table (a # rest))) \<le> length rest"
proof -
  assume a: "option_like a"
  obtain os rest' where t: "take_short table (tl a) rest = (os, rest')" by fastforce
  then have "length rest' \<le> length rest" using take_short_rest [of table "tl a" rest] by simp
  with getopt_anywhere_length [of table rest'] a t show ?thesis
    by (auto simp: option_like_def split: prod.split)
qed

lemma getopt_two:
  "\<not> option_like a \<Longrightarrow> \<not> option_like b \<Longrightarrow> getopt_anywhere table [a, b] = ([], [a, b])"
  "option_like a \<or> option_like b \<Longrightarrow> length (snd (getopt_anywhere table [a, b])) \<noteq> 2"
proof -
  show "getopt_anywhere table [a, b] = ([], [a, b])" if "\<not> option_like a" "\<not> option_like b"
    using that by (auto simp: option_like_def)
  show "length (snd (getopt_anywhere table [a, b])) \<noteq> 2" if "option_like a \<or> option_like b"
  proof (cases "option_like a")
    case True
    then show ?thesis using getopt_anywhere_option [of a table "[b]"] by auto
  next
    case False
    with that have "length (snd (getopt_anywhere table [b])) \<le> 0" using getopt_anywhere_option [of b table "[]"] by simp
    with False show ?thesis by (auto simp: option_like_def split: prod.split)
  qed
qed

lemma parse_pairs:
  assumes "\<forall>(c, x)\<in>set ps. map_of setup_options c = Some RequiredArg"
  shows "parse_SetupRootConfig (prog # arg_pairs ps @ [a, b]) config =
    (if option_like a \<or> option_like b then Inl (Exits 1)
     else case setup_option_list (opt_pairs ps) config of
            Inl e \<Rightarrow> Inl e
          | Inr config1 \<Rightarrow>
              Inr (config1\<lparr>sr_imageType := imageDesc_filterString a None,
                           sr_imageIdentifier := imageDesc_filterString b (Some (imageDesc_filterString a None))\<rparr>))"
proof (cases "option_like a \<or> option_like b")
  case True
  obtain os others where g: "getopt_anywhere setup_options [a, b] = (os, others)" by fastforce
  with getopt_two(2) [OF True, of setup_options] have "length others \<noteq> 2" by simp
  then have "(case others of [x, y] \<Rightarrow> f x y | _ \<Rightarrow> z) = z" for f :: "cstring \<Rightarrow> cstring \<Rightarrow> ended + SetupRootConfig" and z
    by (auto split: list.split)
  with True g getopt_pairs [OF assms, of "[a, b]"] show ?thesis
    by (auto simp: parse_SetupRootConfig_def dest: setup_options_exit split: sum.split)
next
  case False
  with getopt_two(1) [of a b setup_options] getopt_pairs [OF assms, of "[a, b]"] show ?thesis
    by (simp add: parse_SetupRootConfig_def Let_def split: sum.split)
qed

definition opt_pair :: "char \<Rightarrow> cstring option \<Rightarrow> (char \<times> cstring) list" where
  "opt_pair c v = (case v of None \<Rightarrow> [] | Some x \<Rightarrow> [(c, x)])"

definition setup_pairs ::
  "nat \<Rightarrow> nat \<Rightarrow> cstring option \<Rightarrow> cstring option \<Rightarrow> cstring option \<Rightarrow> shifterSpank_config \<Rightarrow> (char \<times> cstring) list" where
  "setup_pairs uid gid user key nodes ss =
     (if uid \<noteq> 0 then [(CHR ''U'', show_nat uid)] else []) @
     (if gid \<noteq> 0 then [(CHR ''G'', show_nat gid)] else []) @
     opt_pair CHR ''u'' user @ opt_pair CHR ''s'' key @ opt_pair CHR ''N'' nodes @
     map (Pair CHR ''v'') (volume_pieces (ss_volume ss)) @ opt_pair CHR ''m'' (ss_modules ss)"

lemma pairs_append:
  "arg_pairs (a @ b) = arg_pairs a @ arg_pairs b" "opt_pairs (a @ b) = opt_pairs a @ opt_pairs b"
  "arg_pairs [] = []" "opt_pairs [] = []"
  by (simp_all add: arg_pairs_def opt_pairs_def)

lemma setupRoot_args_pairs:
  "setupRoot_args config uid gid user key nodes ss =
     path_buffer (show_str (udiRootPath config) @ ''/sbin/setupRoot'') #
     arg_pairs (setup_pairs uid gid user key nodes ss) @ [show_str (ss_imageType ss), show_str (ss_image ss)]"
proof -
  have w: "with_opt [CHR ''-'', c] v = arg_pairs (opt_pair c v)" for c v
    by (cases v) (simp_all add: with_opt_def opt_pair_def arg_pairs_def)
  have "concat (map (\<lambda>v. [''-v'', v]) vs) = arg_pairs (map (Pair CHR ''v'') vs)" for vs
    by (simp add: arg_pairs_def o_def)
  then show ?thesis
    unfolding setupRoot_args_def setup_pairs_def pairs_append
    by (simp add: w [symmetric]) (simp add: arg_pairs_def)
qed

lemma setup_pairs_known:
  "\<forall>(c, x)\<in>set (setup_pairs uid gid user key nodes ss). map_of setup_options c = Some RequiredArg"
  by (auto simp: setup_pairs_def setup_options_def opt_pair_def split: option.splits if_splits)

lemma volume_pairs:
  "setup_option_list (opt_pairs (map (Pair CHR ''v'') vs)) config =
     (case parse_pieces vs (sr_volumeMap config) of
        (x, vm) \<Rightarrow> if x \<noteq> 0 then Inl (Exits 1) else Inr (config\<lparr>sr_volumeMap := vm\<rparr>))"
  by (induction vs arbitrary: config) (auto simp: opt_pairs_def setup_option_def split: prod.split)

lemma strtoul_show_nat: "n < 2 ^ 32 \<Longrightarrow> strtoul10 (show_nat n) mod 2 ^ 32 = n"
  using strtol10_show_nat [of "[]" n] by (simp add: strtoul10_def)

text \<open>What the user asked for, as setupRoot sees it.\<close>

definition understood ::
  "nat \<Rightarrow> nat \<Rightarrow> cstring option \<Rightarrow> cstring option \<Rightarrow> cstring option \<Rightarrow> shifterSpank_config \<Rightarrow> VolumeMap \<Rightarrow> SetupRootConfig" where
  "understood uid gid user key nodes ss vm =
     (let type = imageDesc_filterString (show_str (ss_imageType ss)) None
      in \<lparr>sr_sshPubKey = key, sr_user = user, sr_imageType = type,
          sr_imageIdentifier = imageDesc_filterString (show_str (ss_image ss)) (Some type), sr_modules = ss_modules ss,
          sr_uid = uid, sr_gid = gid, sr_minNodeSpec = nodes, sr_volumeMap = vm, sr_verbose = False\<rparr>)"

definition requested_volumes :: "shifterSpank_config \<Rightarrow> int \<times> VolumeMap" where
  "requested_volumes ss =
     (if given (ss_volume ss) then parseVolumeMap (ss_volume ss) empty_VolumeMap else (0, empty_VolumeMap))"

lemma requested_pieces: "parse_pieces (volume_pieces (ss_volume ss)) empty_VolumeMap = requested_volumes ss"
  using parse_pieces_whole
  by (cases "ss_volume ss") (simp_all add: volume_pieces_def requested_volumes_def given_def show_str_def)

lemma setup_pairs_read:
  assumes "uid < 2 ^ 32" "gid < 2 ^ 32" "requested_volumes ss = (0, vm)"
  shows "setup_option_list (opt_pairs (setup_pairs uid gid user key nodes ss)) empty_SetupRootConfig =
      Inr (empty_SetupRootConfig\<lparr>sr_uid := uid, sr_gid := gid, sr_user := user, sr_sshPubKey := key,
        sr_minNodeSpec := nodes, sr_volumeMap := vm, sr_modules := ss_modules ss\<rparr>)"
proof -
  have one: "setup_option_list (opt_pairs [(c, x)]) cf = setup_option (ShortOpt c (Some x)) cf" for c x cf
    by (simp add: opt_pairs_def split: sum.split)
  have maybe: "setup_option_list (opt_pairs (opt_pair c v)) cf =
      (case v of None \<Rightarrow> Inr cf | Some x \<Rightarrow> setup_option (ShortOpt c (Some x)) cf)" for c v cf
    by (cases v) (simp_all add: opt_pair_def pairs_append one)
  have number: "setup_option_list (opt_pairs (if n \<noteq> 0 then [(c, show_nat n)] else [])) cf =
      (if n \<noteq> 0 then setup_option (ShortOpt c (Some (show_nat n))) cf else Inr cf)" for n c cf
    by (simp add: pairs_append one)
  show ?thesis
    unfolding setup_pairs_def pairs_append setup_options_append number maybe volume_pairs
    using assms requested_pieces [of ss]
    by (cases user; cases key; cases nodes; cases "ss_modules ss")
       (simp_all add: setup_option_def empty_SetupRootConfig_def show_str_def strtoul_show_nat [simplified])
qed

text \<open>
  C6. setupRoot reads from the arguments that the prolog makes exactly what the user asked for: the ids,
  the name, the key, the nodes, the modules, and the volumes that the whole text of the request means,
  although they are passed in pieces. An image or an image type that looks like an option never becomes
  one that counts: then setupRoot refuses the request.
\<close>

theorem setupRoot_args_understood:
  assumes "uid < 2 ^ 32" "gid < 2 ^ 32" "requested_volumes ss = (0, vm)"
  shows "parse_SetupRootConfig (setupRoot_args config uid gid user key nodes ss) empty_SetupRootConfig =
    (if option_like (show_str (ss_imageType ss)) \<or> option_like (show_str (ss_image ss)) then Inl (Exits 1)
     else Inr (understood uid gid user key nodes ss vm))"
  unfolding setupRoot_args_pairs parse_pairs [OF setup_pairs_known] setup_pairs_read [OF assms]
  by (simp add: understood_def Let_def empty_SetupRootConfig_def)

definition sample_ss :: shifterSpank_config where
  "sample_ss = empty_spank\<lparr>ss_image := Some ''i'', ss_imageType := Some ''id'',
     ss_volume := Some (join_with '';'' [raw_text ''/a'' ''/b'' [], raw_text ''/c'' ''/d'' [FLAG_READONLY]])\<rparr>"

lemma sample_volumes: "fst (requested_volumes sample_ss) = 0"
proof -
  let ?es = "[(''/a'', ''/b'', None, raw_text ''/a'' ''/b'' []),
     (''/c'', ''/d'', Some [FLAG_READONLY], raw_text ''/c'' ''/d'' [FLAG_READONLY])] :: map_entry list"
  have "\<forall>e\<in>set ?es. user.canonical e"
    by (simp add: user.canonical_def good_safe entry_safe_def user_mapping_def absolute_path_def user_target_def
          user_flag_def flag_plain_def fits_def raw_text_def path_char_ok_def char_class_defs sublist_code prefix_def)
  from user.parse_canonical [OF this empty_VolumeMap_wf(1), of True] show ?thesis
    by (auto simp: requested_volumes_def sample_ss_def given_def raw_text_def parseVolumeMap_def parseVolumeMap_with_def)
qed

lemma setupRoot_args_understood_witness:
  "parse_SetupRootConfig (setupRoot_args empty_UdiRootConfig 1000 100 (Some ''ann'') None None sample_ss) empty_SetupRootConfig =
     Inr (understood 1000 100 (Some ''ann'') None None sample_ss (snd (requested_volumes sample_ss)))"
proof -
  have "requested_volumes sample_ss = (0, snd (requested_volumes sample_ss))"
    using sample_volumes by (simp add: prod_eq_iff)
  from setupRoot_args_understood [OF _ _ this, of 1000 100 empty_UdiRootConfig "Some ''ann''" None None]
  show ?thesis by (simp add: option_like_def sample_ss_def empty_spank_def show_str_def)
qed

section \<open>For whom the set-up is started\<close>

definition starts :: "event \<Rightarrow> bool" where
  "starts e \<longleftrightarrow> (case fst e of Fork args silent \<Rightarrow> True | _ \<Rightarrow> False)"

abbreviation calm :: "'a sys \<Rightarrow> bool" where
  "calm p \<equiv> only (\<lambda>e. \<not> starts e) p"

lemma starts_iff: "starts (c, r) \<longleftrightarrow> (case c of Fork args silent \<Rightarrow> True | _ \<Rightarrow> False)"
  by (simp add: starts_def)

lemma only_actions [only_intros]: "only P (cgroup_actions act ps)" if "\<And>p. only P (act p)"
  using that by (induction ps) (auto intro!: only_intros)

lemma calm_items [only_intros]:
  "calm (spank_item n)" "calm wrap_spank_get_supplementary_gids" "calm (wrap_spank_extra_job_attributes j)"
  "calm (job_user u)" "calm (create_cgroup_dir p)"
  unfolding spank_item_def wrap_spank_get_supplementary_gids_def wrap_spank_extra_job_attributes_def job_user_def create_cgroup_dir_def
  by (auto intro!: only_intros simp: starts_iff split: list.split)

lemma calm_parts [only_intros]:
  "calm read_data_from_job" "calm (job_uid environ)" "calm (job_gid u)"
  "(\<And>p. calm (act p)) \<Longrightarrow> calm (setup_memory_cgroup ss j u act)" "calm (join_cgroup ss j u)"
proof -
  show g: "calm (setup_memory_cgroup ss j u act)" if "\<And>p. calm (act p)" for act :: "cstring \<Rightarrow> int sys"
    using that unfolding setup_memory_cgroup_def by (auto intro!: only_intros simp: starts_iff split: option.split)
  show "calm read_data_from_job" "calm (job_uid environ)" "calm (job_gid u)" "calm (join_cgroup ss j u)"
    unfolding read_data_from_job_def job_uid_def job_gid_def join_cgroup_def
    by (auto intro!: only_intros g simp: starts_iff split: option.split)
qed

lemma calm_find [only_intros]: "calm findSshd"
proof -
  have "calm (scan_proc command ds)" for command ds
    by (induction ds) (auto intro!: only_intros simp: starts_iff Let_def split: option.split)
  then show ?thesis
    unfolding findSshd_def shifter_find_process_by_cmdline_def by (auto intro!: only_intros simp: starts_iff)
qed

text \<open>The owner of the job: the variable that Slurm sets for the prolog, or else the answer of Slurm.\<close>

definition job_owner :: "cstring list \<Rightarrow> event list \<Rightarrow> nat \<Rightarrow> bool" where
  "job_owner environ es uid \<longleftrightarrow>
     (case getvar environ ''SLURM_JOB_UID'' of
        Some s \<Rightarrow> uid = to_u32 (max (- (2 ^ 63)) (min (2 ^ 63 - 1) (fst (strtol10 s))))
      | None \<Rightarrow> (\<exists>r. (Slurm (SpankItem ''S_JOB_UID''), r) \<in> set es \<and> r_rc r = 0 \<and>
                   uid = (case r_ids r of [] \<Rightarrow> 0 | v # vs \<Rightarrow> v mod 2 ^ 32)))"

definition user_of :: "nat \<Rightarrow> cstring option \<Rightarrow> event list \<Rightarrow> bool" where
  "user_of uid name es \<longleftrightarrow>
     (case name of
        None \<Rightarrow> True
      | Some n \<Rightarrow> (\<exists>r pw. (Getpwuid uid, r) \<in> set es \<and> r_rc r = 0 \<and> first_user (\<lambda>pw. True) r = Some pw \<and> pw_name pw = n))"

text \<open>A program that may be started, after what calls: setupRoot, for the owner of the job.\<close>

definition owner_setup :: "cstring list \<Rightarrow> shifterSpank_config \<Rightarrow> event list \<Rightarrow> event \<Rightarrow> bool" where
  "owner_setup environ ss pre e \<longleftrightarrow>
     (case fst e of
        Fork args silent \<Rightarrow>
          args \<noteq> [] \<and> hd args = path_buffer (show_str (udiRootPath (ss_udiConfig ss)) @ ''/sbin/setupRoot'') \<and>
          (case parse_SetupRootConfig args empty_SetupRootConfig of
             Inl end \<Rightarrow> end = Exits 1
           | Inr c \<Rightarrow>
               sr_uid c \<noteq> 0 \<and> job_owner environ pre (sr_uid c) \<and> user_of (sr_uid c) (sr_user c) pre \<and>
               (\<forall>m\<in>set (vm_entries (sr_volumeMap c)). entry_safe user_mapping m))
      | _ \<Rightarrow> True)"

lemma calm_owner: "calm p \<Longrightarrow> guarded (owner_setup environ ss) es p"
  by (erule guarded_only) (auto simp: owner_setup_def starts_def split: syscall.splits)

lemma owner_more: "job_owner environ es uid \<Longrightarrow> job_owner environ (a @ es @ b) uid"
  by (auto simp: job_owner_def split: option.splits)

lemma user_more: "user_of uid name es \<Longrightarrow> user_of uid name (a @ es @ b)"
  by (auto simp: user_of_def split: option.splits)

lemma to_u32_bound: "to_u32 i < 2 ^ 32"
  by (simp add: to_u32_def nat_less_iff)

lemma item_effects:
  "effects (spank_item n) (\<lambda>x es. \<forall>v. x = Some v \<longrightarrow> v < 2 ^ 32 \<and>
     (\<exists>r. (Slurm (SpankItem n), r) \<in> set es \<and> r_rc r = 0 \<and> v = (case r_ids r of [] \<Rightarrow> 0 | v # vs \<Rightarrow> v mod 2 ^ 32)))"
  unfolding spank_item_def
  by (intro effects_call_bind effects_yield allI impI conjI exI)
     (auto split: list.splits if_splits)

lemma job_uid_effects:
  "effects (job_uid environ) (\<lambda>x es. \<forall>uid. x = Some uid \<longrightarrow> uid < 2 ^ 32 \<and> job_owner environ es uid)"
proof (cases "getvar environ ''SLURM_JOB_UID''")
  case None
  then show ?thesis
    unfolding job_uid_def job_owner_def by (simp, intro effects_mono [OF item_effects]) auto
next
  case (Some s)
  then show ?thesis
    unfolding job_uid_def job_owner_def by (auto intro!: effects_yield simp: to_u32_bound [simplified])
qed

lemma job_user_effects:
  "effects (job_user uid) (\<lambda>x es. user_of uid (map_option pw_name (snd x)) es)"
  unfolding job_user_def user_of_def
  by (intro effects_call_bind effects_yield) (auto split: option.split if_splits)

lemma job_gid_effects: "effects (job_gid uid) (\<lambda>x es. \<forall>gid. x = Some gid \<longrightarrow> gid < 2 ^ 32)"
proof -
  have entry: "effects (do { (rc, u) \<leftarrow> job_user uid; yield (map_option (\<lambda>pw. pw_gid pw mod 2 ^ 32) u) })
      (\<lambda>x es. \<forall>gid. x = Some gid \<longrightarrow> gid < 2 ^ 32)"
    by (rule effects_seq [OF job_user_effects]) (auto intro!: effects_yield split: prod.split)
  show ?thesis
    unfolding job_gid_def
  proof (rule effects_seq [OF item_effects], goal_cases)
    case (1 x n)
    then show ?case using entry by (cases x) (auto intro!: effects_yield)
  qed
qed

lemma requested_safe: "requested_volumes ss = (x, vm) \<Longrightarrow> \<forall>m\<in>set (vm_entries vm). entry_safe user_mapping m"
  using user.parse_entries_good [of empty_VolumeMap True "show_str (ss_volume ss)" x vm]
  by (cases "ss_volume ss")
     (auto simp: requested_volumes_def given_def show_str_def parseVolumeMap_def parseVolumeMap_with_def good_safe split: if_splits)

lemma setup_args_owner:
  assumes "uid \<noteq> 0" "uid < 2 ^ 32" "gid < 2 ^ 32" "job_owner environ pre uid" "user_of uid user pre"
    and "fst (requested_volumes ss) = 0"
    and "udiRootPath (ss_udiConfig ss) = udiRootPath (ss_udiConfig ss0)"
  shows "owner_setup environ ss0 pre (Fork (setupRoot_args (ss_udiConfig ss) uid gid user key nodes ss) silent, r)"
proof -
  obtain vm where vm: "requested_volumes ss = (0, vm)" using assms(6) by (metis prod.collapse)
  have parsed: "parse_SetupRootConfig (setupRoot_args (ss_udiConfig ss) uid gid user key nodes ss) empty_SetupRootConfig \<in>
      {Inl (Exits 1), Inr (understood uid gid user key nodes ss vm)}"
    unfolding setupRoot_args_pairs parse_pairs [OF setup_pairs_known] setup_pairs_read [OF assms(2,3) vm]
    by (simp add: understood_def Let_def empty_SetupRootConfig_def)
  have h: "setupRoot_args (ss_udiConfig ss) uid gid user key nodes ss =
      path_buffer (show_str (udiRootPath (ss_udiConfig ss0)) @ ''/sbin/setupRoot'') #
        tl (setupRoot_args (ss_udiConfig ss) uid gid user key nodes ss)"
    unfolding setupRoot_args_pairs using assms(7) by simp
  show ?thesis
    using parsed assms(1,4,5) requested_safe [OF vm] by (subst (asm) h, subst owner_setup_def, subst h) (auto simp: understood_def Let_def)
qed

lemma select_text_keeps: "but_modules (ss_udiConfig (select_modules_text v ss)) = but_modules (ss_udiConfig ss)"
  by (auto simp: select_modules_text_def split: prod.split dest: parse_selected_keeps)

lemma override_keeps: "(\<And>v x. g (f v x) = g x) \<Longrightarrow> g (override environ names f x) = g x"
  by (induction names arbitrary: x) (auto split: option.split)

lemma environment_keeps: "but_modules (ss_udiConfig (prolog_environment environ ss)) = but_modules (ss_udiConfig ss)"
proof -
  have m: "but_modules (ss_udiConfig (override environ names select_modules_text x)) = but_modules (ss_udiConfig x)" for names x
    by (rule override_keeps [where g = "\<lambda>x. but_modules (ss_udiConfig x)"]) (rule select_text_keeps)
  have v: "ss_udiConfig (override environ names (\<lambda>v s. s\<lparr>ss_volume := Some v\<rparr>) x) = ss_udiConfig x" for names x
    by (rule override_keeps [where g = ss_udiConfig]) simp
  have i: "ss_udiConfig (override environ names (\<lambda>v s. s\<lparr>ss_image := Some (imageDesc_filterString v k)\<rparr>) x) = ss_udiConfig x"
    for names x k
    by (rule override_keeps [where g = ss_udiConfig]) simp
  show ?thesis
    unfolding prolog_environment_def Let_def m v i by simp
qed

lemma fork_guarded:
  assumes "\<And>pre r. owner_setup environ ss (es @ pre) (Fork args False, r)"
  shows "guarded (owner_setup environ ss) es (forkAndExecvLogToSlurm args)"
  unfolding forkAndExecvLogToSlurm_def
  using assms [of "[_, _]"]
  by (intro guarded_call guarded_cases guarded_yield) (auto simp: owner_setup_def)

lemma run_guarded:
  assumes "\<And>pre r. owner_setup environ ss0 (es @ pre) (Fork args False, r)"
  shows "guarded (owner_setup environ ss0) es (run_setupRoot ss job uid args)"
proof -
  have fork: "guarded (owner_setup environ ss0) (es @ n) (forkAndExecvLogToSlurm args)" for n
    using fork_guarded [of environ ss0 "es @ n"] assms [of "n @ _"] by simp
  have "calm (join_cgroup ss job uid)" "calm findSshd" "calm (syscall (WriteFile p t))" for p t
    by (auto intro!: only_intros simp: starts_iff)
  then show ?thesis
    unfolding run_setupRoot_def
    by (intro guarded_seq fork guarded_cases guarded_yield calm_owner)
qed

lemma prolog_setup_guarded:
  assumes "uid \<noteq> 0" "uid < 2 ^ 32" "gid < 2 ^ 32" "job_owner environ es uid"
    and "udiRootPath (ss_udiConfig ss) = udiRootPath (ss_udiConfig ss0)"
  shows "guarded (owner_setup environ ss0) es (prolog_setup environ ss job nodes uid gid)"
proof -
  have user: "calm (calling (job_user uid))" by (intro only_intros)
  show ?thesis
    unfolding prolog_setup_def
  proof (intro guarded_proceed [OF calm_owner [OF user] effects_calling [OF job_user_effects]] guarded_pair,
      goal_cases)
    case (1 x n rc pw)
    then have u: "user_of uid (map_option pw_name pw) n" by auto
    show ?case
    proof (cases "fst (requested_volumes ss) = 0")
      case False
      then show ?thesis by (auto simp: requested_volumes_def intro: guarded_yield split: if_splits)
    next
      case vols: True
    have run: "guarded (owner_setup environ ss0) (es @ n) (run_setupRoot ss job uid
        (setupRoot_args (ss_udiConfig ss) uid gid (map_option pw_name pw) key nodes ss))" for key
      by (intro run_guarded setup_args_owner assms vols)
         (use owner_more [OF assms(4), of "[]" "n @ _"] user_more [OF u, of es] in simp_all)
      then have called: "guarded (owner_setup environ ss0) (es @ n) (calling (run_setupRoot ss job uid
          (setupRoot_args (ss_udiConfig ss) uid gid (map_option pw_name pw) key nodes ss)))" for key
        unfolding calling_def by (intro guarded_seq guarded_yield)
      show ?thesis by (intro guarded_cases(1) guarded_yield guarded_proceed [OF called guarded_logs [OF called]])
    qed
  qed
qed

text \<open>
  C5. The only program that the prolog of a job starts is setupRoot, and what it asks of setupRoot is to
  set up the container of the job's owner, who is not root, under the name that the system has for this
  user, with no other volumes than the policy for users allows; otherwise setupRoot refuses the request.
\<close>

theorem prolog_starts_owner_setup: "guarded (owner_setup environ ss) [] (shifterSpank_job_prolog environ ss)"
proof -
  let ?G = "guarded (owner_setup environ ss)"
  have q: "calm (calling (syscall (Stat p)))" "calm (calling (job_uid environ))" "calm (calling (job_gid u))"
    "calm read_data_from_job" for p u
    by (auto intro!: only_intros simp: starts_iff)
  have job: "?G es (prolog_job environ s job nodes)"
    if p: "udiRootPath (ss_udiConfig s) = udiRootPath (ss_udiConfig ss)" for es s job nodes
    unfolding prolog_job_def
  proof (intro guarded_proceed [OF calm_owner [OF q(2)] effects_calling [OF job_uid_effects]], goal_cases)
    case (1 u n)
    show ?case
    proof (cases u)
      case (Some uid)
      with 1 have uid: "uid < 2 ^ 32" "job_owner environ n uid" by auto
      have "?G (es @ n) (proceed (calling (job_gid uid)) (\<lambda>g.
          case g of None \<Rightarrow> yield (Inr (1, s)) | Some gid \<Rightarrow> prolog_setup environ s job nodes uid gid))" if "uid \<noteq> 0"
        by (intro guarded_proceed [OF calm_owner [OF q(3)] effects_calling [OF job_gid_effects]])
           (auto intro!: guarded_yield prolog_setup_guarded that uid p owner_more [OF uid(2), of es, simplified]
             owner_more [OF uid(2), of es, simplified] split: option.split)
      with Some show ?thesis by (auto intro: guarded_yield)
    qed (auto intro: guarded_yield)
  qed
  show ?thesis
    unfolding shifterSpank_job_prolog_def Let_def
    by (intro guarded_cases guarded_yield guarded_proceed [OF calm_owner [OF q(1)] logs_only [OF q(1)]]
          guarded_proceed [OF calm_owner [OF q(4)] logs_only [OF q(4)]] job)
       (use but_modules_fields [OF environment_keeps] in simp)
qed

section \<open>The nodes of a job\<close>

text \<open>
  C35. From the list of hosts that Slurm gives for a job the plugin makes the text from which the hosts file
  of the container is written: it names every host once for each of its tasks, in the order of Slurm.
\<close>

theorem nodes_reach_hosts_file:
  assumes "names \<noteq> []" "\<forall>h\<in>set names. CHR '','' \<notin> set h \<and> CHR ''/'' \<notin> set h" "0 < tasks" "tasks < 2 ^ 31"
  shows "map_option host_lines (node_list (join_with '','' names) (length names) tasks) =
    Some (concat (map (\<lambda>h. concat (replicate tasks (h @ [NL]))) names), True)"
proof -
  have "\<forall>h\<in>set names. \<forall>c\<in>set h. \<not> c = CHR '',''" using assms(2) by auto
  then have "split_on (\<lambda>c. c = CHR '','') (join_with '','' names) = names"
    using split_on_join [OF assms(1), of "\<lambda>c. c = CHR '',''" "CHR '',''"] by simp
  then have "node_list (join_with '','' names) (length names) tasks = Some (host_spec (map (\<lambda>h. (h, tasks)) names))"
    by (simp add: node_list_def host_spec_def o_def)
  with assms host_lines_spec [of "map (\<lambda>h. (h, tasks)) names"] show ?thesis by (auto simp: o_def)
qed

lemma nodes_reach_hosts_file_witness:
  "map_option host_lines (node_list (join_with '','' [''nid1'', ''nid2'']) (length [''nid1'', ''nid2'']) 2) =
     Some (concat (map (\<lambda>h. concat (replicate 2 (h @ [NL]))) [''nid1'', ''nid2'']), True)"
  by (rule nodes_reach_hosts_file) simp_all

section \<open>Options that fit together\<close>

definition ccm_alone :: "shifterSpank_config \<Rightarrow> bool" where
  "ccm_alone ss \<longleftrightarrow>
     (if ss_ccmMode ss then ss_imageType ss \<in> {None, Some ''local''} \<and> ss_image ss \<in> {None, Some ''/''} else True)"

definition volumes_with_image :: "shifterSpank_config \<Rightarrow> bool" where
  "volumes_with_image ss \<longleftrightarrow> (if given (ss_volume ss) then given (ss_image ss) else True)"

text \<open>
  C34. Where a job is submitted, options that do not fit together end the command, and no others do. On the
  nodes of the job nothing ends the process, but what does not fit is dropped, so that in every case the
  options that are used afterwards fit together and no image is the empty text.
\<close>

theorem options_fit_together:
  "case shifterSpank_validate_input allocator ss of
     Inl e \<Rightarrow> allocator \<and> \<not> (ccm_alone ss \<and> volumes_with_image ss) \<and> e \<in> {Exits 1, Exits (-1)}
   | Inr ss' \<Rightarrow> ccm_alone ss' \<and> volumes_with_image ss' \<and> ss_image ss' \<noteq> Some [] \<and> ss_args_parsed ss' \<and>
       ss_imageType ss' = ss_imageType ss \<and>
       (if ccm_alone ss \<and> volumes_with_image ss
        then ss_ccmMode ss' = ss_ccmMode ss \<and> ss_volume ss' = ss_volume ss else \<not> allocator)"
proof -
  have ccm: "drop_ccm allocator ss = (if ccm_alone ss then Inr ss else if allocator then Inl (Exits 1)
      else Inr (ss\<lparr>ss_ccmMode := False\<rparr>))"
    by (auto simp: drop_ccm_def ccm_alone_def)
  have vol: "drop_volume a s = (if volumes_with_image s then Inr s else if a then Inl (Exits (-1))
      else Inr (s\<lparr>ss_volume := None\<rparr>))" for a s
    by (auto simp: drop_volume_def volumes_with_image_def)
  show ?thesis
    unfolding shifterSpank_validate_input_def ccm
    by (cases allocator; cases "ccm_alone ss"; cases "volumes_with_image ss")
       (auto simp: vol ccm_alone_def volumes_with_image_def given_def split: if_splits)
qed

section \<open>The ids of a task\<close>

definition groups_before :: "nat list \<Rightarrow> event list \<Rightarrow> bool" where
  "groups_before gs es \<longleftrightarrow>
     (\<exists>n. (Getgroups 0, n) \<in> set es \<and> 0 \<le> r_rc n \<and>
        (if r_rc n = 0 then gs = []
         else \<exists>g. (Getgroups (nat (r_rc n)), g) \<in> set es \<and> 0 \<le> r_rc g \<and> gs = take (nat (r_rc n)) (r_ids g)))"

text \<open>The last three calls give back the user, the group and the groups that the process had at first.\<close>

definition ends_restored :: "nat \<Rightarrow> nat \<Rightarrow> event list \<Rightarrow> bool" where
  "ends_restored uid gid es \<longleftrightarrow>
     (\<exists>before gs a b c. es = before @ [(Seteuid uid, a), (Setegid gid, b), (Setgroups gs, c)] \<and>
        groups_before gs before \<and> 0 \<le> r_rc a \<and> r_rc b = 0 \<and> r_rc c = 0)"

definition enters :: "event \<Rightarrow> bool" where
  "enters e \<longleftrightarrow> (case fst e of Chroot p \<Rightarrow> True | _ \<Rightarrow> False)"

definition ids_given_back :: "ended + int \<Rightarrow> event list \<Rightarrow> bool" where
  "ids_given_back x es \<longleftrightarrow>
     (if x = Inr 0 \<and> (\<exists>e\<in>set es. enters e)
      then \<exists>eu eg rest. es = (Geteuid, eu) # (Getegid, eg) # rest \<and> ends_restored (nat (r_rc eu)) (nat (r_rc eg)) rest
      else True)"

lemma each_ok_effects:
  "effects (each_ok cs) (\<lambda>x es. x \<longrightarrow> map fst es = cs \<and> (\<forall>e\<in>set es. \<not> failed (fst e) (snd e)))"
proof (induction cs)
  case (Cons c cs)
  show ?case
    unfolding each_ok.simps
    by (rule effects_call_bind, rule effects_cases(1)) (auto intro!: effects_yield effects_mono [OF Cons.IH])
qed (auto intro!: effects_yield)

lemma current_groups_effects:
  "effects current_groups (\<lambda>x es. \<forall>gs. x = Some (Some gs) \<longrightarrow> groups_before gs es)"
  unfolding current_groups_def groups_before_def
  by (intro effects_call_bind effects_cases(1) effects_yield) (auto split: if_splits)

lemma groups_before_more: "groups_before gs es \<Longrightarrow> groups_before gs (a @ es @ b)"
  unfolding groups_before_def by (auto split: if_splits)

lemma ends_restored_more: "ends_restored uid gid es \<Longrightarrow> ends_restored uid gid (a @ es)"
proof -
  assume "ends_restored uid gid es"
  then obtain before gs x y z where e: "es = before @ [(Seteuid uid, x), (Setegid gid, y), (Setgroups gs, z)]"
    "groups_before gs before" "0 \<le> r_rc x" "r_rc y = 0" "r_rc z = 0" unfolding ends_restored_def by blast
  then have "a @ es = (a @ before) @ [(Seteuid uid, x), (Setegid gid, y), (Setgroups gs, z)]" by simp
  with e groups_before_more [OF e(2), of a "[]"] show ?thesis unfolding ends_restored_def append_Nil2 by blast
qed

lemma bind_yield [simp]: "State_Monad.bind (yield x) f = f x"
  by (simp add: yield_def)

lemma resume_ids_effects:
  "effects (resume_ids uid gid groups) (\<lambda>x es. x \<longrightarrow> (\<exists>gs a b c. groups = Some gs \<and>
     es = [(Seteuid uid, a), (Setegid gid, b), (Setgroups gs, c)] \<and> 0 \<le> r_rc a \<and> r_rc b = 0 \<and> r_rc c = 0))"
  unfolding resume_ids_def each_ok.simps
  by (cases groups) (auto intro!: effects_call_bind effects_yield effects_cases(1) simp: failed_def
        split: option.split)

lemma task_logs: "logs (each_ok cs)" "logs (back_to_directory d)" "logs (spank_item n)"
  "logs wrap_spank_get_supplementary_gids" "logs (enter_container_task c)"
proof -
  show e: "logs (each_ok cs)" for cs by (induction cs) (auto intro!: logs_intros)
  show "logs (back_to_directory d)" "logs (spank_item n)" "logs wrap_spank_get_supplementary_gids" "logs (enter_container_task c)"
    unfolding back_to_directory_def spank_item_def wrap_spank_get_supplementary_gids_def enter_container_task_def
    by (auto intro!: logs_intros e)
qed

lemma visit_effects:
  "effects (visit_as_user uid gid juid cwd gids jgid) (\<lambda>x es. x \<longrightarrow> ends_restored uid gid es)"
  unfolding visit_as_user_def
proof (rule effects_seq [OF current_groups_effects], goal_cases)
  case (1 gr n)
  have last: "effects (resume_ids uid gid groups) (\<lambda>x m. x \<longrightarrow> ends_restored uid gid (n @ a @ b @ m))"
    if "gr = Some groups" for groups a b
  proof (rule effects_mono [OF resume_ids_effects], goal_cases)
    case (1 x m)
    show ?case
    proof
      assume x
      with 1 obtain gs p q r where g: "groups = Some gs" "m = [(Seteuid uid, p), (Setegid gid, q), (Setgroups gs, r)]"
        "0 \<le> r_rc p" "r_rc q = 0" "r_rc r = 0" by blast
      then have "groups_before gs n" using that \<open>\<forall>gs. gr = Some (Some gs) \<longrightarrow> groups_before gs n\<close> by simp
      then have "groups_before gs (n @ a @ b)" using groups_before_more [of gs n "[]" "a @ b"] by simp
      moreover have "n @ a @ b @ m = (n @ a @ b) @ [(Seteuid uid, p), (Setegid gid, q), (Setgroups gs, r)]" using g by simp
      ultimately show "ends_restored uid gid (n @ a @ b @ m)" unfolding ends_restored_def using g(3-5) by blast
    qed
  qed
  show ?case
  proof (cases gr)
    case (Some groups)
    show ?thesis
      unfolding Some option.case
      by (intro effects_skip [OF task_logs(1)] effects_cases(1) effects_skip [OF task_logs(2)] effects_yield)
         (auto intro!: last Some)
  qed (auto intro!: effects_yield)
qed

lemma container_task_effects:
  "effects (container_task uid gid juid c) (\<lambda>x es. x \<longrightarrow> ends_restored uid gid es)"
proof -
  have later: "effects (visit_as_user uid gid juid cwd gids jgid) (\<lambda>x m. x \<longrightarrow> ends_restored uid gid (a @ m))" for cwd gids jgid a
    by (rule effects_mono [OF visit_effects]) (simp add: ends_restored_more)
  have group: "effects (do { g \<leftarrow> spank_item ''S_JOB_GID'';
      (case g of None \<Rightarrow> yield False | Some jgid \<Rightarrow> visit_as_user uid gid juid cwd gids jgid) })
      (\<lambda>x m. x \<longrightarrow> ends_restored uid gid (a @ m))" for cwd gids a
  proof (rule effects_skip [OF task_logs(3)], goal_cases)
    case (1 g n)
    show ?case using later [of _ _ _ "a @ n"] by (cases g) (auto intro!: effects_yield)
  qed
  have groups: "effects (do { gs \<leftarrow> wrap_spank_get_supplementary_gids;
      (case gs of None \<Rightarrow> yield False | Some gids \<Rightarrow> do { g \<leftarrow> spank_item ''S_JOB_GID'';
         (case g of None \<Rightarrow> yield False | Some jgid \<Rightarrow> visit_as_user uid gid juid cwd gids jgid) }) })
      (\<lambda>x m. x \<longrightarrow> ends_restored uid gid (a @ m))" for cwd a
  proof (rule effects_skip [OF task_logs(4)], goal_cases)
    case (1 gs n)
    show ?case using group [of _ _ "a @ n"] by (cases gs) (auto intro!: effects_yield)
  qed
  show ?thesis
    unfolding container_task_def
  proof (rule effects_call_bind, goal_cases)
    case (1 wd)
    show ?case
    proof (cases "r_text wd")
      case (Some cwd)
      show ?thesis
        unfolding Some option.case
      proof (rule effects_skip [OF task_logs(5)], rule effects_cases(1), goal_cases)
        case (2 x n)
        then show ?case using groups [of cwd "(Getcwd, wd) # n"] by simp
      qed (auto intro!: effects_yield)
    qed (auto intro!: effects_yield)
  qed
qed

lemma outside [only_intros]:
  "only (\<lambda>e. \<not> enters e) (spank_item n)" "only (\<lambda>e. \<not> enters e) (await_extern k c)"
proof -
  show "only (\<lambda>e. \<not> enters e) (spank_item n)"
    unfolding spank_item_def by (auto intro!: only_intros simp: enters_def)
  show "only (\<lambda>e. \<not> enters e) (await_extern k c)"
    by (induction k) (auto intro!: only_intros simp: enters_def)
qed

text \<open>What a step of the task may do after its ids are known.\<close>

definition task_step :: "nat \<Rightarrow> nat \<Rightarrow> ended + int \<Rightarrow> event list \<Rightarrow> bool" where
  "task_step uid gid x es \<longleftrightarrow>
     (if x = Inr 0 \<and> (\<exists>e\<in>set es. enters e) then ends_restored uid gid es else True)"

lemma task_step_first: "\<forall>e\<in>set n. \<not> enters e \<Longrightarrow> task_step uid gid x es \<Longrightarrow> task_step uid gid x (n @ es)"
  by (auto simp: task_step_def ends_restored_more split: if_splits)

lemma task_step_yield: "effects (yield x) (task_step uid gid)"
  by (rule effects_yield) (simp add: task_step_def)

lemma task_step_proceed:
  assumes "only (\<lambda>e. \<not> enters e) p" "\<And>x. effects (f x) (task_step uid gid)"
  shows "effects (proceed p f) (task_step uid gid)"
proof (rule effects_proceed [OF assms(1)], goal_cases)
  case (1 e n)
  then show ?case by (auto simp: task_step_def)
next
  case (2 x n)
  show ?case by (rule effects_mono [OF assms(2)]) (rule task_step_first [OF 2])
qed

lemma ccm_task_effects: "effects (ccm_task mc uid gid ss) (task_step uid gid)"
proof -
  have enter: "effects (proceed (calling (container_task uid gid juid c)) (\<lambda>b. yield (Inr (if b then 0 else 1)))) (task_step uid gid)"
    for juid c
    by (rule effects_proceed [OF effects_calling [OF container_task_effects]])
       (auto intro!: effects_yield simp: task_step_def)
  have u: "only (\<lambda>e. \<not> enters e) (calling (spank_item n))" for n by (intro only_intros)
  show ?thesis
    unfolding ccm_task_def
    by (intro task_step_proceed [OF only_endings(4)] task_step_proceed [OF u])
       (auto intro!: task_step_yield enter split: option.split)
qed

text \<open>
  C7. When a task has been put into the container successfully, the process has gone back at the end to
  the user, the group and the groups that it had when Slurm called the plugin.
\<close>

theorem task_ids_given_back:
  "effects (shifterSpank_task_init_privileged mc extern ss) ids_given_back"
proof -
  have s: "only (\<lambda>e. \<not> enters e) (calling (spank_item n))" for n by (intro only_intros)
  have w: "only (\<lambda>e. \<not> enters e) (calling (if b then await_extern k c else yield ()))" for b k c
    by (intro only_intros)
  have rest: "effects (proceed (calling (spank_item ''S_JOB_STEPID'')) (\<lambda>s.
       if \<not> given (ss_image ss) \<or> \<not> given (ss_imageType ss) then yield (Inr 0)
       else if (case s of None \<Rightarrow> 0 | Some stepid \<Rightarrow> stepid) = extern then yield (Inr 0)
       else proceed (calling (if ss_extern_setup ss \<noteq> None \<or> ss_extern_cgroup ss \<noteq> 0
                              then await_extern 10 (ss_udiConfig ss) else yield ())) (\<lambda>_.
         if \<not> ss_ccmMode ss then yield (Inr 0) else ccm_task mc uid gid ss))) (task_step uid gid)" for uid gid
    by (intro task_step_proceed [OF s] effects_cases(1) task_step_yield task_step_proceed [OF w] ccm_task_effects)
  show ?thesis
    unfolding shifterSpank_task_init_privileged_def
  proof (intro effects_proceed [OF effects_calling_syscall], goal_cases)
    case (3 eu n eg n')
    then have n: "n = [(Geteuid, eu)]" "n' = [(Getegid, eg)]" by auto
    show ?case
      unfolding n
      by (rule effects_mono [OF rest [of "nat (r_rc eu)" "nat (r_rc eg)"]])
         (auto simp: task_step_def ids_given_back_def enters_def split: if_splits)
  qed auto
qed

end
