(* ===== verification/ImageGateway.thy ===== *)
theory ImageGateway
  imports ShifterMain
begin

text \<open>
  src/src/shifterimg.c, the client of the image gateway: the credentials of the user, the messages to the
  gateway and its answers, and the commands. Three libraries are not part of the repository. What json-c
  makes of a text is the function \<open>jparse\<close> into the values that json-c documents, and how curl escapes a part
  of an URL the function \<open>escape\<close>; both are fields of the record \<open>libraries\<close>. Transfers and the calls of
  munge are calls whose answers the environment gives; the time limit of a transfer is not modelled.
\<close>

datatype json =
    JNull
  | JBool bool
  | JInt int
  | JDouble rat
  | JString cstring
  | JArray "json list"
  | JObject "(cstring \<times> json) list"

text \<open>A text that is no JSON value gives \<open>JNull\<close>, for which json-c has the NULL pointer.\<close>

record libraries =
  l_jparse :: "cstring \<Rightarrow> json"
  l_escape :: "cstring \<Rightarrow> cstring"

section \<open>State\<close>

datatype ImageGwAction =
    MODE_LOOKUP
  | MODE_PULL
  | MODE_IMAGES
  | MODE_LOGIN
  | MODE_PULL_NONBLOCK
  | MODE_EXPIRE
  | MODE_AUTOEXPIRE
  | MODE_INVALID

record LoginCredential =
  lc_system :: cstring
  lc_location :: cstring
  lc_cred :: "cstring option"

record gw_options =
  g_verbose :: bool
  g_mode :: ImageGwAction
  g_type :: "cstring option"
  g_tag :: "cstring option"
  g_rawtype :: "cstring option"
  g_rawtag :: "cstring option"
  g_location :: "cstring option"
  g_loginCredentials :: "LoginCredential list"
  g_allowed_uids :: "int list"
  g_allowed_gids :: "int list"

definition empty_gw_options :: gw_options where
  "empty_gw_options =
     \<lparr>g_verbose = False, g_mode = MODE_LOOKUP, g_type = None, g_tag = None, g_rawtype = None, g_rawtag = None,
      g_location = None, g_loginCredentials = [], g_allowed_uids = [], g_allowed_gids = []\<rparr>"

text \<open>The number of bytes so far is the length of the message.\<close>

record ImageGwState =
  gw_message :: "cstring option"
  gw_isJsonMessage :: bool
  gw_expContentLen :: nat
  gw_messageComplete :: bool

definition empty_ImageGwState :: ImageGwState where
  "empty_ImageGwState =
     \<lparr>gw_message = None, gw_isJsonMessage = False, gw_expContentLen = 0, gw_messageComplete = False\<rparr>"

record ImageGwImageRec =
  im_entryPoint :: "cstring option"
  im_env :: "cstring list option"
  im_workdir :: "cstring option"
  im_groupAcl :: "cstring list option"
  im_identifier :: "cstring option"
  im_type :: "cstring option"
  im_status :: "cstring option"
  im_last_pull :: rat
  im_system :: "cstring option"
  im_tag :: "cstring list option"
  im_userAcl :: "cstring list option"

definition empty_ImageGwImageRec :: ImageGwImageRec where
  "empty_ImageGwImageRec =
     \<lparr>im_entryPoint = None, im_env = None, im_workdir = None, im_groupAcl = None, im_identifier = None,
      im_type = None, im_status = None, im_last_pull = 0, im_system = None, im_tag = None, im_userAcl = None\<rparr>"

section \<open>The answer of the gateway\<close>

definition handleResponseHeader :: "cstring \<Rightarrow> ImageGwState \<Rightarrow> ImageGwState" where
  "handleResponseHeader line gw =
     (case strchr_split (CHR '':'') line of
        None \<Rightarrow> gw
      | Some (a, b) \<Rightarrow>
          let key = shifter_trim a;
              v = shifter_trim b;
              gw1 = (if strcasecmp_eq key ''Content-Type'' \<and> v = ''application/json''
                     then gw\<lparr>gw_isJsonMessage := True\<rparr> else gw)
          in if strcasecmp_eq key ''Content-Length'' then gw1\<lparr>gw_expContentLen := strtoul10 v\<rparr> else gw1)"

text \<open>
  A part of the text, which may hold NUL characters. The result is the number of bytes that were taken; a
  number other than that of the part makes the transfer fail.
\<close>

definition handleResponseData :: "cstring \<Rightarrow> ImageGwState \<Rightarrow> nat \<times> ImageGwState" where
  "handleResponseData part gw =
     (if gw_messageComplete gw then (0, gw)
      else
        let before = (case gw_message gw of None \<Rightarrow> [] | Some m \<Rightarrow> m);
            message = before @ takeWhile (\<lambda>c. c \<noteq> NUL) part;
            gw1 = gw\<lparr>gw_message := Some message\<rparr>
        in if length before + length part \<noteq> length message then (0, gw1)
           else (length part, gw1\<lparr>gw_messageComplete := (length message = gw_expContentLen gw)\<rparr>))"

fun receive :: "cstring list \<Rightarrow> ImageGwState \<Rightarrow> bool \<times> ImageGwState" where
  "receive [] gw = (True, gw)"
| "receive (part # parts) gw =
     (case handleResponseData part gw of
        (n, gw1) \<Rightarrow> if n \<noteq> length part then (False, gw1) else receive parts gw1)"

text \<open>The error of curl for a part that was not taken.\<close>

definition CURLE_WRITE_ERROR :: int where "CURLE_WRITE_ERROR = 23"

definition transfer :: "cstring \<Rightarrow> cstring list \<Rightarrow> cstring option \<Rightarrow> (int \<times> nat \<times> ImageGwState) sys" where
  "transfer url headers payload =
     do {
       r \<leftarrow> syscall (Gateway (HttpRequest url headers payload));
       b \<leftarrow> syscall (Gateway HttpBody);
       (case receive (r_names b) (fold handleResponseHeader (r_names r) empty_ImageGwState) of
          (taken, gw) \<Rightarrow> yield (if taken then r_rc r else CURLE_WRITE_ERROR, r_errno r, gw))
     }"

section \<open>Descriptions of images\<close>

definition jsonParseString :: "json \<Rightarrow> cstring option" where
  "jsonParseString j = (case j of JString s \<Rightarrow> Some s | _ \<Rightarrow> None)"

text \<open>An array without a string gives no array.\<close>

definition jsonParseStringArray :: "json \<Rightarrow> cstring list option" where
  "jsonParseStringArray j =
     (case j of
        JArray vs \<Rightarrow> (case List.map_filter jsonParseString vs of [] \<Rightarrow> None | s # ss \<Rightarrow> Some (s # ss))
      | _ \<Rightarrow> None)"

definition jsonParseDouble :: "json \<Rightarrow> rat" where
  "jsonParseDouble j = (case j of JDouble d \<Rightarrow> d | _ \<Rightarrow> 0)"

definition image_field :: "cstring \<times> json \<Rightarrow> ImageGwImageRec \<Rightarrow> ImageGwImageRec" where
  "image_field kv im =
     (case kv of (key, j) \<Rightarrow>
        let str = jsonParseString j;
            arr = jsonParseStringArray j;
            dbl = jsonParseDouble j;
            has = (\<lambda>name. strcasecmp_eq key name)
        in if has ''entry'' \<and> str \<noteq> None then im\<lparr>im_entryPoint := str\<rparr>
           else if has ''env'' \<and> arr \<noteq> None then im\<lparr>im_env := arr\<rparr>
           else if has ''workdir'' \<and> str \<noteq> None then im\<lparr>im_workdir := str\<rparr>
           else if has ''groupAcl'' \<and> arr \<noteq> None then im\<lparr>im_groupAcl := arr\<rparr>
           else if has ''id'' \<and> str \<noteq> None then im\<lparr>im_identifier := str\<rparr>
           else if has ''itype'' \<and> str \<noteq> None then im\<lparr>im_type := str\<rparr>
           else if has ''last_pull'' \<and> dbl \<noteq> 0 then im\<lparr>im_last_pull := dbl\<rparr>
           else if has ''status'' \<and> str \<noteq> None then im\<lparr>im_status := str\<rparr>
           else if has ''system'' \<and> str \<noteq> None then im\<lparr>im_system := str\<rparr>
           else if has ''tag'' \<and> arr \<noteq> None then im\<lparr>im_tag := arr\<rparr>
           else if has ''tag'' \<and> str \<noteq> None then im\<lparr>im_tag := map_option (\<lambda>s. [s]) str\<rparr>
           else if has ''userAcl'' \<and> arr \<noteq> None then im\<lparr>im_userAcl := arr\<rparr>
           else im)"

text \<open>NULL for NULL; the loop over the fields of a value that is no object reads through a NULL pointer.\<close>

definition parseImageJson :: "json \<Rightarrow> ImageGwImageRec option outcome" where
  "parseImageJson j =
     (case j of
        JNull \<Rightarrow> Ret None
      | JObject kvs \<Rightarrow> Ret (Some (fold image_field kvs empty_ImageGwImageRec))
      | _ \<Rightarrow> OutOfBounds)"

fun parse_image_list :: "json list \<Rightarrow> ImageGwImageRec list outcome" where
  "parse_image_list [] = Ret []"
| "parse_image_list (j # js) =
     (case parseImageJson j of
        Ret im \<Rightarrow> (case parse_image_list js of
                     Ret ims \<Rightarrow> Ret ((case im of None \<Rightarrow> [] | Some i \<Rightarrow> [i]) @ ims)
                   | Abort \<Rightarrow> Abort | OutOfBounds \<Rightarrow> OutOfBounds)
      | Abort \<Rightarrow> Abort | OutOfBounds \<Rightarrow> OutOfBounds)"

definition complete_json :: "ImageGwState \<Rightarrow> bool" where
  "complete_json gw \<longleftrightarrow> gw_isJsonMessage gw \<and> gw_messageComplete gw"

definition parseImagesResponse :: "libraries \<Rightarrow> ImageGwState \<Rightarrow> ImageGwImageRec list outcome" where
  "parseImagesResponse lib gw =
     (if \<not> complete_json gw then Ret []
      else (case l_jparse lib (show_str (gw_message gw)) of
              JObject kvs \<Rightarrow>
                parse_image_list (concat (map (\<lambda>(k, j). case j of
                  JArray js \<Rightarrow> if k = ''list'' \<or> k = ''data'' then js else []
                | _ \<Rightarrow> []) kvs))
            | _ \<Rightarrow> OutOfBounds))"

text \<open>\<open>parseLookupResponse\<close> and \<open>parsePullResponse\<close> have the same text.\<close>

definition parsePullResponse :: "libraries \<Rightarrow> ImageGwState \<Rightarrow> ImageGwImageRec option outcome" where
  "parsePullResponse lib gw =
     (if \<not> complete_json gw then Ret None else parseImageJson (l_jparse lib (show_str (gw_message gw))))"

definition parseLookupResponse :: "libraries \<Rightarrow> ImageGwState \<Rightarrow> ImageGwImageRec option outcome" where
  "parseLookupResponse lib gw = parsePullResponse lib gw"

section \<open>The message to the gateway\<close>

definition escape_char :: "char \<Rightarrow> cstring" where
  "escape_char c =
     (if c = DQUOTE \<or> c = BSLASH then [BSLASH, c]
      else if c = NL then [BSLASH, CHR ''n'']
      else if c = CHR 0x08 then [BSLASH, CHR ''b'']
      else if c = CHR 0x0C then [BSLASH, CHR ''f'']
      else if c = CHR 0x0D then [BSLASH, CHR ''r'']
      else if c = CHR 0x09 then [BSLASH, CHR ''t'']
      else [c])"

definition json_escape_string :: "cstring option \<Rightarrow> cstring option" where
  "json_escape_string input =
     (case input of None \<Rightarrow> None | Some s \<Rightarrow> if s = [] then None else Some (concat (map escape_char s)))"

text \<open>The answers of munge with which a credential may be read: success, expired and replayed.\<close>

definition munge_readable :: "reply \<Rightarrow> bool" where
  "munge_readable r \<longleftrightarrow> r_rc r \<in> {0, 15, 17}"

definition auth_entry :: "cstring \<Rightarrow> cstring option \<Rightarrow> cstring list" where
  "auth_entry location buffer =
     (case (json_escape_string (Some location), json_escape_string buffer) of
        (Some l, Some c) \<Rightarrow> [quoted l @ '':'' @ quoted c]
      | _ \<Rightarrow> [])"

text \<open>munge refuses a credential that is NULL.\<close>

fun auth_entries :: "cstring \<Rightarrow> LoginCredential list \<Rightarrow> cstring list sys" where
  "auth_entries system [] = yield []"
| "auth_entries system (lc # lcs) =
     (if lc_system lc \<noteq> system \<or> lc_cred lc = None then auth_entries system lcs
      else do {
        r \<leftarrow> syscall (Gateway (MungeDecode (the (lc_cred lc))));
        if \<not> munge_readable r then auth_entries system lcs
        else do {
          u \<leftarrow> syscall Getuid;
          if (case r_ids r of [] \<Rightarrow> 0 | uid # uids \<Rightarrow> uid) \<noteq> nat (r_rc u) then auth_entries system lcs
          else do { es \<leftarrow> auth_entries system lcs; yield (auth_entry (lc_location lc) (r_text r) @ es) }
        }
      })"

definition auth_text :: "cstring list \<Rightarrow> cstring" where
  "auth_text es = ''{'' @ quoted ''authorized_locations'' @ '':{'' @ join_with '','' es @ ''}}''"

definition constructAuthMessage :: "gw_options \<Rightarrow> UdiRootConfig \<Rightarrow> cstring option sys" where
  "constructAuthMessage config udiConfig =
     do {
       es \<leftarrow> auth_entries (show_str (systemName udiConfig)) (g_loginCredentials config);
       yield (if es = [] then None else Some (auth_text es))
     }"

definition id_list :: "int list \<Rightarrow> cstring option" where
  "id_list ids = (if ids = [] then None else Some (butlast (concat (map (\<lambda>i. show_int i @ '','') ids))))"

definition payload_field :: "cstring \<Rightarrow> cstring option \<Rightarrow> cstring" where
  "payload_field name v = (case v of None \<Rightarrow> [] | Some ids \<Rightarrow> quoted name @ '':'' @ quoted ids @ '','')"

definition prepare_pull_payload :: "gw_options \<Rightarrow> cstring option" where
  "prepare_pull_payload config =
     (let uids = id_list (g_allowed_uids config);
          gids = id_list (g_allowed_gids config)
      in if uids = None \<and> gids = None then None
         else Some (butlast (''{'' @ payload_field ''allowed_uids'' uids @ payload_field ''allowed_gids'' gids) @ ''}''))"

section \<open>A request and its answer\<close>

definition mode_text :: "ImageGwAction \<Rightarrow> cstring" where
  "mode_text m =
     (case m of
        MODE_LOOKUP \<Rightarrow> ''lookup'' | MODE_PULL \<Rightarrow> ''pull'' | MODE_PULL_NONBLOCK \<Rightarrow> ''pull'' | MODE_IMAGES \<Rightarrow> ''list''
      | MODE_EXPIRE \<Rightarrow> ''expire'' | MODE_AUTOEXPIRE \<Rightarrow> ''autoexpire'' | _ \<Rightarrow> ''invalid'')"

definition request_url :: "cstring \<Rightarrow> gw_options \<Rightarrow> UdiRootConfig \<Rightarrow> cstring" where
  "request_url baseUrl config udiConfig =
     baseUrl @ ''/api/'' @ mode_text (g_mode config) @ ''/'' @ show_str (systemName udiConfig) @ ''/'' @
     (case g_tag config of None \<Rightarrow> [] | Some tag \<Rightarrow> show_str (g_type config) @ ''/'' @ tag @ ''/'')"

definition print_out :: "cstring \<Rightarrow> unit sys" where
  "print_out t = do { r \<leftarrow> syscall (Gateway (Print t)); yield () }"

definition send_request :: "cstring \<Rightarrow> gw_options \<Rightarrow> UdiRootConfig \<Rightarrow> (int \<times> nat \<times> ImageGwState) sys" where
  "send_request baseUrl config udiConfig =
     do {
       message \<leftarrow> constructAuthMessage config udiConfig;
       cred \<leftarrow> syscall (Gateway (MungeEncode (case message of None \<Rightarrow> [] | Some m \<Rightarrow> m)));
       let authstr = ''authentication:'' @ show_str (r_text cred) in
       if g_mode config = MODE_PULL \<or> g_mode config = MODE_PULL_NONBLOCK
       then transfer (request_url baseUrl config udiConfig) [authstr, ''Content-type: application/json'']
              (Some (case prepare_pull_payload config of None \<Rightarrow> [] | Some p \<Rightarrow> p))
       else transfer (request_url baseUrl config udiConfig) [authstr] None
     }"

definition transfer_error :: "int \<Rightarrow> cstring" where
  "transfer_error err =
     (if err = 7 then ''ERROR: failed to contact the image gateway.'' else ''err '' @ show_int err) @ [NL]"

definition lookup_answer :: "libraries \<Rightarrow> ImageGwState \<Rightarrow> ImageGwState option run" where
  "lookup_answer lib gw =
     proceed (outcome_run (parseLookupResponse lib gw)) (\<lambda>im.
     proceed (calling (case im of None \<Rightarrow> yield () | Some i \<Rightarrow> print_out (show_str (im_identifier i) @ [NL]))) (\<lambda>_.
       yield (Inr (Some gw))))"

definition pull_states :: "cstring list" where
  "pull_states = [''MISSING'', ''INIT'', ''PENDING'', ''PULLING'', ''EXAMINATION'', ''CONVERSION'', ''TRANSFER'']"

definition pull_line :: "gw_options \<Rightarrow> cstring \<Rightarrow> ImageGwImageRec \<Rightarrow> cstring" where
  "pull_line config time im =
     (if g_verbose config then [] else [CHR 0x0D, CHR 0x1B] @ ''[2K'') @ time @ '' Pulling Image: '' @
     show_str (g_rawtype config) @ '':'' @ show_str (g_rawtag config) @ '', status: '' @ show_str (im_status im) @
     (if g_verbose config then [NL] else [])"

text \<open>None once the image is no longer on its way; an image without a status is compared through NULL.\<close>

definition progress_answer :: "libraries \<Rightarrow> gw_options \<Rightarrow> ImageGwState \<Rightarrow> ImageGwState option run" where
  "progress_answer lib config gw =
     proceed (calling (syscall (Gateway (LocalTime None)))) (\<lambda>t.
     proceed (outcome_run (parsePullResponse lib gw)) (\<lambda>im.
       (case im of
          None \<Rightarrow> yield (Inr None)
        | Some i \<Rightarrow>
            proceed (calling (print_out (pull_line config (show_str (r_text t)) i))) (\<lambda>_.
            proceed (or_end Faults (im_status i)) (\<lambda>status.
              if status \<in> set pull_states then yield (Inr (Some gw))
              else proceed (calling (print_out [NL])) (\<lambda>_. yield (Inr None)))))))"

section \<open>The list of images\<close>

text \<open>An image for each of its tags, with the tag as the only one.\<close>

definition image_per_tag :: "ImageGwImageRec \<Rightarrow> ImageGwImageRec list" where
  "image_per_tag im = map (\<lambda>tag. im\<lparr>im_tag := Some [tag]\<rparr>) (case im_tag im of None \<Rightarrow> [] | Some ts \<Rightarrow> ts)"

definition imgCompare :: "ImageGwImageRec \<Rightarrow> ImageGwImageRec \<Rightarrow> int" where
  "imgCompare a b =
     (case (im_tag a, im_tag b) of
        (None, None) \<Rightarrow> 0
      | (None, Some ts) \<Rightarrow> 1
      | (Some ts, None) \<Rightarrow> -1
      | (Some ts, Some us) \<Rightarrow>
          (case (ts, us) of
             ([], []) \<Rightarrow> 0
           | ([], u # us') \<Rightarrow> 1
           | (t # ts', []) \<Rightarrow> -1
           | (t # ts', u # us') \<Rightarrow> strcmp t u))"

text \<open>\<open>qsort\<close>, which keeps the order of equal images here.\<close>

fun insert_image :: "ImageGwImageRec \<Rightarrow> ImageGwImageRec list \<Rightarrow> ImageGwImageRec list" where
  "insert_image x [] = [x]"
| "insert_image x (y # ys) = (if imgCompare x y \<le> 0 then x # y # ys else y # insert_image x ys)"

definition sort_images :: "ImageGwImageRec list \<Rightarrow> ImageGwImageRec list" where
  "sort_images xs = foldr insert_image xs []"

definition pad :: "nat \<Rightarrow> cstring \<Rightarrow> cstring" where
  "pad n s = s @ replicate (n - length s) (CHR '' '')"

definition image_line :: "cstring \<Rightarrow> ImageGwImageRec \<Rightarrow> cstring" where
  "image_line time im =
     pad 10 (show_str (im_system im)) @ '' '' @ pad 10 (show_str (im_type im)) @ '' '' @ pad 8 (show_str (im_status im)) @
     '' '' @ take 10 (show_str (im_identifier im)) @ ''   '' @ time @ '' '' @
     pad 30 (case im_tag im of Some (tag # tags) \<Rightarrow> tag | _ \<Rightarrow> []) @ [NL]"

text \<open>A time in seconds; the conversion from double cuts towards 0.\<close>

definition whole_seconds :: "rat \<Rightarrow> int" where
  "whole_seconds d = (if d < 0 then - \<lfloor>- d\<rfloor> else \<lfloor>d\<rfloor>)"

fun print_images :: "ImageGwImageRec list \<Rightarrow> unit sys" where
  "print_images [] = yield ()"
| "print_images (e # es) =
     do {
       t \<leftarrow> syscall (Gateway (LocalTime (Some (whole_seconds (im_last_pull e)))));
       p \<leftarrow> print_out (image_line (show_str (r_text t)) e);
       print_images es
     }"

text \<open>Images without a single tag count as a failure, an answer without images does not.\<close>

definition images_answer :: "libraries \<Rightarrow> ImageGwState \<Rightarrow> ImageGwState option run" where
  "images_answer lib gw =
     proceed (outcome_run (parseImagesResponse lib gw)) (\<lambda>ims.
       if ims = [] then yield (Inr (Some gw))
       else
         let tagged = concat (map image_per_tag ims)
         in if tagged = [] then yield (Inr None)
            else proceed (calling (print_images (sort_images tagged))) (\<lambda>_. yield (Inr (Some gw))))"

section \<open>Queries\<close>

text \<open>
  A query that is no pull, or one look at a pull. None is NULL: the transfer failed, the status is not 200
  or the answer was not what the mode needs. An answer that did not come to its announced end is not looked
  at, but counts as a success.
\<close>

definition verbose_text :: "gw_options \<Rightarrow> cstring \<Rightarrow> unit sys" where
  "verbose_text config t = (if g_verbose config then print_out t else yield ())"

definition query_once ::
  "(gw_options \<Rightarrow> ImageGwState \<Rightarrow> ImageGwState option run) \<Rightarrow> cstring \<Rightarrow> gw_options \<Rightarrow> UdiRootConfig \<Rightarrow>
   ImageGwState option run" where
  "query_once answer baseUrl config udiConfig =
     proceed (calling (send_request baseUrl config udiConfig)) (\<lambda>(err, http_code, gw).
       if err \<noteq> 0 then proceed (calling (print_out (transfer_error err))) (\<lambda>_. yield (Inr None))
       else if http_code \<noteq> 200 then
         proceed (calling (verbose_text config
             (''Got response: '' @ show_nat http_code @ [NL] @ ''Message: '' @ show_str (gw_message gw) @ [NL])))
           (\<lambda>_. yield (Inr None))
       else if \<not> gw_messageComplete gw then yield (Inr (Some gw))
       else proceed (calling (verbose_text config (''Message: '' @ show_str (gw_message gw) @ [NL]))) (\<lambda>_. answer config gw))"

definition plain_answer :: "libraries \<Rightarrow> gw_options \<Rightarrow> ImageGwState \<Rightarrow> ImageGwState option run" where
  "plain_answer lib config gw =
     (case g_mode config of
        MODE_LOOKUP \<Rightarrow> lookup_answer lib gw
      | MODE_PULL_NONBLOCK \<Rightarrow> progress_answer lib config gw
      | MODE_IMAGES \<Rightarrow> images_answer lib gw
      | _ \<Rightarrow> yield (Inr (Some gw)))"

text \<open>The progress of a pull is asked for until there is none; a loop that does not end uses up its fuel.\<close>

fun poll_pull :: "nat \<Rightarrow> libraries \<Rightarrow> cstring \<Rightarrow> gw_options \<Rightarrow> UdiRootConfig \<Rightarrow> unit run" where
  "poll_pull 0 lib baseUrl config udiConfig = yield (Inl Faults)"
| "poll_pull (Suc fuel) lib baseUrl config udiConfig =
     proceed (calling (syscall (Usleep 500000))) (\<lambda>_.
     proceed (query_once (plain_answer lib) baseUrl (config\<lparr>g_mode := MODE_PULL_NONBLOCK\<rparr>) udiConfig) (\<lambda>gw.
       (case gw of None \<Rightarrow> yield (Inr ()) | Some g \<Rightarrow> poll_pull fuel lib baseUrl config udiConfig)))"

definition pull_answer ::
  "nat \<Rightarrow> libraries \<Rightarrow> cstring \<Rightarrow> UdiRootConfig \<Rightarrow> gw_options \<Rightarrow> ImageGwState \<Rightarrow> ImageGwState option run" where
  "pull_answer fuel lib baseUrl udiConfig config gw =
     proceed (outcome_run (parsePullResponse lib gw)) (\<lambda>im.
       (case im of
          None \<Rightarrow> yield (Inr (Some gw))
        | Some i \<Rightarrow> proceed (poll_pull fuel lib baseUrl config udiConfig) (\<lambda>_. yield (Inr (Some gw)))))"

definition queryGateway ::
  "nat \<Rightarrow> libraries \<Rightarrow> cstring \<Rightarrow> gw_options \<Rightarrow> UdiRootConfig \<Rightarrow> ImageGwState option run" where
  "queryGateway fuel lib baseUrl config udiConfig =
     query_once (if g_mode config = MODE_PULL then pull_answer fuel lib baseUrl udiConfig else plain_answer lib)
       baseUrl config udiConfig"

section \<open>Credentials\<close>

definition assignLoginCredential :: "cstring \<Rightarrow> cstring \<Rightarrow> LoginCredential list \<Rightarrow> int \<times> LoginCredential list" where
  "assignLoginCredential key v lcs =
     (case strchr_split (CHR '':'') key of
        None \<Rightarrow> (0, lcs)
      | Some (system, location) \<Rightarrow>
          (0, lcs @ [\<lparr>lc_system = system, lc_location = location, lc_cred = Some v\<rparr>]))"

text \<open>A line of at most 1023 bytes without its newline; None at the end of the input.\<close>

definition tty_line :: "cstring option sys" where
  "tty_line =
     do {
       l \<leftarrow> syscall (Gateway TtyLine);
       yield (map_option (\<lambda>t. let b = take 1023 t in if b \<noteq> [] \<and> last b = NL then butlast b else b) (r_text l))
     }"

text \<open>The prompts and the handlers that put the terminal back after a signal are left out.\<close>

definition getttycred :: "(cstring option \<times> cstring option) sys" where
  "getttycred =
     do {
       f \<leftarrow> syscall (Gateway OpenTty);
       username \<leftarrow> tty_line;
       e \<leftarrow> syscall (Gateway (TtyEcho False));
       password \<leftarrow> tty_line;
       e2 \<leftarrow> syscall (Gateway (TtyEcho True));
       yield (username, password)
     }"

fun put_credential :: "cstring \<Rightarrow> cstring \<Rightarrow> cstring option \<Rightarrow> LoginCredential list \<Rightarrow> LoginCredential list" where
  "put_credential system location cred [] = [\<lparr>lc_system = system, lc_location = location, lc_cred = cred\<rparr>]"
| "put_credential system location cred (lc # lcs) =
     (if lc_system lc = system \<and> lc_location lc = location then lc\<lparr>lc_cred := cred\<rparr> # lcs
      else lc # put_credential system location cred lcs)"

definition credential_line :: "LoginCredential \<Rightarrow> cstring" where
  "credential_line lc = lc_system lc @ '':'' @ lc_location lc @ ''='' @ show_str (lc_cred lc) @ [NL]"

definition credential_file :: "passwd \<Rightarrow> cstring" where
  "credential_file pwd = pw_dir pwd @ ''/.udiRoot/.cred''"

definition write_credentials :: "passwd \<Rightarrow> LoginCredential list \<Rightarrow> int sys" where
  "write_credentials pwd lcs =
     do {
       d \<leftarrow> syscall (Mkdir (pw_dir pwd @ ''/.udiRoot'') 448);
       if r_rc d \<noteq> 0 \<and> r_errno d \<noteq> EEXIST then yield 1
       else do {
         f \<leftarrow> syscall (CreateFile (credential_file pwd));
         if r_rc f \<noteq> 0 then yield 1
         else do {
           w \<leftarrow> syscall (AppendFile (credential_file pwd) (concat (map credential_line lcs)));
           c \<leftarrow> syscall (Chmod (credential_file pwd) 384);
           yield (if r_rc c \<noteq> 0 then 1 else 0)
         }
       }
     }"

text \<open>What cannot be read from the terminal is reported and printed as NULL; a user without an entry has no file.\<close>

definition doLogin :: "gw_options \<Rightarrow> UdiRootConfig \<Rightarrow> int sys" where
  "doLogin config udiConfig =
     do {
       (username, password) \<leftarrow> getttycred;
       munge \<leftarrow> syscall (Gateway (MungeEncode (show_str username @ '':'' @ show_str password)));
       let lcs = put_credential (show_str (systemName udiConfig))
                   (case g_location config of None \<Rightarrow> ''default'' | Some l \<Rightarrow> l) (r_text munge) (g_loginCredentials config) in
       do {
         u \<leftarrow> syscall Getuid;
         p \<leftarrow> syscall (Getpwuid (nat (r_rc u)));
         (case first_user (\<lambda>pw. True) p of None \<Rightarrow> yield 0 | Some pwd \<Rightarrow> write_credentials pwd lcs)
       }
     }"

section \<open>The command line\<close>

datatype AclCredential = USER_ACL | GROUP_ACL

definition lookup_user_id :: "cstring \<Rightarrow> int sys" where
  "lookup_user_id str =
     do {
       r \<leftarrow> syscall (Getpwnam str);
       yield (case first_user (\<lambda>pw. True) r of None \<Rightarrow> -1 | Some pw \<Rightarrow> to_i32 (int (pw_uid pw)))
     }"

definition lookup_group_id :: "cstring \<Rightarrow> int sys" where
  "lookup_group_id str =
     do {
       r \<leftarrow> syscall (Gateway (Getgrnam str));
       yield (if r_rc r \<noteq> 0 then -1 else case r_ids r of [] \<Rightarrow> -1 | gid # gids \<Rightarrow> to_i32 (int gid))
     }"

text \<open>The pieces between commas; the loop does not come to an empty piece at the end.\<close>

definition acl_pieces :: "cstring \<Rightarrow> cstring list" where
  "acl_pieces arg =
     (let ps = split_on (\<lambda>c. c = CHR '','') arg in map shifter_trim (if last ps = [] then butlast ps else ps))"

fun acl_ids :: "(cstring \<Rightarrow> int sys) \<Rightarrow> cstring list \<Rightarrow> int list sys" where
  "acl_ids lookup [] = yield []"
| "acl_ids lookup (p # ps) =
     do {
       v \<leftarrow> lookup p;
       let idval = (if v < 0 then strtol_int p else v) in
       do { ids \<leftarrow> acl_ids lookup ps; yield (if idval > 0 then idval # ids else ids) }
     }"

definition add_allowed :: "AclCredential \<Rightarrow> cstring \<Rightarrow> gw_options \<Rightarrow> gw_options sys" where
  "add_allowed aclType arg config =
     (case aclType of
        USER_ACL \<Rightarrow> do {
          ids \<leftarrow> acl_ids lookup_user_id (acl_pieces arg);
          yield (config\<lparr>g_allowed_uids := g_allowed_uids config @ ids\<rparr>)
        }
      | GROUP_ACL \<Rightarrow> do {
          ids \<leftarrow> acl_ids lookup_group_id (acl_pieces arg);
          yield (config\<lparr>g_allowed_gids := g_allowed_gids config @ ids\<rparr>)
        })"

definition gw_short_options :: "(char \<times> has_arg) list" where
  "gw_short_options = [(CHR ''h'', NoArg), (CHR ''v'', NoArg)]"

definition gw_long_options :: "(cstring \<times> has_arg \<times> char option) list" where
  "gw_long_options =
     [(''help'', NoArg, Some (CHR ''h'')), (''verbose'', NoArg, Some (CHR ''v'')),
      (''user'', RequiredArg, Some (CHR ''u'')), (''group'', RequiredArg, Some (CHR ''g''))]"

fun gw_apply_opts :: "opt list \<Rightarrow> gw_options \<Rightarrow> gw_options run" where
  "gw_apply_opts [] config = yield (Inr config)"
| "gw_apply_opts (ShortOpt c arg # os) config =
     (if c = CHR ''h'' then yield (Inl (Exits 0))
      else if c = CHR ''v'' then gw_apply_opts os (config\<lparr>g_verbose := True\<rparr>)
      else if c = CHR ''u'' then proceed (calling (add_allowed USER_ACL (show_str arg) config)) (gw_apply_opts os)
      else if c = CHR ''g'' then proceed (calling (add_allowed GROUP_ACL (show_str arg) config)) (gw_apply_opts os)
      else gw_apply_opts os config)"
| "gw_apply_opts (opt # os) config = yield (Inl (Exits 1))"

definition read_mode :: "cstring \<Rightarrow> ImageGwAction" where
  "read_mode a =
     (if a = ''lookup'' then MODE_LOOKUP else if a = ''pull'' then MODE_PULL
      else if a = ''pullnb'' then MODE_PULL_NONBLOCK else if a = ''images'' then MODE_IMAGES
      else if a = ''login'' then MODE_LOGIN else if a = ''expire'' then MODE_EXPIRE
      else if a = ''autoexpire'' then MODE_AUTOEXPIRE else MODE_INVALID)"

text \<open>The argument behind the mode: a location for login, an image for everything else.\<close>

definition mode_argument :: "libraries \<Rightarrow> UdiRootConfig \<Rightarrow> cstring list \<Rightarrow> gw_options \<Rightarrow> ended + gw_options" where
  "mode_argument lib udiConfig args config =
     (case args of
        [] \<Rightarrow> Inr config
      | a # as \<Rightarrow>
          if g_mode config = MODE_LOGIN then Inr (config\<lparr>g_location := Some a\<rparr>)
          else (case parse_ImageDescriptor (Some a) udiConfig of
                  None \<Rightarrow> Inl (Exits 1)
                | Some (type, tag) \<Rightarrow>
                    Inr (config\<lparr>g_type := Some (l_escape lib type), g_rawtype := Some type,
                                g_tag := Some (l_escape lib tag), g_rawtag := Some tag\<rparr>)))"

definition load_credentials :: "(cstring \<Rightarrow> cstring) \<Rightarrow> LoginCredential list \<Rightarrow> LoginCredential list sys" where
  "load_credentials eofbuf lcs =
     do {
       u \<leftarrow> syscall Getuid;
       p \<leftarrow> syscall (Getpwuid (nat (r_rc u)));
       (case first_user (\<lambda>pw. True) p of
          None \<Rightarrow> yield lcs
        | Some pwd \<Rightarrow> do {
            a \<leftarrow> syscall (Access (credential_file pwd) 0);
            if r_rc a \<noteq> 0 then yield lcs
            else do {
              f \<leftarrow> syscall (ReadFile (credential_file pwd));
              yield (snd (shifter_parseConfig eofbuf (r_text f) (CHR ''='') lcs assignLoginCredential))
            }
          })
     }"

definition gw_parse_options ::
  "machine \<Rightarrow> libraries \<Rightarrow> cstring list \<Rightarrow> UdiRootConfig \<Rightarrow> gw_options \<Rightarrow> gw_options run" where
  "gw_parse_options mc lib argv udiConfig config =
     (case getopt_long gw_short_options gw_long_options (tl argv) of
        (os, remaining) \<Rightarrow>
          proceed (calling (syscall (Setenv ''POSIXLY_CORRECT'' ''1''))) (\<lambda>_.
          proceed (gw_apply_opts os config) (\<lambda>config1.
          proceed (or_end (Exits 1) (case remaining of [] \<Rightarrow> None | m # args \<Rightarrow> Some (m, args))) (\<lambda>(m, args).
          proceed (require (Exits 1) (read_mode m \<noteq> MODE_INVALID)) (\<lambda>_.
          proceed (yield (mode_argument lib udiConfig args (config1\<lparr>g_mode := read_mode m\<rparr>))) (\<lambda>config2.
            let config3 = (if g_location config2 = None then config2\<lparr>g_location := Some ''default''\<rparr> else config2)
            in proceed (calling (load_credentials (x_eofbuf mc) (g_loginCredentials config3))) (\<lambda>lcs.
                 yield (Inr (config3\<lparr>g_loginCredentials := lcs\<rparr>)))))))))"

section \<open>The main program of the client\<close>

text \<open>The gateways in random order: \<open>k\<close> rounds, the next of which decides on the place \<open>i\<close>.\<close>

fun shuffle_from :: "nat \<Rightarrow> nat \<Rightarrow> cstring list \<Rightarrow> cstring list sys" where
  "shuffle_from 0 i gws = yield gws"
| "shuffle_from (Suc k) i gws =
     do {
       r \<leftarrow> syscall (Gateway Rand);
       let j = i + nat (r_rc r) mod (length gws - i) in
       shuffle_from k (Suc i) (gws[i := gws ! j, j := gws ! i])
     }"

definition shuffle_gateways :: "cstring list \<Rightarrow> cstring list sys" where
  "shuffle_gateways gws = shuffle_from (length gws - 1) 0 gws"

fun try_gateways :: "nat \<Rightarrow> libraries \<Rightarrow> gw_options \<Rightarrow> UdiRootConfig \<Rightarrow> cstring list \<Rightarrow> int run" where
  "try_gateways fuel lib config udiConfig [] = yield (Inr 1)"
| "try_gateways fuel lib config udiConfig (gw # gws) =
     proceed (queryGateway fuel lib gw config udiConfig) (\<lambda>r.
       (case r of None \<Rightarrow> try_gateways fuel lib config udiConfig gws | Some st \<Rightarrow> yield (Inr 0)))"

definition shifterimg_main :: "machine \<Rightarrow> nat \<Rightarrow> libraries \<Rightarrow> cstring list \<Rightarrow> int run" where
  "shifterimg_main mc fuel lib argv =
     (case parse_UdiRootConfig (x_eofbuf mc) (x_stat mc) (x_readf mc) (x_configFile mc) empty_UdiRootConfig
             UDIROOT_VAL_ALL of
        (rc, udiConfig) \<Rightarrow>
          proceed (require (Exits 1) (rc = 0)) (\<lambda>_.
          proceed (gw_parse_options mc lib argv udiConfig empty_gw_options) (\<lambda>config.
            if g_mode config = MODE_LOGIN then calling (doLogin config udiConfig)
            else proceed (calling (syscall Getpid)) (\<lambda>_.
                 proceed (calling (shuffle_gateways (sa_items (gwUrl udiConfig)))) (\<lambda>gws.
                   try_gateways fuel lib config udiConfig gws)))))"

end
