(* ===== verification/GatewayFacts.thy ===== *)
theory GatewayFacts
  imports ImageGateway
begin

text \<open>
  What the client of the image gateway guarantees: the message with the credentials has the form of a JSON
  object whatever the credentials hold, and holds only credentials of the user; only whole answers are
  looked at; saved credentials are read back; a request has a known mode and a known image type.
\<close>

section \<open>Reading the message\<close>

text \<open>The meaning of a JSON text in as far as the message uses it: strings and objects of strings.\<close>

definition unescape :: "char \<Rightarrow> char" where
  "unescape c =
     (if c = CHR ''n'' then NL else if c = CHR ''b'' then CHR 0x08 else if c = CHR ''f'' then CHR 0x0C
      else if c = CHR ''r'' then CHR 0x0D else if c = CHR ''t'' then CHR 0x09 else c)"

fun read_string :: "cstring \<Rightarrow> (cstring \<times> cstring) option" where
  "read_string [] = None"
| "read_string (c # s) =
     (if c = DQUOTE then Some ([], s)
      else if c = BSLASH then
        (case s of [] \<Rightarrow> None | e # s' \<Rightarrow> map_option (apfst (Cons (unescape e))) (read_string s'))
      else map_option (apfst (Cons c)) (read_string s))"

text \<open>A member of an object: a string in quotes, a colon and another string in quotes.\<close>

definition read_quoted :: "cstring \<Rightarrow> (cstring \<times> cstring) option" where
  "read_quoted s = (case s of [] \<Rightarrow> None | c # r \<Rightarrow> if c = DQUOTE then read_string r else None)"

definition read_member :: "cstring \<Rightarrow> ((cstring \<times> cstring) \<times> cstring) option" where
  "read_member s =
     (case read_quoted s of
        Some (k, c # r) \<Rightarrow>
          if c = CHR '':'' then map_option (apfst (Pair k)) (read_quoted r) else None
      | _ \<Rightarrow> None)"

lemma read_string_length: "read_string s = Some (t, r) \<Longrightarrow> length r < length s"
  by (induction s arbitrary: t rule: read_string.induct) (auto split: if_splits list.splits, fastforce+)

lemma read_quoted_length: "read_quoted s = Some (t, r) \<Longrightarrow> length r < length s"
  by (auto simp: read_quoted_def split: list.splits if_splits dest: read_string_length)

lemma read_member_length: "read_member s = Some (p, r) \<Longrightarrow> length r < length s"
  by (auto simp: read_member_def split: option.splits list.splits if_splits dest!: read_quoted_length)

text \<open>Members up to a closing brace, which is left.\<close>

function read_members :: "cstring \<Rightarrow> ((cstring \<times> cstring) list \<times> cstring) option" where
  "read_members s =
     (case read_member s of
        None \<Rightarrow> None
      | Some (p, r) \<Rightarrow>
          (case r of
             [] \<Rightarrow> None
           | c # r' \<Rightarrow>
               if c = CHR '','' then map_option (apfst (Cons p)) (read_members r')
               else if c = CHR ''}'' then Some ([p], r) else None))"
  by pat_completeness auto
termination
  by (relation "measure length") (auto dest!: read_member_length)

declare read_members.simps [simp del]

definition message_head :: cstring where
  "message_head = ''{'' @ quoted ''authorized_locations'' @ '':{''"

definition read_message :: "cstring \<Rightarrow> (cstring \<times> cstring) list option" where
  "read_message m =
     (if prefix message_head m
      then (case read_members (drop (length message_head) m) of
              Some (ps, r) \<Rightarrow> if r = ''}}'' then Some ps else None
            | None \<Rightarrow> None)
      else None)"

lemma read_escaped: "read_string (concat (map escape_char t) @ DQUOTE # r) = Some (t, r)"
proof (induction t)
  case (Cons c t)
  then show ?case
    by (simp add: escape_char_def unescape_def special_char_defs)
qed simp

lemma read_quoted_escaped: "read_quoted (quoted (concat (map escape_char t)) @ r) = Some (t, r)"
  by (simp add: read_quoted_def quoted_def read_escaped)

definition member_text :: "cstring \<times> cstring \<Rightarrow> cstring" where
  "member_text p = quoted (concat (map escape_char (fst p))) @ '':'' @ quoted (concat (map escape_char (snd p)))"

lemma read_member_text: "read_member (member_text p @ r) = Some (p, r)"
  using read_quoted_escaped [of "fst p" "'':'' @ quoted (concat (map escape_char (snd p))) @ r"]
    read_quoted_escaped [of "snd p" r]
  by (simp add: read_member_def member_text_def)

lemma read_members_text:
  "ps \<noteq> [] \<Longrightarrow> read_members (join_with '','' (map member_text ps) @ ''}}'') = Some (ps, ''}}'')"
proof (induction ps)
  case (Cons p ps)
  show ?case
  proof (cases ps)
    case Nil
    then show ?thesis
      using read_member_text [of p "''}}''"] by (subst read_members.simps) simp
  next
    case (Cons q qs)
    then have "join_with '','' (map member_text (p # ps)) @ ''}}'' =
        member_text p @ CHR '','' # join_with '','' (map member_text ps) @ ''}}''" by simp
    with Cons.IH Cons read_member_text [of p "CHR '','' # join_with '','' (map member_text ps) @ ''}}''"]
    show ?thesis by (subst read_members.simps) simp
  qed
qed simp

lemma read_auth_text: "ps \<noteq> [] \<Longrightarrow> read_message (auth_text (map member_text ps)) = Some ps"
  using read_members_text [of ps] by (simp add: read_message_def message_head_def auth_text_def)

section \<open>What the message says\<close>

text \<open>
  A location with a secret that munge has decoded from a credential of the user of the process, saved for
  this system and this location.
\<close>

definition own_credential :: "cstring \<Rightarrow> LoginCredential list \<Rightarrow> event list \<Rightarrow> cstring \<times> cstring \<Rightarrow> bool" where
  "own_credential system lcs es p \<longleftrightarrow>
     (\<exists>lc\<in>set lcs. \<exists>k r u. lc_system lc = system \<and> lc_location lc = fst p \<and> lc_cred lc = Some k \<and>
        (Gateway (MungeDecode k), r) \<in> set es \<and> munge_readable r \<and> r_text r = Some (snd p) \<and>
        (Getuid, u) \<in> set es \<and> (case r_ids r of [] \<Rightarrow> 0 | uid # uids \<Rightarrow> uid) = nat (r_rc u))"

lemma own_more: "own_credential system lcs es p \<Longrightarrow> own_credential system (lc # lcs) (a @ es) p"
  unfolding own_credential_def by (simp, blast)

lemma auth_entry_member: "auth_entry l b = [] \<or> (\<exists>c. b = Some c \<and> auth_entry l b = [member_text (l, c)])"
  by (cases b) (auto simp: auth_entry_def json_escape_string_def member_text_def)

lemma auth_entries_effects:
  "effects (auth_entries system lcs) (\<lambda>x es. \<exists>ps. x = map member_text ps \<and> (\<forall>p\<in>set ps. own_credential system lcs es p))"
proof (induction lcs)
  case Nil
  then show ?case by (auto intro!: effects_yield)
next
  case (Cons lc lcs)
  have skip: "effects (auth_entries system lcs) (\<lambda>x es. \<exists>ps. x = map member_text ps \<and>
      (\<forall>p\<in>set ps. own_credential system (lc # lcs) (a @ es) p))" for a
    by (rule effects_mono [OF Cons.IH]) (auto intro: own_more)
  show ?case
  proof (cases "lc_system lc \<noteq> system \<or> lc_cred lc = None")
    case True
    then show ?thesis using skip [of "[]"] by simp
  next
    case False
    then obtain k where k: "lc_system lc = system" "lc_cred lc = Some k" by auto
    have use: "effects (do { es \<leftarrow> auth_entries system lcs; yield (auth_entry (lc_location lc) (r_text r) @ es) })
        (\<lambda>x es. \<exists>ps. x = map member_text ps \<and>
          (\<forall>p\<in>set ps. own_credential system (lc # lcs) ((Gateway (MungeDecode k), r) # (Getuid, u) # es) p))"
      if "munge_readable r" "(case r_ids r of [] \<Rightarrow> 0 | uid # uids \<Rightarrow> uid) = nat (r_rc u)" for r u
    proof (rule effects_seq [OF skip [of "[(Gateway (MungeDecode k), r), (Getuid, u)]"]], rule effects_yield, goal_cases)
      case (1 x n)
      then obtain ps where ps: "x = map member_text ps"
        "\<forall>p\<in>set ps. own_credential system (lc # lcs) ((Gateway (MungeDecode k), r) # (Getuid, u) # n) p" by auto
      show ?case
      proof (cases "auth_entry (lc_location lc) (r_text r) = []")
        case True
        then show ?thesis using ps by auto
      next
        case False
        then obtain c where c: "r_text r = Some c" "auth_entry (lc_location lc) (r_text r) = [member_text (lc_location lc, c)]"
          using auth_entry_member by blast
        then have "own_credential system (lc # lcs) ((Gateway (MungeDecode k), r) # (Getuid, u) # n) (lc_location lc, c)"
          unfolding own_credential_def using that k by (intro bexI [of _ lc] exI [of _ k] exI [of _ r] exI [of _ u]) simp_all
        with ps c(2) show ?thesis by (intro exI [of _ "(lc_location lc, c) # ps"]) simp
      qed
    qed
    show ?thesis
      using k use skip [of "[(Gateway (MungeDecode k), r)]" for r]
        skip [of "[(Gateway (MungeDecode k), r), (Getuid, u)]" for r u]
      by (auto intro!: effects_call_bind)
  qed
qed

definition tells_own_credentials :: "cstring \<Rightarrow> LoginCredential list \<Rightarrow> cstring option \<Rightarrow> event list \<Rightarrow> bool" where
  "tells_own_credentials system lcs x es \<longleftrightarrow>
     (case x of
        None \<Rightarrow> True
      | Some m \<Rightarrow> (\<exists>ps. read_message m = Some ps \<and> (\<forall>p\<in>set ps. own_credential system lcs es p)))"


section \<open>Whole answers\<close>

lemma receive_complete: "gw_messageComplete gw \<Longrightarrow> receive parts gw = (True, gw') \<Longrightarrow> concat parts = [] \<and> gw' = gw"
  by (induction parts) (auto simp: handleResponseData_def split: if_splits)

lemma taken_part:
  assumes "handleResponseData part gw = (length part, gw1)" "\<not> gw_messageComplete gw"
  shows "gw_message gw1 = Some ((case gw_message gw of None \<Rightarrow> [] | Some m \<Rightarrow> m) @ part) \<and>
    gw_expContentLen gw1 = gw_expContentLen gw \<and> gw_isJsonMessage gw1 = gw_isJsonMessage gw \<and>
    gw_messageComplete gw1 = (length (the (gw_message gw1)) = gw_expContentLen gw)"
proof -
  have "length (takeWhile (\<lambda>c. c \<noteq> NUL) part) = length part \<Longrightarrow> takeWhile (\<lambda>c. c \<noteq> NUL) part = part"
    by (metis takeWhile_eq_take take_all order_refl)
  with assms show ?thesis by (auto simp: handleResponseData_def Let_def split: if_splits)
qed

text \<open>
  An answer counts as complete exactly when as many bytes have come as were announced. When a transfer
  has gone well, the message is all that has come, in order, and no byte of it was a NUL; what comes after
  the announced end makes the transfer fail.
\<close>

theorem answer_complete_iff_whole:
  assumes "receive parts gw = (True, gw')" "parts \<noteq> []" "gw_message gw = None" "\<not> gw_messageComplete gw"
  shows "gw_message gw' = Some (concat parts) \<and> (gw_messageComplete gw' \<longleftrightarrow> length (concat parts) = gw_expContentLen gw)"
proof -
  have step: "gw_message g' = Some (m @ concat ps) \<and>
      (gw_messageComplete g' \<longleftrightarrow> length (m @ concat ps) = gw_expContentLen g)"
    if "receive ps g = (True, g')" "ps \<noteq> []" "m = (case gw_message g of None \<Rightarrow> [] | Some t \<Rightarrow> t)" "\<not> gw_messageComplete g"
    for ps g g' m
    using that
  proof (induction ps arbitrary: g m)
    case (Cons p ps)
    obtain n g1 where h: "handleResponseData p g = (n, g1)" by fastforce
    with Cons.prems(1) have n: "n = length p" and r: "receive ps g1 = (True, g')" by (auto split: if_splits)
    note t = taken_part [OF h [unfolded n] Cons.prems(4)]
    show ?case
    proof (cases "ps = [] \<or> gw_messageComplete g1")
      case True
      then have c: "concat ps = []" "g' = g1" using r receive_complete [of g1 ps g'] by auto
      show ?thesis using t Cons.prems(3) unfolding c concat.simps append_assoc [symmetric] by simp
    next
      case False
      with Cons.IH [OF r, of "m @ p"] t Cons.prems(3) show ?thesis by simp
    qed
  qed simp
  from step [OF assms(1,2) refl assms(4)] assms(3) show ?thesis by simp
qed

lemma answer_complete_iff_whole_witness:
  "\<exists>gw'. receive [''ab'', ''c''] (empty_ImageGwState\<lparr>gw_expContentLen := 3\<rparr>) = (True, gw') \<and>
     gw_message gw' = Some ''abc'' \<and> gw_messageComplete gw'"
proof -
  let ?g = "empty_ImageGwState\<lparr>gw_expContentLen := 3\<rparr>"
  obtain g where r: "receive [''ab'', ''c''] ?g = (True, g)"
    by (simp add: handleResponseData_def empty_ImageGwState_def NUL_def)
  with answer_complete_iff_whole [OF r] show ?thesis by (simp add: empty_ImageGwState_def)
qed

section \<open>Saved credentials\<close>

definition credential_entry :: "LoginCredential \<Rightarrow> cstring \<times> cstring" where
  "credential_entry lc = (lc_system lc @ '':'' @ lc_location lc, show_str (lc_cred lc))"

text \<open>A credential that fits on its line: no delimiter, newline or white space where it would be misread.\<close>

definition plain_login :: "LoginCredential \<Rightarrow> bool" where
  "plain_login lc \<longleftrightarrow>
     lc_cred lc \<noteq> None \<and> CHR '':'' \<notin> set (lc_system lc) \<and> simple_entry (CHR ''='') (credential_entry lc)"

definition saved_credential :: "cstring \<Rightarrow> cstring \<Rightarrow> LoginCredential list \<Rightarrow> cstring option" where
  "saved_credential system location lcs =
     (case find (\<lambda>lc. lc_system lc = system \<and> lc_location lc = location) lcs of
        None \<Rightarrow> None | Some lc \<Rightarrow> lc_cred lc)"

lemma credential_line_entry: "credential_line lc = entry_line (CHR ''='') (credential_entry lc)"
  by (simp add: credential_line_def entry_line_def credential_entry_def)

lemma assign_credential:
  assumes "plain_login lc"
  shows "assignLoginCredential (fst (credential_entry lc)) (snd (credential_entry lc)) lcs = (0, lcs @ [lc])"
proof -
  obtain c where "lc_cred lc = Some c" "CHR '':'' \<notin> set (lc_system lc)" using assms by (auto simp: plain_login_def)
  then show ?thesis
    by (cases lc) (simp add: assignLoginCredential_def credential_entry_def strchr_split_append show_str_def)
qed

lemma assign_credentials:
  "list_all plain_login lcs \<Longrightarrow>
     assign_all assignLoginCredential (map credential_entry lcs) old = (0, old @ lcs)"
proof (induction lcs arbitrary: old)
  case (Cons lc lcs)
  then show ?case
    using assign_credential [of lc old] by (cases "credential_entry lc") simp
qed simp

lemma put_credential_plain:
  "list_all plain_login lcs \<Longrightarrow> plain_login new \<Longrightarrow>
     list_all plain_login (put_credential (lc_system new) (lc_location new) (lc_cred new) lcs)"
  by (induction lcs) (auto simp: plain_login_def credential_entry_def)

lemma saved_put_credential:
  "saved_credential s l (put_credential system location cred lcs) =
     (if s = system \<and> l = location then cred else saved_credential s l lcs)"
  by (induction lcs) (auto simp: saved_credential_def)

text \<open>
  C30. The file that a login writes is read back by the next run as the credentials that were written: the
  new one is found under its system and location, and all others are as they were before.
\<close>

theorem credentials_file_reads_back:
  assumes "list_all plain_login lcs" "plain_login new" "eofbuf = (\<lambda>b. b) \<or> eofbuf = (\<lambda>b. [])"
    and "written = put_credential (lc_system new) (lc_location new) (lc_cred new) lcs"
  shows "\<exists>kept. shifter_parseConfig eofbuf (Some (concat (map credential_line written))) (CHR ''='') []
      assignLoginCredential = (0, kept) \<and>
    saved_credential s l kept =
      (if s = lc_system new \<and> l = lc_location new then lc_cred new else saved_credential s l lcs)"
proof -
  have p: "list_all plain_login written" using put_credential_plain assms by simp
  have eq: "concat (map credential_line written) = concat (map (entry_line (CHR ''='')) (map credential_entry written))"
    by (simp add: credential_line_entry [abs_def] comp_def)
  have e: "\<forall>kv\<in>set (map credential_entry written). simple_entry (CHR ''='') kv"
    using p by (auto simp: list_all_iff plain_login_def)
  have r: "shifter_parseConfig eofbuf (Some (concat (map (entry_line (CHR ''='')) (map credential_entry written))))
      (CHR ''='') [] assignLoginCredential = assign_all assignLoginCredential (map credential_entry written) []"
    by (rule parseConfig_entries [OF e _ _ assms(3)]) (simp_all add: special_char_defs)
  have "shifter_parseConfig eofbuf (Some (concat (map credential_line written))) (CHR ''='') []
      assignLoginCredential = (0, written)"
    unfolding eq r assign_credentials [OF p] by simp
  then show ?thesis using saved_put_credential assms(4) by simp
qed

lemma credentials_file_reads_back_witness:
  "\<exists>kept. shifter_parseConfig (\<lambda>b. b) (Some (''sys:default=MUNGE:AwQ='' @ [NL] @ ''sys:docker.io=MUNGE:AwU='' @ [NL]))
     (CHR ''='') [] assignLoginCredential = (0, kept) \<and>
   saved_credential ''sys'' ''docker.io'' kept = Some ''MUNGE:AwU='' "
proof -
  define old where "old = \<lparr>lc_system = ''sys'', lc_location = ''default'', lc_cred = Some ''MUNGE:AwQ=''\<rparr>"
  define new where "new = \<lparr>lc_system = ''sys'', lc_location = ''docker.io'', lc_cred = Some ''MUNGE:AwU=''\<rparr>"
  have "list_all plain_login [old]" "plain_login new"
    by (simp_all add: plain_login_def old_def new_def simple_entry_def credential_entry_def trimmed_def show_str_def
        char_class_defs special_char_defs)
  from credentials_file_reads_back [OF this, of "\<lambda>b. b" _ "''sys''" "''docker.io''"]
  show ?thesis by (simp add: old_def new_def credential_line_def show_str_def)
qed

section \<open>Requests\<close>

text \<open>What the options hold once they are read; \<open>escape\<close> is the escaping for URLs.\<close>

definition typed_image :: "(cstring \<Rightarrow> cstring) \<Rightarrow> gw_options \<Rightarrow> bool" where
  "typed_image escape c \<longleftrightarrow>
     (case (g_rawtype c, g_rawtag c) of
        (Some type, Some tag) \<Rightarrow>
          type \<in> set allowedImageTypes \<and> tag \<noteq> [] \<and> g_type c = Some (escape type) \<and> g_tag c = Some (escape tag)
      | (None, None) \<Rightarrow> g_type c = None \<and> g_tag c = None
      | _ \<Rightarrow> False)"

definition typed_request :: "(cstring \<Rightarrow> cstring) \<Rightarrow> ended + gw_options \<Rightarrow> bool" where
  "typed_request escape r \<longleftrightarrow>
     (case r of
        Inl e \<Rightarrow> True
      | Inr c \<Rightarrow> g_mode c \<noteq> MODE_INVALID \<and> g_location c \<noteq> None \<and> typed_image escape c \<and>
          list_all (\<lambda>i. 0 < i) (g_allowed_uids c @ g_allowed_gids c))"

lemma typed_proceed:
  assumes "effects p (\<lambda>r es. case r of Inl e \<Rightarrow> True | Inr x \<Rightarrow> A x)"
    and "\<And>x. A x \<Longrightarrow> effects (f x) (\<lambda>r es. case r of Inl e \<Rightarrow> True | Inr y \<Rightarrow> B y)"
  shows "effects (proceed p f) (\<lambda>r es. case r of Inl e \<Rightarrow> True | Inr y \<Rightarrow> B y)"
  unfolding proceed_def
  by (rule effects_seq [OF assms(1)]) (use assms(2) in \<open>auto split: sum.splits\<close>)

lemma typed_calling:
  "effects p (\<lambda>x es. A x) \<Longrightarrow> effects (calling p) (\<lambda>r es. case r of Inl e \<Rightarrow> True | Inr x \<Rightarrow> A x)"
  unfolding calling_def by (erule effects_seq) (auto intro: effects_yield)

text \<open>The lookups may be any that only call.\<close>

lemma acl_ids_positive: "(\<And>p. logs (lookup p)) \<Longrightarrow> effects (acl_ids lookup ps) (\<lambda>ids es. list_all (\<lambda>i. 0 < i) ids)"
proof (induction ps)
  case (Cons p ps)
  show ?case
    using Cons.IH [OF Cons.prems]
    by (auto simp: Let_def intro!: effects_seq [OF Cons.prems] effects_seq [OF Cons.IH [OF Cons.prems]] effects_yield)
qed (auto intro!: effects_yield)

lemma typed_image_update [simp]:
  "typed_image escape (c\<lparr>g_verbose := b\<rparr>) = typed_image escape c"
  "typed_image escape (c\<lparr>g_allowed_uids := ids\<rparr>) = typed_image escape c"
  "typed_image escape (c\<lparr>g_allowed_gids := ids\<rparr>) = typed_image escape c"
  "typed_image escape (c\<lparr>g_mode := m\<rparr>) = typed_image escape c"
  "typed_image escape (c\<lparr>g_location := l\<rparr>) = typed_image escape c"
  "typed_image escape (c\<lparr>g_loginCredentials := lcs\<rparr>) = typed_image escape c"
  by (simp_all add: typed_image_def split: option.split)

lemma add_allowed_keeps:
  "list_all (\<lambda>i. 0 < i) (g_allowed_uids c @ g_allowed_gids c) \<Longrightarrow> typed_image escape c \<Longrightarrow>
     effects (add_allowed aclType arg c)
       (\<lambda>c' es. list_all (\<lambda>i. 0 < i) (g_allowed_uids c' @ g_allowed_gids c') \<and> typed_image escape c')"
  by (cases aclType)
     (auto simp: add_allowed_def lookup_user_id_def lookup_group_id_def
       intro!: effects_seq [OF acl_ids_positive] logs_intros effects_yield)

lemma gw_apply_opts_keeps:
  "list_all (\<lambda>i. 0 < i) (g_allowed_uids c @ g_allowed_gids c) \<and> typed_image escape c \<Longrightarrow>
     effects (gw_apply_opts os c)
       (\<lambda>r es. case r of Inl e \<Rightarrow> True
          | Inr c' \<Rightarrow> list_all (\<lambda>i. 0 < i) (g_allowed_uids c' @ g_allowed_gids c') \<and> typed_image escape c')"
proof (induction os c rule: gw_apply_opts.induct)
  case (2 ch arg os c)
  have v: "list_all (\<lambda>i. 0 < i) (g_allowed_uids (c\<lparr>g_verbose := True\<rparr>) @ g_allowed_gids (c\<lparr>g_verbose := True\<rparr>)) \<and>
      typed_image escape (c\<lparr>g_verbose := True\<rparr>)" using "2.prems" by simp
  note add = typed_calling [OF add_allowed_keeps [OF conjunct1 [OF "2.prems"] conjunct2 [OF "2.prems"]]]
  show ?case
    unfolding gw_apply_opts.simps
    by (intro effects_cases(1) effects_yield "2.IH"(1) typed_proceed [OF add] "2.IH"; (rule "2.prems" v | simp)?)
qed (auto intro!: effects_yield)

lemma mode_argument_typed:
  assumes "typed_image (l_escape lib) c" "mode_argument lib udiConfig args c = Inr c'"
  shows "typed_image (l_escape lib) c' \<and> g_mode c' = g_mode c \<and> g_allowed_uids c' = g_allowed_uids c \<and>
    g_allowed_gids c' = g_allowed_gids c"
  using assms parse_ImageDescriptor_Some
  by (auto simp: mode_argument_def typed_image_def split: list.splits if_splits option.splits prod.splits)

lemma load_credentials_logs: "logs (load_credentials eofbuf lcs)"
  unfolding load_credentials_def Let_def by (intro logs_intros)

text \<open>
  C31. When the options are accepted, the mode is one of the commands, there is a location, an image is given
  by one of the types that the gateway knows together with a tag that is not empty, both escaped for the URL,
  and every user and every group that the image is to be allowed for has an id above 0. Anything else ends
  the command.
\<close>

theorem gateway_request_typed:
  "effects (gw_parse_options mc lib argv udiConfig empty_gw_options)
     (\<lambda>r es. typed_request (l_escape lib) r)"
proof -
  let ?A = "\<lambda>c. list_all (\<lambda>i. 0 < i) (g_allowed_uids c @ g_allowed_gids c) \<and> typed_image (l_escape lib) c"
  let ?B = "\<lambda>c. ?A c \<and> g_mode c \<noteq> MODE_INVALID \<and> g_location c \<noteq> None"
  have start: "?A empty_gw_options" by (simp add: empty_gw_options_def typed_image_def)
  have load: "effects (proceed (calling (load_credentials eofbuf lcs)) (\<lambda>lcs. yield (Inr (c\<lparr>g_loginCredentials := lcs\<rparr>))))
      (\<lambda>r es. case r of Inl e \<Rightarrow> True | Inr c' \<Rightarrow> ?B c')" if "?B c" for c eofbuf lcs
    by (rule typed_proceed [OF typed_calling [OF load_credentials_logs]]) (use that in \<open>auto intro!: effects_yield\<close>)
  have argument: "effects (proceed (yield (mode_argument lib udiConfig args (c\<lparr>g_mode := read_mode m\<rparr>))) (\<lambda>config2.
      let config3 = (if g_location config2 = None then config2\<lparr>g_location := Some ''default''\<rparr> else config2)
      in proceed (calling (load_credentials eofbuf (g_loginCredentials config3))) (\<lambda>lcs.
           yield (Inr (config3\<lparr>g_loginCredentials := lcs\<rparr>)))))
      (\<lambda>r es. case r of Inl e \<Rightarrow> True | Inr c' \<Rightarrow> ?B c')" if "?A c" "read_mode m \<noteq> MODE_INVALID" for args c m eofbuf
  proof (rule typed_proceed [where A = "\<lambda>c'. ?A c' \<and> g_mode c' \<noteq> MODE_INVALID"], goal_cases)
    case 1
    show ?case
    proof (cases "mode_argument lib udiConfig args (c\<lparr>g_mode := read_mode m\<rparr>)")
      case (Inr c')
      with mode_argument_typed [OF _ Inr] that show ?thesis by (auto intro!: effects_yield)
    qed (auto intro!: effects_yield)
  next
    case (2 c')
    then show ?case unfolding Let_def by (intro load) auto
  qed
  have "effects (gw_parse_options mc lib argv udiConfig empty_gw_options)
      (\<lambda>r es. case r of Inl e \<Rightarrow> True | Inr c' \<Rightarrow> ?B c')"
    unfolding gw_parse_options_def require_def or_end_def
    apply (intro effects_cases(2))
    apply (rule typed_proceed [OF typed_calling [where A = "\<lambda>x. True", OF logs_basic(2)]])
    apply (rule typed_proceed [OF gw_apply_opts_keeps [OF start]])
    apply (rule typed_proceed [where A = "\<lambda>x. True"])
     apply (auto intro!: effects_yield split: option.split)[1]
    apply (intro effects_cases(2))
    apply (rule typed_proceed [where A = "\<lambda>x. read_mode _ \<noteq> MODE_INVALID"])
     apply (auto intro!: effects_yield)[1]
    apply (erule argument)
    apply assumption
    done
  then show ?thesis by (rule effects_mono) (auto simp: typed_request_def split: sum.splits)
qed

section \<open>Where requests go\<close>

text \<open>A request goes to one of the gateways and carries the credential of munge.\<close>

definition gateway_request :: "cstring list \<Rightarrow> event \<Rightarrow> bool" where
  "gateway_request gws e \<longleftrightarrow>
     (case fst e of
        Gateway (HttpRequest url headers payload) \<Rightarrow>
          list_ex (\<lambda>gw. prefix (gw @ ''/api/'') url) gws \<and>
          (case headers of [] \<Rightarrow> False | h # hs \<Rightarrow> prefix ''authentication:'' h)
      | _ \<Rightarrow> True)"

lemma gateway_request_other:
  "(\<And>url hs p. c \<noteq> Gateway (HttpRequest url hs p)) \<Longrightarrow> gateway_request gws (c, r)"
  by (auto simp: gateway_request_def split: syscall.split gateway_call.split)

lemma only_shuffle: "i + k < length gws \<or> k = 0 \<Longrightarrow>
  effects (shuffle_from k i gws) (\<lambda>r es. mset r = mset gws \<and> (\<forall>e\<in>set es. gateway_request us e))"
proof (induction k arbitrary: i gws)
  case (Suc k)
  have "mset (gws[i := gws ! j, j := gws ! i]) = mset gws" if "j < length gws" for j
    using Suc.prems that mset_swap [of j gws i] by simp
  moreover have "i + nat n mod (length gws - i) < length gws" for n
    using Suc.prems by (metis add.commute add_lessD1 less_diff_conv mod_less_divisor nat.distinct(1) zero_less_diff)
  ultimately show ?case
    using Suc.prems
    by (auto simp: Let_def gateway_request_other intro!: effects_call_bind effects_mono [OF Suc.IH])
qed (auto intro!: effects_yield)

lemma only_requests [only_intros]:
  "only (gateway_request gws) (verbose_text config t)" "only (gateway_request gws) (print_out t)"
  "only (gateway_request gws) (outcome_run y)"
  "only (gateway_request gws) (print_images es)"
  "only (gateway_request gws) (auth_entries system lcs)"
  "only (gateway_request gws) tty_line"
  "only (gateway_request gws) (write_credentials pwd lcs)"
  "only (gateway_request gws) (add_allowed aclType arg config)"
  "only (gateway_request gws) (load_credentials eofbuf lcs)"
proof -
  show p: "only (gateway_request gws) (print_out t)" for t
    unfolding print_out_def by (intro only_intros) (simp add: gateway_request_other)
  show "only (gateway_request gws) (verbose_text config t)"
    unfolding verbose_text_def by (intro only_intros p)
  show "only (gateway_request gws) (print_images es)"
    by (induction es) (auto intro!: only_intros p simp: gateway_request_other)
  show "only (gateway_request gws) (auth_entries system lcs)"
    by (induction lcs) (auto intro!: only_intros simp: gateway_request_other)
  have "only (gateway_request gws) (acl_ids lookup ps)" if "\<And>p. only (gateway_request gws) (lookup p)" for lookup ps
    by (induction ps) (auto simp: Let_def intro!: only_intros that)
  moreover have "only (gateway_request gws) (lookup_user_id p)" "only (gateway_request gws) (lookup_group_id p)" for p
    unfolding lookup_user_id_def lookup_group_id_def by (intro only_intros; simp add: gateway_request_other)+
  ultimately show "only (gateway_request gws) (add_allowed aclType arg config)"
    unfolding add_allowed_def by (cases aclType) (simp_all add: only_intros)
qed (unfold tty_line_def write_credentials_def load_credentials_def Let_def,
     (intro only_intros; simp add: gateway_request_other)+)

lemma request_allowed:
  "baseUrl \<in> set gws \<Longrightarrow> gateway_request gws
     (Gateway (HttpRequest (request_url baseUrl config udiConfig) ((''authentication:'' @ t) # hs) p), r)"
  by (force simp: gateway_request_def request_url_def list_ex_iff)

lemma only_query:
  assumes "baseUrl \<in> set gws" "\<And>c g. only (gateway_request gws) (answer c g)"
  shows "only (gateway_request gws) (query_once answer baseUrl config udiConfig)"
proof -
  have "only (gateway_request gws) (transfer (request_url baseUrl config udiConfig) ((''authentication:'' @ t) # hs) p)" for t hs p
    unfolding transfer_def
    by (intro only_intros request_allowed assms(1)) (simp add: gateway_request_other)
  then have "only (gateway_request gws) (send_request baseUrl config udiConfig)"
    unfolding send_request_def constructAuthMessage_def Let_def
    by (intro only_intros) (simp_all add: gateway_request_other)
  then show ?thesis
    unfolding query_once_def by (intro only_intros assms(2))
qed

lemma only_plain_answer: "only (gateway_request gws) (plain_answer lib config gw)"
proof -
  have "only (gateway_request gws) (lookup_answer lib gw)" "only (gateway_request gws) (images_answer lib gw)"
    unfolding lookup_answer_def images_answer_def Let_def by (intro only_intros)+
  moreover have "only (gateway_request gws) (progress_answer lib config gw)"
    unfolding progress_answer_def by (intro only_intros) (simp_all add: gateway_request_other)
  ultimately show ?thesis by (simp add: plain_answer_def only_intros split: ImageGwAction.split)
qed

lemma only_queryGateway:
  assumes "baseUrl \<in> set gws"
  shows "only (gateway_request gws) (queryGateway fuel lib baseUrl config udiConfig)"
proof -
  have "only (gateway_request gws) (poll_pull n lib baseUrl c udiConfig)" for n c
    by (induction n)
       (auto intro!: only_intros only_query assms only_plain_answer simp: gateway_request_other split: option.split)
  then have "only (gateway_request gws) (pull_answer fuel lib baseUrl udiConfig c g)" for c g
    unfolding pull_answer_def by (intro only_intros)
  then show ?thesis
    unfolding queryGateway_def by (intro only_query assms) (simp add: only_plain_answer)
qed


end
