(* ===== verification/SiteTools.thy ===== *)
theory SiteTools
  imports ShifterMain
begin

text \<open>
  Small programs beside the main one: extra/shifter_slurm_dws_support.c, which shows the data warp mounts of
  a job in its container, and the tools under wlm_integration/torque, which read and change the variables of
  a job of Torque. The library of Torque is not part of the repository: its calls are the type
  \<open>torque_call\<close>, and the name it gives to the attribute with the variables of a job is a parameter.
\<close>

section \<open>Data warp mounts\<close>

definition dws_main :: "machine \<Rightarrow> int run" where
  "dws_main mc =
     proceed (calling (read_mounts empty_MountList)) (\<lambda>(rc, mounts).
       (case parse_UdiRootConfig (x_eofbuf mc) (x_stat mc) (x_readf mc) (x_configFile mc) empty_UdiRootConfig
               UDIROOT_VAL_ALL of
          (rc2, config) \<Rightarrow>
            let dwMountPoint = path_buffer (show_str (udiMountPoint config) @ ''/var/opt/cray/dws'') in
            proceed (require (Exits 1) (rc2 = 0)) (\<lambda>_.
            proceed (calling (unmountTree mounts dwMountPoint)) (\<lambda>(r1, mounts1).
            proceed (calling (shifterCore_bindMount config mounts1 ''/var/opt/cray/dws'' dwMountPoint
                      VOLMAP_FLAG_RECURSIVE True)) (\<lambda>(r2, mounts2).
              yield (Inr 0))))))"

section \<open>Variables of a job\<close>

type_synonym job_attributes = "(cstring \<times> cstring) list"

text \<open>The value of the last attribute with the variables; \<open>ATTR_v\<close> is its name.\<close>

definition ref_variables :: "cstring \<Rightarrow> job_attributes \<Rightarrow> cstring option" where
  "ref_variables ATTR_v attribs =
     (case filter (\<lambda>a. fst a = ATTR_v) attribs of [] \<Rightarrow> None | a # as \<Rightarrow> Some (snd (last (a # as))))"

text \<open>The loop over the tokens; the token behind one that is the name is taken as its value.\<close>

fun scan_variables :: "cstring \<Rightarrow> cstring list \<Rightarrow> cstring option \<Rightarrow> cstring option" where
  "scan_variables var [] found = found"
| "scan_variables var [t] found = found"
| "scan_variables var (t # v # ts) found =
     (if t = var then scan_variables var ts (Some v) else scan_variables var (v # ts) found)"

definition job_getenv_varstr :: "cstring \<Rightarrow> job_attributes \<Rightarrow> cstring option \<Rightarrow> cstring option" where
  "job_getenv_varstr ATTR_v attribs var =
     (case (var, ref_variables ATTR_v attribs) of
        (Some name, Some vars) \<Rightarrow> scan_variables name (strtok_all (\<lambda>c. c = CHR ''='' \<or> c = CHR '','') vars) None
      | _ \<Rightarrow> None)"

definition job_setenv_varstr :: "cstring \<Rightarrow> job_attributes \<Rightarrow> cstring \<Rightarrow> cstring \<Rightarrow> cstring" where
  "job_setenv_varstr ATTR_v attribs var v =
     (case ref_variables ATTR_v attribs of None \<Rightarrow> [] | Some vars \<Rightarrow> vars @ '','') @ var @ ''='' @ v"

text \<open>In qstatenv the function of the same name returns the first such attribute.\<close>

definition first_variables :: "cstring \<Rightarrow> job_attributes \<Rightarrow> cstring option" where
  "first_variables ATTR_v attribs = map_option snd (find (\<lambda>a. fst a = ATTR_v) attribs)"

section \<open>The command lines of the tools\<close>

text \<open>
  The options "s:hV" and the long ones, found anywhere before an argument --
  (POSIXLY_CORRECT is taken not to be set). The table of long options has no
  last entry: a name that is not found exactly is looked for behind the table, for which the answer is
  \<open>LongOpt\<close>; the other options that are not understood are passed over.
\<close>

definition tool_options :: "(char \<times> has_arg) list" where
  "tool_options = [(CHR ''s'', RequiredArg), (CHR ''h'', NoArg), (CHR ''V'', NoArg)]"

definition tool_long_options :: "(cstring \<times> has_arg \<times> char option) list" where
  "tool_long_options = [(''help'', NoArg, Some (CHR ''h'')), (''version'', NoArg, Some (CHR ''V''))]"

definition tool_long :: "cstring \<Rightarrow> cstring list \<Rightarrow> opt \<times> cstring list" where
  "tool_long body rest =
     (if takeWhile (\<lambda>c. c \<noteq> CHR ''='') body \<in> set (map fst tool_long_options)
      then take_long tool_long_options body rest else (LongOpt body None, rest))"

lemma tool_long_rest: "length (snd (tool_long body rest)) \<le> length rest"
  using take_long_rest [of tool_long_options body rest] by (simp add: tool_long_def)

function tool_getopt :: "cstring list \<Rightarrow> opt list \<times> cstring list" where
  "tool_getopt [] = ([], [])"
| "tool_getopt (a # rest) =
     (if a = ''--'' then ([], rest)
      else if prefix ''--'' a then
        (case tool_long (drop 2 a) rest of
           (opt, rest') \<Rightarrow> (case tool_getopt rest' of (os, others) \<Rightarrow> (opt # os, others)))
      else if prefix ''-'' a \<and> a \<noteq> ''-'' then
        (case take_short tool_options (tl a) rest of
           (os1, rest') \<Rightarrow> (case tool_getopt rest' of (os, others) \<Rightarrow> (os1 @ os, others)))
      else (case tool_getopt rest of (os, others) \<Rightarrow> (os, a # others)))"
  by pat_completeness auto
termination
proof (relation "measure length", goal_cases)
  case 2
  then show ?case by (simp, metis le_imp_less_Suc snd_conv tool_long_rest)
next
  case 3
  then show ?case by (simp, metis le_imp_less_Suc snd_conv take_short_rest)
qed simp_all

fun tool_server :: "opt list \<Rightarrow> cstring option \<Rightarrow> ended + cstring option" where
  "tool_server [] server = Inr server"
| "tool_server (ShortOpt c arg # os) server =
     (if c = CHR ''s'' then tool_server os arg
      else if c = CHR ''h'' \<or> c = CHR ''V'' then Inl (Exits 0)
      else tool_server os server)"
| "tool_server (LongOpt body arg # os) server = Inl Faults"
| "tool_server (BadOption # os) server = tool_server os server"

text \<open>The options and at most \<open>n\<close> other arguments.\<close>

definition tool_arguments :: "nat \<Rightarrow> cstring list \<Rightarrow> (cstring option \<times> cstring list) run" where
  "tool_arguments n argv =
     (case tool_getopt (tl argv) of
        (os, others) \<Rightarrow>
          proceed (yield (tool_server os None)) (\<lambda>server.
          proceed (require (Exits 1) (length others \<le> n)) (\<lambda>_.
            yield (Inr (server, others)))))"

section \<open>Talking to a server\<close>

fun connect_first :: "cstring list \<Rightarrow> int \<Rightarrow> int sys" where
  "connect_first [] server_fd = yield server_fd"
| "connect_first (s # ss) server_fd =
     do {
       r \<leftarrow> syscall (Torque (PbsConnect s));
       if 0 < r_rc r then yield (r_rc r) else connect_first ss (r_rc r)
     }"

text \<open>The servers that the library knows are asked for when none is given.\<close>

definition tool_connect :: "cstring option \<Rightarrow> int run" where
  "tool_connect server =
     proceed (case server of
                Some s \<Rightarrow> yield (Inr s)
              | None \<Rightarrow> proceed (calling (syscall (Torque PbsServerList))) (\<lambda>r. or_end Faults (r_text r))) (\<lambda>servers.
     proceed (calling (connect_first (strtok_all (\<lambda>c. c = CHR '','') servers) 0)) (\<lambda>server_fd.
     proceed (require (Exits 1) (0 < server_fd)) (\<lambda>_.
       yield (Inr server_fd))))"

text \<open>A job that the server knows, with its attributes.\<close>

definition query_job :: "int \<Rightarrow> cstring option \<Rightarrow> job_attributes option sys" where
  "query_job server_fd jobid =
     do {
       r \<leftarrow> syscall (Torque (PbsStatjob server_fd jobid));
       if r_rc r = 0 then yield None
       else do { v \<leftarrow> syscall (Torque PbsValues); yield (Some (zip (r_names r) (r_names v))) }
     }"

definition nth_argument :: "nat \<Rightarrow> cstring list \<Rightarrow> cstring option" where
  "nth_argument n args = (if n < length args then Some (args ! n) else None)"

definition print_lines :: "cstring list \<Rightarrow> unit sys" where
  "print_lines ls = do { r \<leftarrow> syscall (Gateway (Print (concat (map (\<lambda>l. l @ [NL]) ls)))); yield () }"

section \<open>The tools\<close>

definition qgetenv_main :: "cstring \<Rightarrow> cstring list \<Rightarrow> int run" where
  "qgetenv_main ATTR_v argv =
     proceed (tool_arguments 2 argv) (\<lambda>(server, args).
     proceed (tool_connect server) (\<lambda>server_fd.
       calling (do {
         job \<leftarrow> query_job server_fd (nth_argument 0 args);
         let found = (case job of None \<Rightarrow> None | Some attribs \<Rightarrow> job_getenv_varstr ATTR_v attribs (nth_argument 1 args)) in
         do {
           p \<leftarrow> (case found of None \<Rightarrow> yield () | Some v \<Rightarrow> print_lines [v]);
           d \<leftarrow> syscall (Torque (PbsDisconnect server_fd));
           yield (if found = None then 1 else 0)
         }
       })))"

text \<open>A job that is not found is no failure here.\<close>

definition qsetenv_main :: "cstring \<Rightarrow> cstring list \<Rightarrow> int run" where
  "qsetenv_main ATTR_v argv =
     proceed (tool_arguments 3 argv) (\<lambda>(server, args).
     proceed (require (Exits 1) (length args = 3)) (\<lambda>_.
     proceed (tool_connect server) (\<lambda>server_fd.
       calling (do {
         job \<leftarrow> query_job server_fd (Some (args ! 0));
         ret \<leftarrow> (case job of
                  None \<Rightarrow> yield 0
                | Some attribs \<Rightarrow> do {
                    r \<leftarrow> syscall (Torque (PbsAlterjob server_fd (args ! 0) ATTR_v
                           (job_setenv_varstr ATTR_v attribs (args ! 1) (args ! 2))));
                    yield (r_rc r)
                  });
         d \<leftarrow> syscall (Torque (PbsDisconnect server_fd));
         yield (if ret \<noteq> 0 then 1 else 0)
       }))))"

definition qstatenv_main :: "cstring \<Rightarrow> cstring list \<Rightarrow> int run" where
  "qstatenv_main ATTR_v argv =
     proceed (tool_arguments 1 argv) (\<lambda>(server, args).
     proceed (or_end (Exits 1) (nth_argument 0 args)) (\<lambda>jobid.
     proceed (tool_connect server) (\<lambda>server_fd.
       calling (do {
         job \<leftarrow> query_job server_fd (Some jobid);
         let found = (case job of None \<Rightarrow> None | Some attribs \<Rightarrow> first_variables ATTR_v attribs) in
         do {
           p \<leftarrow> (case found of
                   None \<Rightarrow> yield ()
                 | Some vars \<Rightarrow> print_lines (filter (\<lambda>t. CHR ''='' \<in> set t) (strtok_all (\<lambda>c. c = CHR '','') vars)));
           d \<leftarrow> syscall (Torque (PbsDisconnect server_fd));
           yield (if found = None then 1 else 0)
         }
       }))))"

section \<open>Reading back what was set\<close>

definition plain_piece :: "cstring \<Rightarrow> bool" where
  "plain_piece t \<longleftrightarrow> t \<noteq> [] \<and> CHR ''='' \<notin> set t \<and> CHR '','' \<notin> set t"

definition variable_text :: "cstring \<times> cstring \<Rightarrow> cstring" where
  "variable_text e = fst e @ ''='' @ snd e"

abbreviation variable_sep :: "char \<Rightarrow> bool" where
  "variable_sep c \<equiv> c = CHR ''='' \<or> c = CHR '',''"

lemma strtok_all_cons:
  "plain_piece t \<Longrightarrow> variable_sep c \<Longrightarrow> strtok_all variable_sep (t @ c # r) = t # strtok_all variable_sep r"
proof -
  assume t: "plain_piece t" and c: "variable_sep c"
  have "\<forall>x\<in>set t. \<not> variable_sep x" using t by (auto simp: plain_piece_def)
  from split_on_append [OF this c, of r] show ?thesis using t by (simp add: strtok_all_def plain_piece_def)
qed

lemma strtok_all_variables:
  "list_all (\<lambda>(k, w). plain_piece k \<and> plain_piece w) es \<Longrightarrow> es \<noteq> [] \<Longrightarrow>
     strtok_all variable_sep (join_with '','' (map variable_text es)) = concat (map (\<lambda>(k, w). [k, w]) es)"
proof (induction es)
  case (Cons e es)
  obtain k w where e: "e = (k, w)" and p: "plain_piece k" "plain_piece w" using Cons.prems by (cases e) auto
  show ?case
  proof (cases es)
    case Nil
    have "strtok_all variable_sep w = [w]" using p(2) by (intro strtok_all_none) (auto simp: plain_piece_def)
    then show ?thesis using Nil e strtok_all_cons [OF p(1), of "CHR ''=''" w] by (simp add: variable_text_def)
  next
    case (Cons f fs)
    then have "join_with '','' (map variable_text (e # es)) =
        k @ CHR ''='' # w @ CHR '','' # join_with '','' (map variable_text es)"
      by (simp add: e variable_text_def)
    with Cons.IH Cons.prems Cons e show ?thesis by (simp add: strtok_all_cons p)
  qed
qed simp

lemma join_with_last: "ts \<noteq> [] \<Longrightarrow> join_with sep (ts @ [t]) = join_with sep ts @ sep @ t"
  by (induction sep ts rule: join_with.induct) auto

lemma scan_variables_pairs:
  "list_all (\<lambda>(k, w). w \<noteq> var) es \<Longrightarrow>
     scan_variables var (concat (map (\<lambda>(k, w). [k, w]) es) @ [var, v]) found = Some v"
proof (induction es arbitrary: found)
  case (Cons e es)
  obtain k w where e: "e = (k, w)" "w \<noteq> var" using Cons.prems by (cases e) auto
  obtain t ts where t: "concat (map (\<lambda>(k, w). [k, w]) es) @ [var, v] = t # ts"
    by (cases "concat (map (\<lambda>(k, w). [k, w]) es)") auto
  from Cons.prems Cons.IH [unfolded t] e t show ?case by simp
qed simp

text \<open>
  What qsetenv writes, qgetenv reads, whatever value the variable had before, as long as no name and no value
  of the job holds one of the two delimiters or is empty, and no other variable has the name as its value.
\<close>

theorem qsetenv_reads_back:
  assumes "list_all (\<lambda>(k, w). plain_piece k \<and> plain_piece w \<and> w \<noteq> var) es" "es \<noteq> []"
    and "plain_piece var" "plain_piece v"
    and "ref_variables A attribs = Some (join_with '','' (map variable_text es))"
    and "ref_variables A attribs' = Some (job_setenv_varstr A attribs var v)"
  shows "job_getenv_varstr A attribs' (Some var) = Some v"
proof -
  have j: "job_setenv_varstr A attribs var v = join_with '','' (map variable_text (es @ [(var, v)]))"
    using join_with_last [of "map variable_text es"] assms(2,5) by (simp add: job_setenv_varstr_def variable_text_def)
  have "list_all (\<lambda>(k, w). plain_piece k \<and> plain_piece w) (es @ [(var, v)])"
    using assms(1,3,4) by (auto simp: list_all_iff)
  from strtok_all_variables [OF this]
  have "strtok_all variable_sep (job_setenv_varstr A attribs var v) = concat (map (\<lambda>(k, w). [k, w]) es) @ [var, v]"
    by (simp add: j)
  moreover have "list_all (\<lambda>(k, w). w \<noteq> var) es" using assms(1) by (auto simp: list_all_iff)
  ultimately show ?thesis
    using scan_variables_pairs assms(6) by (simp add: job_getenv_varstr_def)
qed

lemma qsetenv_reads_back_witness:
  "job_getenv_varstr ''Variable_List'' [(''Variable_List'', ''HOME=/u,A=1,A=2'')] (Some ''A'') = Some ''2''"
  by (rule qsetenv_reads_back [where es = "[(''HOME'', ''/u''), (''A'', ''1'')]" and attribs = "[(''Variable_List'', ''HOME=/u,A=1'')]"])
     (simp_all add: plain_piece_def ref_variables_def variable_text_def job_setenv_varstr_def)

text \<open>
  Without that the answer may be wrong: a value that is the name asked for is taken for the name, and the
  next name for the value.
\<close>

theorem qgetenv_misreads_value:
  "job_getenv_varstr ''Variable_List'' [(''Variable_List'', ''A=B,B=C'')] (Some ''B'') = Some ''B''"
  by (simp add: job_getenv_varstr_def ref_variables_def strtok_all_def)

text \<open>
  The support for data warp ends with 0 whenever the configuration is in order, also when the old mounts stay
  or the new one cannot be made.
\<close>

theorem dws_ends_well:
  "effects (dws_main mc) (\<lambda>r es.
     r = (if fst (parse_UdiRootConfig (x_eofbuf mc) (x_stat mc) (x_readf mc) (x_configFile mc) empty_UdiRootConfig
            UDIROOT_VAL_ALL) = 0 then Inr 0 else Inl (Exits 1)))"
proof -
  have go: "effects (proceed (calling p) f) (\<lambda>r es. r = x)" if "logs p" "\<And>y. effects (f y) (\<lambda>r es. r = x)"
    for p :: "'x sys" and f :: "'x \<Rightarrow> 'y run" and x
    unfolding proceed_def
  proof (rule effects_seq [where Q = "\<lambda>r es. \<exists>y. r = Inr y"], goal_cases)
    case 1
    show ?case unfolding calling_def by (rule effects_seq [OF that(1)]) (auto intro: effects_yield)
  qed (use that(2) in auto)
  have run: "effects (proceed (calling (unmountTree m p)) (\<lambda>(r1, m1).
      proceed (calling (shifterCore_bindMount c m1 a p f True)) (\<lambda>(r2, m2). yield (Inr (0 :: int))))) (\<lambda>r es. r = Inr 0)"
    for m p c a f
    by (rule go [OF unmountTree_logs], simp split: prod.split, intro allI impI,
        rule go [OF any_call.bindMount [THEN logs_only]]) (auto intro: effects_yield)
  obtain rc config where parse: "parse_UdiRootConfig (x_eofbuf mc) (x_stat mc) (x_readf mc) (x_configFile mc)
      empty_UdiRootConfig UDIROOT_VAL_ALL = (rc, config)" by fastforce
  have start: "proceed (require e b) g = (if b then g () else yield (Inl e))" for e b and g :: "unit \<Rightarrow> 'z run"
    by (simp add: proceed_def require_def yield_def)
  show ?thesis
    unfolding dws_main_def parse prod.case Let_def start
    by (rule go, simp add: read_mounts_def logs_intros)
       (auto intro!: effects_cases effects_yield run)
qed

end
